(* ===== verification/Prelude.thy ===== *)
theory Prelude
  imports Main "HOL-Library.Word" "HOL-Library.Monad_Syntax"
begin

text \<open>
  Shared vocabulary of the development: machine words and bytes, panics, slices and
  big-endian fields, and the generic lemmas about them.

  A Rust function that can panic (a slice out of range, an index out of bounds, a failed
  \<open>assert!\<close>) is modelled with result type \<open>'a option\<close>: \<open>None\<close> is the panic, and the
  \<open>do\<close> notation sequences the calls. Arithmetic on words wraps, as it does in the release
  profile of \<open>Cargo.toml\<close> (no overflow checks); \<open>debug_assert!\<close> is compiled out there and
  is not modelled. \<open>usize\<close> values are \<open>nat\<close>.
\<close>

unbundle bit_operations_syntax

named_theorems slice_simps "rules that evaluate slices, splices and fields"
named_theorems wf_intros "preservation of the well-formedness invariants"
named_theorems frame_simps "fields an operation leaves alone"

subsection \<open>Words and bytes\<close>

type_synonym byte = "8 word"
type_synonym u16 = "16 word"
type_synonym u32 = "32 word"
type_synonym u64 = "64 word"

text \<open>\<open>u16::from_be_bytes\<close>, \<open>u16::to_be_bytes\<close> and their 32-bit versions. The byteorder
  functions \<open>BigEndian::read_u16\<close> and \<open>write_u16\<close> are documented to be these on the first
  bytes of their slice.\<close>

definition u16_of_bytes :: "byte \<Rightarrow> byte \<Rightarrow> u16" where
  "u16_of_bytes b0 b1 = push_bit 8 (ucast b0) OR ucast b1"

definition bytes_of_u16 :: "u16 \<Rightarrow> byte list" where
  "bytes_of_u16 w = [ucast (drop_bit 8 w), ucast w]"

definition u32_of_bytes :: "byte \<Rightarrow> byte \<Rightarrow> byte \<Rightarrow> byte \<Rightarrow> u32" where
  "u32_of_bytes b0 b1 b2 b3 =
     push_bit 24 (ucast b0) OR push_bit 16 (ucast b1) OR push_bit 8 (ucast b2) OR ucast b3"

definition bytes_of_u32 :: "u32 \<Rightarrow> byte list" where
  "bytes_of_u32 w =
     [ucast (drop_bit 24 w), ucast (drop_bit 16 w), ucast (drop_bit 8 w), ucast w]"

lemma bit_byte_high [simp]: "8 \<le> n \<Longrightarrow> \<not> bit (b :: byte) n"
  using bit_imp_le_length [of b n] by auto

lemma length_bytes_of_u16 [simp]: "length (bytes_of_u16 w) = 2"
  by (simp add: bytes_of_u16_def)

lemma length_bytes_of_u32 [simp]: "length (bytes_of_u32 w) = 4"
  by (simp add: bytes_of_u32_def)

lemma u16_of_bytes_of_u16 [simp]:
  "u16_of_bytes (ucast (drop_bit 8 w)) (ucast w) = w"
  by (rule bit_word_eqI) (auto simp: u16_of_bytes_def bit_simps)

lemma u32_of_bytes_of_u32 [simp]:
  "u32_of_bytes (ucast (drop_bit 24 w)) (ucast (drop_bit 16 w)) (ucast (drop_bit 8 w)) (ucast w) = w"
proof (rule bit_word_eqI)
  fix n assume "n < LENGTH(32)"
  then consider "n < 8" | "8 \<le> n" "n < 16" | "16 \<le> n" "n < 24" | "24 \<le> n" "n < 32"
    by fastforce
  then show "bit (u32_of_bytes (ucast (drop_bit 24 w)) (ucast (drop_bit 16 w))
      (ucast (drop_bit 8 w)) (ucast w)) n = bit w n"
    by cases (auto simp: u32_of_bytes_def bit_simps less_diff_conv2)
qed

lemma bytes_of_u16_of_bytes [simp]: "bytes_of_u16 (u16_of_bytes b0 b1) = [b0, b1]"
  by (auto simp: bytes_of_u16_def u16_of_bytes_def bit_simps
      intro!: bit_word_eqI)

lemma bytes_of_u32_of_bytes [simp]: "bytes_of_u32 (u32_of_bytes b0 b1 b2 b3) = [b0, b1, b2, b3]"
  by (auto simp: bytes_of_u32_def u32_of_bytes_def bit_simps
      intro!: bit_word_eqI)

lemma unat_u16_of_bytes: "unat (u16_of_bytes b0 b1) = 256 * unat b0 + unat b1"
proof -
  have b: "unat b0 < 256" "unat b1 < 256"
    using unsigned_less [of b0] unsigned_less [of b1] by simp_all
  have "u16_of_bytes b0 b1 = push_bit 8 (ucast b0) + ucast b1"
    unfolding u16_of_bytes_def
    by (rule disjunctive_add [symmetric]) (auto simp: bit_simps)
  moreover have "unat (ucast b0 :: u16) = unat b0" "unat (ucast b1 :: u16) = unat b1"
    using b by (simp_all add: unsigned_ucast_eq take_bit_nat_eq_self)
  ultimately show ?thesis
    using b by (simp add: unat_word_ariths push_bit_eq_mult)
qed


lemma unat_byte_less [simp]: "unat (b :: byte) < 256"
  using unsigned_less [of b] by simp

lemma unat_u16_less [simp]: "unat (w :: u16) < 65536"
  using unsigned_less [of w] by simp

lemma unat_u32_less [simp]: "unat (w :: u32) < 4294967296"
  using unsigned_less [of w] by simp

lemma unat_ucast_u16_byte [simp]: "unat (ucast (b :: byte) :: u16) = unat b"
proof -
  have "unat b < 2 ^ 16" by (rule less_trans [OF unat_byte_less]) simp
  then show ?thesis by (simp add: unsigned_ucast_eq take_bit_nat_eq_self)
qed

lemma unat_ucast_u32_byte [simp]: "unat (ucast (b :: byte) :: u32) = unat b"
proof -
  have "unat b < 2 ^ 32" by (rule less_trans [OF unat_byte_less]) simp
  then show ?thesis by (simp add: unsigned_ucast_eq take_bit_nat_eq_self)
qed

lemma unat_ucast_u32_u16 [simp]: "unat (ucast (w :: u16) :: u32) = unat w"
proof -
  have "unat w < 2 ^ 32" by (rule less_trans [OF unat_u16_less]) simp
  then show ?thesis by (simp add: unsigned_ucast_eq take_bit_nat_eq_self)
qed

lemma unat_of_nat_u16 [simp]: "n < 65536 \<Longrightarrow> unat (of_nat n :: u16) = n"
  by (simp add: unat_of_nat)

lemma unat_of_nat_u32 [simp]: "n < 4294967296 \<Longrightarrow> unat (of_nat n :: u32) = n"
  by (simp add: unat_of_nat)

lemma bytes_of_u16_inject [simp]: "bytes_of_u16 v = bytes_of_u16 w \<longleftrightarrow> v = w"
  by (metis bytes_of_u16_def list.inject u16_of_bytes_of_u16)

subsection \<open>Slices\<close>

text \<open>\<open>xs[i]\<close>, \<open>&xs[a..b]\<close>, \<open>xs[a..a + ys.len()].copy_from_slice(ys)\<close>, \<open>xs[i] = v\<close> and
  \<open>xs.swap(i, j)\<close>; each panics out of range.\<close>

definition index :: "nat \<Rightarrow> 'a list \<Rightarrow> 'a option" where
  "index i xs = (if i < length xs then Some (xs ! i) else None)"

definition slice :: "nat \<Rightarrow> nat \<Rightarrow> 'a list \<Rightarrow> 'a list option" where
  "slice a b xs =
     (if a \<le> b \<and> b \<le> length xs then Some (take (b - a) (drop a xs)) else None)"

definition splice :: "nat \<Rightarrow> 'a list \<Rightarrow> 'a list \<Rightarrow> 'a list option" where
  "splice a ys xs =
     (if a + length ys \<le> length xs
      then Some (take a xs @ ys @ drop (a + length ys) xs) else None)"

definition store :: "nat \<Rightarrow> 'a \<Rightarrow> 'a list \<Rightarrow> 'a list option" where
  "store i v xs = (if i < length xs then Some (xs[i := v]) else None)"

definition swap_at :: "nat \<Rightarrow> nat \<Rightarrow> 'a list \<Rightarrow> 'a list option" where
  "swap_at i j xs =
     (if i < length xs \<and> j < length xs then Some (xs[i := xs ! j, j := xs ! i]) else None)"

text \<open>\<open>for i in is { s = f(i, s) }\<close>, stopping at a panic.\<close>

fun for_each :: "('i \<Rightarrow> 's \<Rightarrow> 's option) \<Rightarrow> 'i list \<Rightarrow> 's \<Rightarrow> 's option" where
  "for_each f [] s = Some s"
| "for_each f (i # is) s = do { s' \<leftarrow> f i s; for_each f is s' }"

lemma index_Some [slice_simps]: "i < length xs \<Longrightarrow> index i xs = Some (xs ! i)"
  by (simp add: index_def)

lemma slice_Some [slice_simps]:
  "a \<le> b \<Longrightarrow> b \<le> length xs \<Longrightarrow> slice a b xs = Some (take (b - a) (drop a xs))"
  by (simp add: slice_def)

lemma splice_Some [slice_simps]:
  "a + length ys \<le> length xs \<Longrightarrow>
   splice a ys xs = Some (take a xs @ ys @ drop (a + length ys) xs)"
  by (simp add: splice_def)

lemma store_Some [slice_simps]: "i < length xs \<Longrightarrow> store i v xs = Some (xs[i := v])"
  by (simp add: store_def)

lemma swap_at_Some [slice_simps]:
  "i < length xs \<Longrightarrow> j < length xs \<Longrightarrow>
   swap_at i j xs = Some (xs[i := xs ! j, j := xs ! i])"
  by (simp add: swap_at_def)

lemma slice_SomeD:
  "slice a b xs = Some ys \<Longrightarrow>
   a \<le> b \<and> b \<le> length xs \<and> ys = take (b - a) (drop a xs) \<and> length ys = b - a"
  by (auto simp: slice_def split: if_splits)

lemma splice_SomeD:
  "splice a ys xs = Some zs \<Longrightarrow>
   a + length ys \<le> length xs \<and> zs = take a xs @ ys @ drop (a + length ys) xs \<and>
   length zs = length xs"
  by (auto simp: splice_def split: if_splits)

lemma drop_beyond_splice:
  assumes "a + length ys \<le> k" "a \<le> length xs"
  shows "drop k (take a xs @ ys @ drop (a + length ys) xs) = drop k xs"
proof -
  have "k - a - length ys + (a + length ys) = k" using assms by simp
  then show ?thesis using assms by (simp add: min_def)
qed

lemma length_splice: "splice a ys xs = Some zs \<Longrightarrow> length zs = length xs"
  by (auto dest: splice_SomeD)

lemma for_each_append [simp]:
  "for_each f (is @ js) s = do { s' \<leftarrow> for_each f is s; for_each f js s' }"
  by (induction "is" arbitrary: s) (auto split: Option.bind_splits)

lemma for_each_map [simp]: "for_each f (map g is) s = for_each (f \<circ> g) is s"
  by (induction "is" arbitrary: s) (auto split: Option.bind_splits)

lemma list_update_twice:
  "i \<noteq> j \<Longrightarrow> xs[i := a, j := b, i := c, j := d] = xs[i := c, j := d]"
  by (simp add: list_update_swap)

lemma for_each_length:
  assumes step: "\<And>i s s'. f i s = Some s' \<Longrightarrow> length s' = length s"
  shows "for_each f is s = Some s' \<Longrightarrow> length s' = length s"
proof (induction "is" arbitrary: s)
  case (Cons i "is")
  then show ?case by (auto split: Option.bind_splits dest!: step)
qed simp

subsection \<open>Big-endian fields of a slice\<close>

fun read_u16 :: "byte list \<Rightarrow> u16 option" where
  "read_u16 (b0 # b1 # _) = Some (u16_of_bytes b0 b1)"
| "read_u16 _ = None"

fun read_u32 :: "byte list \<Rightarrow> u32 option" where
  "read_u32 (b0 # b1 # b2 # b3 # _) = Some (u32_of_bytes b0 b1 b2 b3)"
| "read_u32 _ = None"

text \<open>\<open>BigEndian::read_u16(&raw[i..i + 2])\<close> and \<open>write_u16(&mut raw[i..i + 2], w)\<close>.\<close>

definition read_u16_at :: "nat \<Rightarrow> byte list \<Rightarrow> u16 option" where
  "read_u16_at i raw = do { s \<leftarrow> slice i (i + 2) raw; read_u16 s }"

definition read_u32_at :: "nat \<Rightarrow> byte list \<Rightarrow> u32 option" where
  "read_u32_at i raw = do { s \<leftarrow> slice i (i + 4) raw; read_u32 s }"

definition write_u16_at :: "nat \<Rightarrow> u16 \<Rightarrow> byte list \<Rightarrow> byte list option" where
  "write_u16_at i w raw = splice i (bytes_of_u16 w) raw"

definition write_u32_at :: "nat \<Rightarrow> u32 \<Rightarrow> byte list \<Rightarrow> byte list option" where
  "write_u32_at i w raw = splice i (bytes_of_u32 w) raw"

lemma take_drop_2:
  "Suc i < length xs \<Longrightarrow> take 2 (drop i xs) = [xs ! i, xs ! Suc i]"
  by (simp add: numeral_2_eq_2 Cons_nth_drop_Suc [symmetric])

lemma take_drop_4:
  "i + 3 < length xs \<Longrightarrow>
   take 4 (drop i xs) = [xs ! i, xs ! Suc i, xs ! Suc (Suc i), xs ! Suc (Suc (Suc i))]"
  by (simp add: eval_nat_numeral Cons_nth_drop_Suc [symmetric])

lemma read_u16_at_Some [slice_simps]:
  "Suc i < length raw \<Longrightarrow> read_u16_at i raw = Some (u16_of_bytes (raw ! i) (raw ! Suc i))"
  by (simp add: read_u16_at_def slice_Some take_drop_2)

lemma read_u32_at_Some [slice_simps]:
  "i + 3 < length raw \<Longrightarrow>
   read_u32_at i raw = Some (u32_of_bytes (raw ! i) (raw ! Suc i)
     (raw ! Suc (Suc i)) (raw ! Suc (Suc (Suc i))))"
  by (simp add: read_u32_at_def slice_Some take_drop_4)

lemma write_u16_at_Some [slice_simps]:
  "i + 1 < length raw \<Longrightarrow>
   write_u16_at i w raw = Some (raw[i := ucast (drop_bit 8 w), Suc i := ucast w])"
  by (intro nth_equalityI iffD2 [OF option.inject] | simp add: write_u16_at_def splice_def bytes_of_u16_def)+
    (auto simp: nth_append nth_Cons' nth_list_update intro!: arg_cong [where f = "(!) raw"])

lemma write_u32_at_Some [slice_simps]:
  "i + 3 < length raw \<Longrightarrow>
   write_u32_at i w raw = Some (raw[i := ucast (drop_bit 24 w), Suc i := ucast (drop_bit 16 w),
     Suc (Suc i) := ucast (drop_bit 8 w), Suc (Suc (Suc i)) := ucast w])"
  by (intro nth_equalityI iffD2 [OF option.inject] | simp add: write_u32_at_def splice_def bytes_of_u32_def)+
    (auto simp: nth_append nth_Cons' nth_list_update intro!: arg_cong [where f = "(!) raw"])

lemma length_write_u16_at: "write_u16_at i w raw = Some raw' \<Longrightarrow> length raw' = length raw"
  by (simp add: write_u16_at_def length_splice)

lemma length_write_u32_at: "write_u32_at i w raw = Some raw' \<Longrightarrow> length raw' = length raw"
  by (simp add: write_u32_at_def length_splice)

lemma length_swap_at: "swap_at i j xs = Some ys \<Longrightarrow> length ys = length xs"
  by (auto simp: swap_at_def split: if_splits)


subsection \<open>Swapping two adjacent blocks byte by byte\<close>

text \<open>\<open>for i in a..a + n { raw.swap(i, i + n) }\<close> exchanges the two blocks of length \<open>n\<close>.\<close>

lemma swap_blocks_partial:
  assumes "a + 2 * n \<le> length raw" "k \<le> n"
  shows "\<exists>ys. for_each (\<lambda>i. swap_at i (i + n)) [a..<a + k] raw = Some ys \<and> length ys = length raw \<and>
    (\<forall>j < length raw. ys ! j = (if a \<le> j \<and> j < a + k then raw ! (j + n)
       else if a + n \<le> j \<and> j < a + n + k then raw ! (j - n) else raw ! j))"
  using assms(2)
proof (induction k)
  case (Suc k)
  then obtain ys where ys: "for_each (\<lambda>i. swap_at i (i + n)) [a..<a + k] raw = Some ys"
      "length ys = length raw"
      "\<forall>j < length raw. ys ! j = (if a \<le> j \<and> j < a + k then raw ! (j + n)
       else if a + n \<le> j \<and> j < a + n + k then raw ! (j - n) else raw ! j)"
    by auto
  let ?zs = "ys[a + k := ys ! (a + k + n), a + k + n := ys ! (a + k)]"
  have b: "a + k < length ys" "a + k + n < length ys" "k < n"
    using assms(1) Suc.prems ys(2) by simp_all
  then have "for_each (\<lambda>i. swap_at i (i + n)) [a..<a + Suc k] raw = Some ?zs"
    using ys(1) by (simp add: swap_at_Some)
  moreover have "\<forall>j < length raw. ?zs ! j = (if a \<le> j \<and> j < a + Suc k then raw ! (j + n)
       else if a + n \<le> j \<and> j < a + n + Suc k then raw ! (j - n) else raw ! j)"
    using b ys(2,3) by (auto simp: nth_list_update)
  ultimately show ?case using ys(2) by simp
qed auto

lemma swap_blocks:
  assumes "a + 2 * n \<le> length raw"
  shows "for_each (\<lambda>i. swap_at i (i + n)) [a..<a + n] raw =
    Some (take a raw @ take n (drop (a + n) raw) @ take n (drop a raw) @ drop (a + 2 * n) raw)"
proof -
  obtain ys where ys: "for_each (\<lambda>i. swap_at i (i + n)) [a..<a + n] raw = Some ys"
      "length ys = length raw"
      "\<forall>j < length raw. ys ! j = (if a \<le> j \<and> j < a + n then raw ! (j + n)
       else if a + n \<le> j \<and> j < a + n + n then raw ! (j - n) else raw ! j)"
    using swap_blocks_partial [OF assms order_refl] by blast
  have "ys = take a raw @ take n (drop (a + n) raw) @ take n (drop a raw) @ drop (a + 2 * n) raw"
  proof (rule nth_equalityI)
    fix j assume "j < length ys"
    then show "ys ! j = (take a raw @ take n (drop (a + n) raw) @ take n (drop a raw) @
        drop (a + 2 * n) raw) ! j"
      using ys(2,3) assms by (auto simp: nth_append add.commute)
  qed (use assms ys(2) in simp)
  then show ?thesis using ys(1) by simp
qed

end
