(* ===== verification/Checksum.thy ===== *)
theory Checksum
  imports Prelude
begin

text \<open>
  The Internet checksum as the sources compute it (\<open>ipv4_header.rs\<close>, \<open>tcp_header.rs\<close>,
  \<open>icmp_handler.rs\<close> each repeat the same carry-folding loop over a \<open>u32\<close>), and the reference it
  is compared with: RFC 1071's one's-complement sum of 16-bit words with end-around carry.
  \<open>words_sum\<close> is the plain sum of the big-endian words of a byte list and \<open>oc_norm\<close> the value a
  sum has in one's-complement arithmetic.
\<close>

subsection \<open>The carry-folding loop\<close>

text \<open>\<open>while (sum & !0xffff) != 0 { sum = (sum & 0xffff) + (sum >> 16); }\<close>\<close>

lemma high_bits_zero_iff: "(s :: u32) AND NOT 0xFFFF = 0 \<longleftrightarrow> unat s < 65536"
proof -
  have "s AND NOT 0xFFFF = 0 \<longleftrightarrow> take_bit 16 s = s"
    by (auto simp: bit_eq_iff bit_simps take_bit_eq_mask mask_numeral)
  also have "\<dots> \<longleftrightarrow> take_bit 16 (unat s) = unat s"
    by (simp add: word_unat_eq_iff unsigned_take_bit_eq)
  also have "\<dots> \<longleftrightarrow> unat s < 65536"
    by (simp add: take_bit_nat_eq_self_iff)
  finally show ?thesis .
qed


lemma unat_and_low: "unat ((s :: u32) AND 0xFFFF) = unat s mod 65536"
proof -
  have "s AND 0xFFFF = take_bit 16 s"
    by (simp add: take_bit_eq_mask mask_numeral)
  then show ?thesis
    by (simp add: unsigned_take_bit_eq take_bit_nat_def)
qed

lemma unat_drop_16: "unat (drop_bit 16 (s :: u32)) = unat s div 65536"
  by (simp add: unsigned_drop_bit_eq drop_bit_nat_def take_bit_nat_eq_self)

lemma unat_fold_step: "unat (((s :: u32) AND 0xFFFF) + drop_bit 16 s) = unat s mod 65536 + unat s div 65536"
proof -
  have "unat s div 65536 < 65536" using unat_u32_less [of s] by (simp add: less_mult_imp_div_less)
  then have "unat s mod 65536 + unat s div 65536 < 2 ^ 32"
    by (simp add: add_less_mono [of _ 65536 _ 65536, simplified] trans_less_add1 order_less_trans)
  then show ?thesis
    by (simp add: unat_word_ariths unat_and_low unat_drop_16)
qed

function fold_carry :: "u32 \<Rightarrow> u32" where
  "fold_carry s =
     (if s AND NOT 0xFFFF \<noteq> 0 then fold_carry ((s AND 0xFFFF) + drop_bit 16 s) else s)"
  by pat_completeness auto
termination
proof (relation "measure unat")
  fix s :: u32
  assume "s AND NOT 0xFFFF \<noteq> 0"
  then have "65536 \<le> unat s" unfolding high_bits_zero_iff by simp
  then have "0 < unat s div 65536" by (simp add: div_greater_zero_iff)
  then have "unat s mod 65536 + unat s div 65536 < unat s"
    using div_mult_mod_eq [of "unat s" 65536] by linarith
  then show "((s AND 0xFFFF) + drop_bit 16 s, s) \<in> measure unat"
    by (simp only: in_measure unat_fold_step)
qed simp

declare fold_carry.simps [simp del]

lemma fold_carry_unfold:
  "fold_carry s =
     (if unat s < 65536 then s else fold_carry ((s AND 0xFFFF) + drop_bit 16 s))"
  by (subst fold_carry.simps) (simp only: high_bits_zero_iff, simp)

definition oc_norm :: "nat \<Rightarrow> nat" where
  "oc_norm n = (if n = 0 then 0 else (n - 1) mod 65535 + 1)"

lemma oc_norm_less: "oc_norm n < 65536"
  by (simp add: oc_norm_def less_Suc_eq_le less_imp_le_nat)

lemma oc_norm_small: "n < 65536 \<Longrightarrow> oc_norm n = n"
  by (simp add: oc_norm_def)

lemma oc_norm_mod: "oc_norm n mod 65535 = n mod 65535"
  by (cases n) (simp_all add: oc_norm_def mod_Suc)

lemma oc_norm_zero_iff: "oc_norm n = 0 \<longleftrightarrow> n = 0"
  by (simp add: oc_norm_def)

lemma oc_norm_cong:
  assumes "m mod 65535 = n mod 65535" "m = 0 \<longleftrightarrow> n = 0"
  shows "oc_norm m = oc_norm n"
proof (cases m)
  case (Suc m')
  then obtain n' where n': "n = Suc n'" using assms(2) by (cases n) auto
  have "m' mod 65535 = n' mod 65535"
    using mod_add_cong [OF assms(1) refl, of 65534] by (simp add: Suc n' mod_add_self2)
  then show ?thesis by (simp add: oc_norm_def Suc n')
qed (use assms in simp)

lemma oc_norm_add: "oc_norm (oc_norm m + n) = oc_norm (m + n)"
  by (rule oc_norm_cong) (simp_all add: mod_add_left_eq oc_norm_zero_iff,
      metis mod_add_left_eq oc_norm_mod)

lemma oc_norm_fold: "oc_norm (n mod 65536 + n div 65536) = oc_norm n"
proof (rule oc_norm_cong)
  have "n = 65536 * (n div 65536) + n mod 65536" by simp
  then have "n = 65535 * (n div 65536) + (n mod 65536 + n div 65536)" by linarith
  then show "(n mod 65536 + n div 65536) mod 65535 = n mod 65535"
    by (metis mod_mult_self4 mult.commute)
qed auto

theorem fold_carry_norm: "unat (fold_carry s) = oc_norm (unat s)"
proof (induction s rule: fold_carry.induct)
  case (1 s)
  show ?case
  proof (cases "unat s < 65536")
    case True
    then show ?thesis
      by (simp add: fold_carry_unfold [of s] oc_norm_small)
  next
    case False
    then have "fold_carry s = fold_carry ((s AND 0xFFFF) + drop_bit 16 s)"
      by (simp add: fold_carry_unfold [of s])
    moreover have "s AND NOT 0xFFFF \<noteq> 0" using False high_bits_zero_iff by blast
    ultimately show ?thesis
      using 1 by (simp only: unat_fold_step oc_norm_fold not_False_eq_True)
  qed
qed


subsection \<open>The plain sum of the words, and the RFC 1071 reference\<close>

fun words_sum :: "byte list \<Rightarrow> nat" where
  "words_sum (b0 # b1 # bs) = unat (u16_of_bytes b0 b1) + words_sum bs"
| "words_sum [b] = 256 * unat b"
| "words_sum [] = 0"

text \<open>One's-complement addition: the carry out of the 16 bits is added back in.\<close>

definition oc_add :: "u16 \<Rightarrow> u16 \<Rightarrow> u16" where
  "oc_add a b = (if a + b < a then a + b + 1 else a + b)"

fun rfc1071_sum :: "byte list \<Rightarrow> u16" where
  "rfc1071_sum (b0 # b1 # bs) = oc_add (u16_of_bytes b0 b1) (rfc1071_sum bs)"
| "rfc1071_sum [b] = u16_of_bytes b 0"
| "rfc1071_sum [] = 0"

definition rfc1071_checksum :: "byte list \<Rightarrow> u16" where
  "rfc1071_checksum bs = NOT (rfc1071_sum bs)"

lemma unat_oc_add: "unat (oc_add a b) = oc_norm (unat a + unat b)"
proof (cases "unat a + unat b < 65536")
  case True
  then have "unat (a + b) = unat a + unat b" by (simp add: unat_word_ariths)
  then show ?thesis using True by (simp add: oc_add_def word_less_nat_alt oc_norm_small)
next
  case False
  have lt: "unat a < 65536" "unat b < 65536" by simp_all
  then have "unat a + unat b - 65536 < 65536" by linarith
  then have eq: "unat (a + b) = unat a + unat b - 65536"
    using False by (simp add: unat_word_ariths le_mod_geq)
  have "unat a + unat b - 65536 < unat a" using False lt by linarith
  then have "a + b < a" using eq by (simp add: word_less_nat_alt)
  moreover have "unat (a + b + 1) = unat a + unat b - 65535"
  proof -
    have "unat (a + b) + 1 < 65536" using eq False lt by linarith
    then show ?thesis using eq False by (simp add: unat_word_ariths(1) [of "a + b" 1])
  qed
  moreover have "oc_norm (unat a + unat b) = unat a + unat b - 65535"
  proof -
    have "unat a + unat b - 1 - 65535 < 65535" "65535 \<le> unat a + unat b - 1"
      using False lt by linarith+
    then have "(unat a + unat b - 1) mod 65535 = unat a + unat b - 1 - 65535"
      by (simp only: le_mod_geq mod_less)
    moreover have "unat a + unat b \<noteq> 0" "unat a + unat b - 1 - 65535 + 1 = unat a + unat b - 65535"
      using False by linarith+
    ultimately show ?thesis unfolding oc_norm_def by (simp only: if_False)
  qed
  ultimately show ?thesis by (simp add: oc_add_def)
qed

lemma unat_rfc1071_sum: "unat (rfc1071_sum bs) = oc_norm (words_sum bs)"
proof (induction bs rule: words_sum.induct)
  case (1 b0 b1 bs)
  then show ?case
    using oc_norm_add [of "words_sum bs" "unat (u16_of_bytes b0 b1)"]
    by (simp add: unat_oc_add add.commute)
next
  case (2 b)
  have "256 * unat b < 65536" using unat_byte_less [of b] by linarith
  then show ?case by (simp add: unat_u16_of_bytes oc_norm_small)
next
  case 3
  then show ?case by (simp add: oc_norm_def)
qed

lemma words_sum_append: "even (length xs) \<Longrightarrow> words_sum (xs @ ys) = words_sum xs + words_sum ys"
  by (induction xs rule: words_sum.induct) simp_all

lemma words_sum_le: "words_sum bs \<le> 65535 * ((length bs + 1) div 2)"
proof (induction bs rule: words_sum.induct)
  case (1 b0 b1 bs)
  have "unat (u16_of_bytes b0 b1) \<le> 65535"
    using unat_u16_less [of "u16_of_bytes b0 b1"] by linarith
  with 1 show ?case by simp
next
  case (2 b)
  have "unat b \<le> 255" using unat_byte_less [of b] by linarith
  then show ?case by simp
qed simp

text \<open>The two ways the source takes the complement of the folded sum agree with the reference:
  \<open>(!sum) as u16\<close> and \<open>!(sum as u16)\<close>.\<close>

lemma ucast_not_u16: "(ucast (NOT (s :: u32)) :: u16) = NOT (ucast s)"
  by (rule bit_word_eqI) (simp add: bit_simps)

lemma unat_ucast_fold: "unat (ucast (fold_carry s) :: u16) = oc_norm (unat s)"
proof -
  have "unat (fold_carry s) < 2 ^ 16" using oc_norm_less by (simp add: fold_carry_norm)
  then show ?thesis
    by (simp add: unsigned_ucast_eq take_bit_nat_eq_self fold_carry_norm)
qed

lemma checksum_reference:
  assumes "unat s = words_sum bs"
  shows "ucast (NOT (fold_carry s)) = rfc1071_checksum bs"
  using assms by (simp add: ucast_not_u16 rfc1071_checksum_def word_unat_eq_iff [of "ucast (fold_carry s)"]
    unat_ucast_fold unat_rfc1071_sum)

lemma unat_not_u16: "unat (NOT (w :: u16)) = 65535 - unat w"
proof -
  have "NOT w = - 1 - w" by (simp add: not_eq_complement)
  moreover have "unat (- 1 - w) = unat (- 1 :: u16) - unat w"
    by (rule unat_sub) simp
  ultimately show ?thesis by (simp add: unsigned_minus_1_eq_mask mask_eq_exp_minus_1)
qed

text \<open>The receiver's check: data plus its checksum sums to all ones.\<close>

lemma checksum_verifies:
  "oc_norm (words_sum bs + unat (rfc1071_checksum bs)) = 65535"
proof -
  let ?n = "words_sum bs"
  have "oc_norm (?n + unat (rfc1071_checksum bs)) = oc_norm (oc_norm ?n + (65535 - oc_norm ?n))"
    by (simp add: oc_norm_add rfc1071_checksum_def unat_not_u16 unat_rfc1071_sum)
  also have "oc_norm ?n + (65535 - oc_norm ?n) = 65535" using oc_norm_less [of ?n] by simp
  finally show ?thesis by (simp add: oc_norm_small)
qed

subsection \<open>Sums over index ranges\<close>

text \<open>The body \<open>sum += u32::from(BigEndian::read_u16(&raw[2 * i..2 * (i + 1)]))\<close>.\<close>

definition add_word_at :: "byte list \<Rightarrow> nat \<Rightarrow> u32 \<Rightarrow> u32 option" where
  "add_word_at raw i acc = do { w \<leftarrow> read_u16_at (2 * i) raw; Some (acc + ucast w) }"

lemma add_word_at_Some:
  "2 * i + 1 < length raw \<Longrightarrow>
   add_word_at raw i acc = Some (acc + of_nat (words_sum (take 2 (drop (2 * i) raw))))"
  by (simp add: add_word_at_def slice_simps take_drop_2)

lemma sum_words_range:
  assumes "a \<le> b" "2 * b \<le> length raw"
  shows "for_each (add_word_at raw) [a..<b] s =
    Some (s + of_nat (words_sum (take (2 * (b - a)) (drop (2 * a) raw))))"
  using assms
proof (induction "b - a" arbitrary: a s)
  case (Suc n)
  then have ab: "a < b" by simp
  let ?d = "drop (2 * a) raw"
  have "take (2 * (b - a)) ?d = take 2 ?d @ take (2 * (b - Suc a)) (drop (2 * Suc a) raw)"
    using ab take_add [of 2 "2 * (b - Suc a)" ?d] by (simp add: add.commute Suc_diff_Suc algebra_simps)
  moreover have "even (length (take 2 ?d))" using ab Suc.prems(2) by simp
  ultimately have "words_sum (take (2 * (b - a)) ?d) =
      words_sum (take 2 ?d) + words_sum (take (2 * (b - Suc a)) (drop (2 * Suc a) raw))"
    by (simp add: words_sum_append)
  then show ?case
    using ab Suc.prems Suc.hyps(1) [of "Suc a"] Suc.hyps(2)
    by (simp add: upt_conv_Cons add_word_at_Some add.assoc)
qed simp


text \<open>A list with an aligned word taken out, as the checksum field is.\<close>

lemma words_sum_split_at:
  assumes "even k" "k + 2 \<le> length xs"
  shows "words_sum xs =
    words_sum (take k xs) + unat (u16_of_bytes (xs ! k) (xs ! Suc k)) + words_sum (drop (k + 2) xs)"
proof -
  have "xs = take k xs @ [xs ! k, xs ! Suc k] @ drop (k + 2) xs"
    using take_drop_2 [of k xs] assms(2) append_take_drop_id [of 2 "drop k xs"]
    by (simp add: add.commute)
  then have "words_sum xs = words_sum (take k xs @ [xs ! k, xs ! Suc k] @ drop (k + 2) xs)"
    by (rule arg_cong)
  then show ?thesis
    using assms by (simp add: words_sum_append)
qed

lemma checksum_field_verifies:
  assumes k: "even k" "k + 2 \<le> length xs"
    and c: "u16_of_bytes (xs ! k) (xs ! Suc k) = rfc1071_checksum (xs[k := 0, Suc k := 0])"
  shows "oc_norm (words_sum xs) = 65535"
proof -
  let ?zs = "xs[k := 0, Suc k := 0]"
  have "words_sum ?zs = words_sum (take k xs) + words_sum (drop (k + 2) xs)"
    using words_sum_split_at [of k ?zs] k by (simp add: unat_u16_of_bytes)
  then have "words_sum xs = words_sum ?zs + unat (rfc1071_checksum ?zs)"
    using words_sum_split_at [OF k] c by simp
  then show ?thesis by (simp only: checksum_verifies)
qed

end
