(* ===== verification/Ip_Header.thy ===== *)
theory Ip_Header
  imports Checksum
begin

text \<open>
  \<open>relay/ipv4_header.rs\<close>, \<open>relay/ipv6_header.rs\<close> and \<open>relay/ip_header.rs\<close>. A header is kept
  twice, as the raw bytes and as the parsed data (\<open>Ipv4Header\<close> binds both); every setter must
  write both. The locale \<open>bound_field\<close> states that contract: the data is always what parsing
  the raw bytes gives. \<open>Ipv4Header\<close> and \<open>Ipv4HeaderMut\<close>, which differ only in the borrow, are
  one record here, and the \<open>get\<close> methods of the macros are its selectors.
\<close>

datatype protocol = Tcp | Udp | Icmp | Other

text \<open>\<open>std::net::IpAddr\<close>: an IPv4 address is its 32-bit value, an IPv6 address its 16 octets.\<close>

datatype ip_addr = IpV4 u32 | IpV6 "byte list"

subsection \<open>\<open>relay/ipv4_header.rs\<close>\<close>

record ipv4_header_data =
  v4_version :: byte
  v4_header_length :: byte
  v4_total_length :: u16
  v4_protocol :: protocol
  v4_source :: u32
  v4_destination :: u32

record ipv4_header =
  h4_raw :: "byte list"
  h4_data :: ipv4_header_data

definition ipv4_protocol_of_byte :: "byte \<Rightarrow> protocol" where
  "ipv4_protocol_of_byte b =
     (if b = 1 then Icmp else if b = 6 then Tcp else if b = 17 then Udp else Other)"

definition ipv4_parse :: "byte list \<Rightarrow> ipv4_header_data option" where
  "ipv4_parse raw = do {
     b0 \<leftarrow> index 0 raw;
     len \<leftarrow> read_u16_at 2 raw;
     p \<leftarrow> index 9 raw;
     src \<leftarrow> read_u32_at 12 raw;
     dst \<leftarrow> read_u32_at 16 raw;
     Some \<lparr>v4_version = drop_bit 4 b0,
           v4_header_length = push_bit 2 (b0 AND 0xf),
           v4_total_length = len,
           v4_protocol = ipv4_protocol_of_byte p,
           v4_source = src,
           v4_destination = dst\<rparr>
   }"

definition ipv4_bind :: "byte list \<Rightarrow> ipv4_header_data \<Rightarrow> ipv4_header" where
  "ipv4_bind raw data = \<lparr>h4_raw = raw, h4_data = data\<rparr>"

definition ipv4_set_total_length :: "u16 \<Rightarrow> ipv4_header \<Rightarrow> ipv4_header option" where
  "ipv4_set_total_length total_length h = do {
     raw' \<leftarrow> write_u16_at 2 total_length (h4_raw h);
     Some \<lparr>h4_raw = raw', h4_data = (h4_data h)\<lparr>v4_total_length := total_length\<rparr>\<rparr>
   }"

definition ipv4_set_source :: "u32 \<Rightarrow> ipv4_header \<Rightarrow> ipv4_header option" where
  "ipv4_set_source source h = do {
     raw' \<leftarrow> write_u32_at 12 source (h4_raw h);
     Some \<lparr>h4_raw = raw', h4_data = (h4_data h)\<lparr>v4_source := source\<rparr>\<rparr>
   }"

definition ipv4_set_destination :: "u32 \<Rightarrow> ipv4_header \<Rightarrow> ipv4_header option" where
  "ipv4_set_destination destination h = do {
     raw' \<leftarrow> write_u32_at 16 destination (h4_raw h);
     Some \<lparr>h4_raw = raw', h4_data = (h4_data h)\<lparr>v4_destination := destination\<rparr>\<rparr>
   }"

definition ipv4_swap_source_and_destination :: "ipv4_header \<Rightarrow> ipv4_header option" where
  "ipv4_swap_source_and_destination h = do {
     raw' \<leftarrow> for_each (\<lambda>i. swap_at i (i + 4)) [12..<16] (h4_raw h);
     Some \<lparr>h4_raw = raw',
           h4_data = (h4_data h)\<lparr>v4_source := v4_destination (h4_data h),
                                 v4_destination := v4_source (h4_data h)\<rparr>\<rparr>
   }"

definition ipv4_checksum :: "ipv4_header \<Rightarrow> u16 option" where
  "ipv4_checksum h = read_u16_at 10 (h4_raw h)"

definition ipv4_set_checksum :: "u16 \<Rightarrow> ipv4_header \<Rightarrow> ipv4_header option" where
  "ipv4_set_checksum checksum h = do {
     raw' \<leftarrow> write_u16_at 10 checksum (h4_raw h);
     Some (h\<lparr>h4_raw := raw'\<rparr>)
   }"

definition ipv4_update_checksum :: "ipv4_header \<Rightarrow> ipv4_header option" where
  "ipv4_update_checksum h =
     (let j = unat (v4_header_length (h4_data h)) div 2 in do {
        s \<leftarrow> for_each (add_word_at (h4_raw h)) ([0..<5] @ [6..<j]) 0;
        ipv4_set_checksum (ucast (NOT (fold_carry s))) h
      })"

subsection \<open>\<open>relay/ipv6_header.rs\<close>\<close>

definition IPV6_HEADER_LENGTH :: byte where
  "IPV6_HEADER_LENGTH = 40"

record ipv6_header_data =
  v6_payload_length :: u16
  v6_next_header :: protocol
  v6_hop_limit :: byte
  v6_source :: "byte list"
  v6_destination :: "byte list"

record ipv6_header =
  h6_raw :: "byte list"
  h6_data :: ipv6_header_data

definition ipv6_protocol_of_byte :: "byte \<Rightarrow> protocol" where
  "ipv6_protocol_of_byte b = (if b = 6 then Tcp else if b = 17 then Udp else Other)"

definition ipv6_parse :: "byte list \<Rightarrow> ipv6_header_data option" where
  "ipv6_parse raw = do {
     source_bytes \<leftarrow> slice 8 24 raw;
     dest_bytes \<leftarrow> slice 24 40 raw;
     len \<leftarrow> read_u16_at 4 raw;
     b6 \<leftarrow> index 6 raw;
     b7 \<leftarrow> index 7 raw;
     Some \<lparr>v6_payload_length = len,
           v6_next_header = ipv6_protocol_of_byte b6,
           v6_hop_limit = b7,
           v6_source = source_bytes,
           v6_destination = dest_bytes\<rparr>
   }"

definition ipv6_bind :: "byte list \<Rightarrow> ipv6_header_data \<Rightarrow> ipv6_header" where
  "ipv6_bind raw data = \<lparr>h6_raw = raw, h6_data = data\<rparr>"

text \<open>\<open>u16::from(IPV6_HEADER_LENGTH) + self.payload_length\<close>, wrapping.\<close>

definition ipv6_total_length :: "ipv6_header_data \<Rightarrow> u16" where
  "ipv6_total_length d = ucast IPV6_HEADER_LENGTH + v6_payload_length d"

definition ipv6_set_payload_length :: "u16 \<Rightarrow> ipv6_header \<Rightarrow> ipv6_header option" where
  "ipv6_set_payload_length payload_length h = do {
     raw' \<leftarrow> write_u16_at 4 payload_length (h6_raw h);
     Some \<lparr>h6_raw = raw', h6_data = (h6_data h)\<lparr>v6_payload_length := payload_length\<rparr>\<rparr>
   }"

definition ipv6_set_source :: "byte list \<Rightarrow> ipv6_header \<Rightarrow> ipv6_header option" where
  "ipv6_set_source source h = do {
     raw' \<leftarrow> splice 8 source (h6_raw h);
     Some \<lparr>h6_raw = raw', h6_data = (h6_data h)\<lparr>v6_source := source\<rparr>\<rparr>
   }"

definition ipv6_set_destination :: "byte list \<Rightarrow> ipv6_header \<Rightarrow> ipv6_header option" where
  "ipv6_set_destination destination h = do {
     raw' \<leftarrow> splice 24 destination (h6_raw h);
     Some \<lparr>h6_raw = raw', h6_data = (h6_data h)\<lparr>v6_destination := destination\<rparr>\<rparr>
   }"

definition ipv6_swap_source_and_destination :: "ipv6_header \<Rightarrow> ipv6_header option" where
  "ipv6_swap_source_and_destination h = do {
     raw' \<leftarrow> for_each (\<lambda>i. swap_at (8 + i) (24 + i)) [0..<16] (h6_raw h);
     Some \<lparr>h6_raw = raw',
           h6_data = (h6_data h)\<lparr>v6_source := v6_destination (h6_data h),
                                 v6_destination := v6_source (h6_data h)\<rparr>\<rparr>
   }"

subsection \<open>\<open>relay/ip_header.rs\<close>\<close>

datatype ip_header_data = HdV4 ipv4_header_data | HdV6 ipv6_header_data

fun hd_protocol :: "ip_header_data \<Rightarrow> protocol" where
  "hd_protocol (HdV4 v4) = v4_protocol v4"
| "hd_protocol (HdV6 v6) = v6_next_header v6"

fun hd_total_length :: "ip_header_data \<Rightarrow> u16" where
  "hd_total_length (HdV4 v4) = v4_total_length v4"
| "hd_total_length (HdV6 v6) = ipv6_total_length v6"

fun hd_header_length :: "ip_header_data \<Rightarrow> byte" where
  "hd_header_length (HdV4 v4) = v4_header_length v4"
| "hd_header_length (HdV6 v6) = IPV6_HEADER_LENGTH"

fun hd_source :: "ip_header_data \<Rightarrow> ip_addr" where
  "hd_source (HdV4 v4) = IpV4 (v4_source v4)"
| "hd_source (HdV6 v6) = IpV6 (v6_source v6)"

fun hd_destination :: "ip_header_data \<Rightarrow> ip_addr" where
  "hd_destination (HdV4 v4) = IpV4 (v4_destination v4)"
| "hd_destination (HdV6 v6) = IpV6 (v6_destination v6)"

datatype ip_header = IhV4 ipv4_header | IhV6 ipv6_header

fun ih_raw :: "ip_header \<Rightarrow> byte list" where
  "ih_raw (IhV4 h) = h4_raw h"
| "ih_raw (IhV6 h) = h6_raw h"

fun ih_data_clone :: "ip_header \<Rightarrow> ip_header_data" where
  "ih_data_clone (IhV4 h) = HdV4 (h4_data h)"
| "ih_data_clone (IhV6 h) = HdV6 (h6_data h)"

text \<open>The getters of \<open>IpHeader\<close> and \<open>IpHeaderMut\<close> read the bound data.\<close>

definition ih_protocol :: "ip_header \<Rightarrow> protocol" where
  "ih_protocol h = hd_protocol (ih_data_clone h)"

definition ih_total_length :: "ip_header \<Rightarrow> u16" where
  "ih_total_length h = hd_total_length (ih_data_clone h)"

definition ih_header_length :: "ip_header \<Rightarrow> byte" where
  "ih_header_length h = hd_header_length (ih_data_clone h)"

definition ih_source :: "ip_header \<Rightarrow> ip_addr" where
  "ih_source h = hd_source (ih_data_clone h)"

definition ih_destination :: "ip_header \<Rightarrow> ip_addr" where
  "ih_destination h = hd_destination (ih_data_clone h)"

fun ih_bind :: "byte list \<Rightarrow> ip_header_data \<Rightarrow> ip_header" where
  "ih_bind raw (HdV4 v4) = IhV4 (ipv4_bind raw v4)"
| "ih_bind raw (HdV6 v6) = IhV6 (ipv6_bind raw v6)"

fun ih_set_total_length :: "u16 \<Rightarrow> ip_header \<Rightarrow> ip_header option" where
  "ih_set_total_length total_length (IhV4 h) =
     map_option IhV4 (ipv4_set_total_length total_length h)"
| "ih_set_total_length total_length (IhV6 h) =
     (let payload_length = total_length - ucast IPV6_HEADER_LENGTH in
      map_option IhV6 (ipv6_set_payload_length payload_length h))"

fun ih_swap_source_and_destination :: "ip_header \<Rightarrow> ip_header option" where
  "ih_swap_source_and_destination (IhV4 h) = map_option IhV4 (ipv4_swap_source_and_destination h)"
| "ih_swap_source_and_destination (IhV6 h) = map_option IhV6 (ipv6_swap_source_and_destination h)"

fun ih_update_checksum :: "ip_header \<Rightarrow> ip_header option" where
  "ih_update_checksum (IhV4 h) = map_option IhV4 (ipv4_update_checksum h)"
| "ih_update_checksum (IhV6 h) = Some (IhV6 h)"

text \<open>Parsing raw bytes as the version of given header data.\<close>

fun hd_reparse :: "ip_header_data \<Rightarrow> byte list \<Rightarrow> ip_header_data option" where
  "hd_reparse (HdV4 _) raw = map_option HdV4 (ipv4_parse raw)"
| "hd_reparse (HdV6 _) raw = map_option HdV6 (ipv6_parse raw)"


subsection \<open>Headers bound to their bytes\<close>

text \<open>The contract of a setter: on a header whose data is what its bytes parse to, it succeeds,
  keeps them in step, changes exactly its field and keeps the length. \<open>ok\<close> restricts the values
  (an IPv6 address has 16 octets, TCP flags have 9 bits).\<close>

locale bound_field =
  fixes parse :: "byte list \<Rightarrow> 'd option"
    and raw :: "'h \<Rightarrow> byte list"
    and data :: "'h \<Rightarrow> 'd"
    and ok :: "'v \<Rightarrow> bool"
    and set_field :: "'v \<Rightarrow> 'h \<Rightarrow> 'h option"
    and put :: "'v \<Rightarrow> 'd \<Rightarrow> 'd"
    and get :: "'d \<Rightarrow> 'v"
  assumes set_bound: "parse (raw h) = Some (data h) \<Longrightarrow> ok v \<Longrightarrow>
      \<exists>h'. set_field v h = Some h' \<and> parse (raw h') = Some (data h') \<and>
        data h' = put v (data h) \<and> length (raw h') = length (raw h)"
    and get_put: "ok v \<Longrightarrow> get (put v d) = v"
begin

lemma setE:
  assumes "parse (raw h) = Some (data h)" "ok v"
  obtains h' where "set_field v h = Some h'" "parse (raw h') = Some (data h')"
    "data h' = put v (data h)" "length (raw h') = length (raw h)"
  using set_bound [OF assms] by blast

lemma reparse_set:
  assumes "parse (raw h) = Some (data h)" "ok v"
  shows "\<exists>h' d'. set_field v h = Some h' \<and> parse (raw h') = Some d' \<and> get d' = v"
  using set_bound [OF assms] get_put [OF assms(2)] by auto

text \<open>Whatever is stored, one after the other, the bytes hold the last value.\<close>

lemma reparse_sets:
  assumes "parse (raw h) = Some (data h)" "\<forall>v \<in> set (vs @ [v]). ok v"
  shows "\<exists>h' d'. for_each set_field (vs @ [v]) h = Some h' \<and> parse (raw h') = Some d' \<and> get d' = v"
  using assms
proof (induction vs arbitrary: h)
  case Nil
  then show ?case using reparse_set [of h v] by auto
next
  case (Cons u us)
  obtain h1 where "set_field u h = Some h1" "parse (raw h1) = Some (data h1)"
    by (rule setE [of h u]) (use Cons.prems in auto)
  then show ?case using Cons.IH [of h1] Cons.prems by auto
qed

end

subsection \<open>IPv4\<close>

lemma ipv4_parse_eq:
  assumes "20 \<le> length raw"
  shows "ipv4_parse raw = Some
    \<lparr>v4_version = drop_bit 4 (raw ! 0), v4_header_length = push_bit 2 (raw ! 0 AND 0xf),
     v4_total_length = u16_of_bytes (raw ! 2) (raw ! 3),
     v4_protocol = ipv4_protocol_of_byte (raw ! 9),
     v4_source = u32_of_bytes (raw ! 12) (raw ! 13) (raw ! 14) (raw ! 15),
     v4_destination = u32_of_bytes (raw ! 16) (raw ! 17) (raw ! 18) (raw ! 19)\<rparr>"
proof -
  have "raw \<noteq> []" using assms by auto
  then show ?thesis using assms by (simp add: ipv4_parse_def slice_simps)
qed

lemma read_u32_at_length: "read_u32_at i raw = Some w \<Longrightarrow> i + 4 \<le> length raw"
  by (auto simp: read_u32_at_def slice_def split: Option.bind_splits if_splits)

lemma read_u16_at_length: "read_u16_at i raw = Some w \<Longrightarrow> i + 2 \<le> length raw"
  by (auto simp: read_u16_at_def slice_def split: Option.bind_splits if_splits)

lemma ipv4_parse_length: "ipv4_parse raw = Some d \<Longrightarrow> 20 \<le> length raw"
  by (auto simp: ipv4_parse_def split: Option.bind_splits dest!: read_u32_at_length)

lemma ipv4_parse_None_iff: "ipv4_parse raw = None \<longleftrightarrow> length raw < 20"
  using ipv4_parse_eq [of raw] ipv4_parse_length [of raw]
  by (cases "20 \<le> length raw"; cases "ipv4_parse raw") auto

definition ipv4_bound :: "ipv4_header \<Rightarrow> bool" where
  "ipv4_bound h \<longleftrightarrow> ipv4_parse (h4_raw h) = Some (h4_data h)"

interpretation v4_total: bound_field ipv4_parse h4_raw h4_data "\<lambda>_. True"
  ipv4_set_total_length "\<lambda>v d. d\<lparr>v4_total_length := v\<rparr>" v4_total_length
proof (unfold_locales, goal_cases)
  case (1 h v)
  with ipv4_parse_length [OF 1(1)] show ?case
    by (cases h) (auto simp: ipv4_set_total_length_def ipv4_parse_eq slice_simps)
qed simp

interpretation v4_src: bound_field ipv4_parse h4_raw h4_data "\<lambda>_. True"
  ipv4_set_source "\<lambda>v d. d\<lparr>v4_source := v\<rparr>" v4_source
proof (unfold_locales, goal_cases)
  case (1 h v)
  with ipv4_parse_length [OF 1(1)] show ?case
    by (cases h) (auto simp: ipv4_set_source_def ipv4_parse_eq slice_simps)
qed simp

interpretation v4_dst: bound_field ipv4_parse h4_raw h4_data "\<lambda>_. True"
  ipv4_set_destination "\<lambda>v d. d\<lparr>v4_destination := v\<rparr>" v4_destination
proof (unfold_locales, goal_cases)
  case (1 h v)
  with ipv4_parse_length [OF 1(1)] show ?case
    by (cases h) (auto simp: ipv4_set_destination_def ipv4_parse_eq slice_simps)
qed simp

lemma ipv4_swap_ok:
  assumes "ipv4_bound h"
  shows "\<exists>h'. ipv4_swap_source_and_destination h = Some h' \<and> ipv4_bound h' \<and>
    h4_data h' = (h4_data h)\<lparr>v4_source := v4_destination (h4_data h),
                             v4_destination := v4_source (h4_data h)\<rparr> \<and>
    length (h4_raw h') = length (h4_raw h)"
proof -
  have len: "20 \<le> length (h4_raw h)" using assms by (simp add: ipv4_bound_def ipv4_parse_length)
  then have "for_each (\<lambda>i. swap_at i (i + 4)) [12..<12 + 4] (h4_raw h) =
      Some (take 12 (h4_raw h) @ take 4 (drop (12 + 4) (h4_raw h)) @ take 4 (drop 12 (h4_raw h)) @
        drop (12 + 2 * 4) (h4_raw h))"
    by (intro swap_blocks) simp
  then show ?thesis
    using assms len
    by (cases h) (auto simp: ipv4_swap_source_and_destination_def ipv4_bound_def ipv4_parse_eq nth_append)
qed


lemma unat_ihl: "unat (push_bit 2 ((b :: byte) AND 0xf)) = 4 * (unat b mod 16)"
proof -
  have "b AND 0xf = take_bit 4 b" by (simp add: take_bit_eq_mask mask_numeral)
  then have *: "unat (b AND 0xf) = unat b mod 16" by (simp add: unsigned_take_bit_eq take_bit_nat_def)
  have "unat b mod 16 < 16" by simp
  then have "4 * (unat b mod 16) < 256" by linarith
  then show ?thesis
    using * by (simp add: push_bit_eq_mult unat_word_ariths del: push_bit_and)
qed

lemma ipv4_header_length_bound:
  assumes "ipv4_parse raw = Some d"
  shows "unat (v4_header_length d) = 4 * (unat (raw ! 0) mod 16)"
    and "unat (v4_header_length d) \<le> 60"
proof -
  show eq: "unat (v4_header_length d) = 4 * (unat (raw ! 0) mod 16)"
    using assms ipv4_parse_length [OF assms] unat_ihl by (auto simp: ipv4_parse_eq)
  have "unat (raw ! 0) mod 16 < 16" by simp
  then show "unat (v4_header_length d) \<le> 60" using eq by linarith
qed

text \<open>The header checksum: the loop, which skips the checksum field, computes RFC 1071's
  checksum of the header with that field zero.\<close>

lemma ipv4_checksum_sum:
  assumes "10 \<le> hl" "even hl" "12 \<le> hl" "hl \<le> length raw"
  shows "\<exists>s. for_each (add_word_at raw) ([0..<5] @ [6..<hl div 2]) 0 = Some s \<and>
    unat s = words_sum ((take hl raw)[10 := 0, 11 := 0]) \<or> \<not> hl \<le> 60"
proof (cases "hl \<le> 60")
  case True
  let ?n = "words_sum (take 10 raw) + words_sum (take (hl - 12) (drop 12 raw))"
  let ?zs = "(take hl raw)[10 := 0, Suc 10 := 0]"
  have hl: "2 * (hl div 2) = hl" using assms(2) by simp
  have "2 * (hl div 2 - 6) = hl - 12" using hl by linarith
  then have s: "for_each (add_word_at raw) ([0..<5] @ [6..<hl div 2]) 0 = Some (of_nat ?n)"
    using assms hl sum_words_range [of 0 5 raw 0] sum_words_range [of 6 "hl div 2" raw]
    by simp
  have z: "words_sum ?zs = ?n"
    using words_sum_split_at [of 10 ?zs] assms
    by (simp add: unat_u16_of_bytes drop_take min_def)
  have "?n \<le> 65535 * ((length ?zs + 1) div 2)" using words_sum_le [of ?zs] z by simp
  also have "\<dots> \<le> 65535 * 30" using True assms by simp
  finally have "?n < 4294967296" by simp
  then have "unat (of_nat ?n :: u32) = ?n" by (rule unat_of_nat_u32)
  then show ?thesis using s z by simp
qed simp

theorem ipv4_update_checksum_ok:
  assumes b: "ipv4_bound h"
    and hl: "hl = unat (v4_header_length (h4_data h))" "20 \<le> hl" "hl \<le> length (h4_raw h)"
  shows "\<exists>h'. ipv4_update_checksum h = Some h' \<and> ipv4_bound h' \<and> h4_data h' = h4_data h \<and>
    length (h4_raw h') = length (h4_raw h) \<and>
    ipv4_checksum h' = Some (rfc1071_checksum ((take hl (h4_raw h))[10 := 0, 11 := 0])) \<and>
    oc_norm (words_sum (take hl (h4_raw h'))) = 65535"
proof -
  let ?raw = "h4_raw h" and ?c = "rfc1071_checksum ((take hl (h4_raw h))[10 := 0, 11 := 0])"
  let ?raw' = "?raw[10 := ucast (drop_bit 8 ?c), 11 := ucast ?c]"
  let ?h' = "h\<lparr>h4_raw := ?raw'\<rparr>"
  have p: "ipv4_parse ?raw = Some (h4_data h)" using b by (simp add: ipv4_bound_def)
  have "even hl" "hl \<le> 60" using ipv4_header_length_bound [OF p] hl(1) by simp_all
  then obtain s where s: "for_each (add_word_at ?raw) ([0..<5] @ [6..<hl div 2]) 0 = Some s"
      "unat s = words_sum ((take hl ?raw)[10 := 0, 11 := 0])"
    using ipv4_checksum_sum [of hl ?raw] hl by auto
  have u: "ipv4_update_checksum h = Some ?h'"
    using s hl checksum_reference [OF s(2)]
    by (simp add: ipv4_update_checksum_def Let_def ipv4_set_checksum_def slice_simps
      del: for_each_append upt.simps)
  have b': "ipv4_bound ?h'"
    using p hl by (cases h) (auto simp: ipv4_bound_def ipv4_parse_eq)
  have "oc_norm (words_sum (take hl ?raw')) = 65535"
    using hl by (intro checksum_field_verifies [of 10]) (simp_all add: take_update_swap list_update_twice)
  then show ?thesis
    using u b' hl by (simp add: ipv4_checksum_def slice_simps)
qed

subsection \<open>IPv6\<close>

lemma ipv6_parse_eq:
  assumes "40 \<le> length raw"
  shows "ipv6_parse raw = Some
    \<lparr>v6_payload_length = u16_of_bytes (raw ! 4) (raw ! 5),
     v6_next_header = ipv6_protocol_of_byte (raw ! 6), v6_hop_limit = raw ! 7,
     v6_source = take 16 (drop 8 raw), v6_destination = take 16 (drop 24 raw)\<rparr>"
  using assms by (simp add: ipv6_parse_def slice_simps)

lemma ipv6_parse_length: "ipv6_parse raw = Some d \<Longrightarrow> 40 \<le> length raw"
  by (auto simp: ipv6_parse_def split: Option.bind_splits dest!: slice_SomeD)

lemma ipv6_parse_addresses:
  "ipv6_parse raw = Some d \<Longrightarrow> length (v6_source d) = 16 \<and> length (v6_destination d) = 16"
  by (auto simp: ipv6_parse_def split: Option.bind_splits dest!: slice_SomeD)

definition ipv6_bound :: "ipv6_header \<Rightarrow> bool" where
  "ipv6_bound h \<longleftrightarrow> ipv6_parse (h6_raw h) = Some (h6_data h)"

lemma take_drop_update:
  "i < k \<or> k + n \<le> i \<Longrightarrow> take n (drop k (xs[i := x])) = take n (drop k xs)"
  by (auto simp: drop_update_swap drop_update_cancel take_update_cancel not_le)

interpretation v6_payload: bound_field ipv6_parse h6_raw h6_data "\<lambda>_. True"
  ipv6_set_payload_length "\<lambda>v d. d\<lparr>v6_payload_length := v\<rparr>" v6_payload_length
proof (unfold_locales, goal_cases)
  case (1 h v)
  with ipv6_parse_length [OF 1(1)] show ?case
    by (cases h) (auto simp: ipv6_set_payload_length_def ipv6_parse_eq slice_simps take_drop_update)
qed simp

interpretation v6_src: bound_field ipv6_parse h6_raw h6_data "\<lambda>v. length v = 16"
  ipv6_set_source "\<lambda>v d. d\<lparr>v6_source := v\<rparr>" v6_source
proof (unfold_locales, goal_cases)
  case (1 h v)
  with ipv6_parse_length [OF 1(1)] show ?case
    by (cases h) (auto simp: ipv6_set_source_def ipv6_parse_eq slice_simps nth_append)
qed simp

interpretation v6_dst: bound_field ipv6_parse h6_raw h6_data "\<lambda>v. length v = 16"
  ipv6_set_destination "\<lambda>v d. d\<lparr>v6_destination := v\<rparr>" v6_destination
proof (unfold_locales, goal_cases)
  case (1 h v)
  with ipv6_parse_length [OF 1(1)] show ?case
    by (cases h) (auto simp: ipv6_set_destination_def ipv6_parse_eq slice_simps nth_append drop_take)
qed simp

lemma ipv6_swap_ok:
  assumes "ipv6_bound h"
  shows "\<exists>h'. ipv6_swap_source_and_destination h = Some h' \<and> ipv6_bound h' \<and>
    h6_data h' = (h6_data h)\<lparr>v6_source := v6_destination (h6_data h),
                             v6_destination := v6_source (h6_data h)\<rparr> \<and>
    length (h6_raw h') = length (h6_raw h)"
proof -
  have len: "40 \<le> length (h6_raw h)" using assms by (simp add: ipv6_bound_def ipv6_parse_length)
  have "[8..<8 + 16] = map (\<lambda>i. 8 + i) [0..<16]" by (simp add: upt_rec)
  then have "for_each (\<lambda>i. swap_at (8 + i) (24 + i)) [0..<16] (h6_raw h) =
      for_each (\<lambda>i. swap_at i (i + 16)) [8..<8 + 16] (h6_raw h)"
    by (simp add: comp_def add.commute del: upt.simps)
  also have "\<dots> = Some (take 8 (h6_raw h) @ take 16 (drop (8 + 16) (h6_raw h)) @
      take 16 (drop 8 (h6_raw h)) @ drop (8 + 2 * 16) (h6_raw h))"
    using len by (intro swap_blocks) simp
  finally show ?thesis
    using assms len
    by (cases h) (auto simp: ipv6_swap_source_and_destination_def ipv6_bound_def ipv6_parse_eq
      nth_append)
qed

end
