(* ===== verification/Std_Fmt.thy ===== *)
theory Std_Fmt
  imports Ip_Header
begin

text \<open>
  What the source uses of \<open>std::fmt\<close> and \<open>std::net\<close>: decimal and hexadecimal numbers, and the
  \<open>Display\<close> of addresses. Strings are lists of characters.
\<close>

text \<open>\<open>{}\<close> and \<open>{:x}\<close> of an unsigned integer, in base \<open>b\<close> from 2 to 16.\<close>

definition digit_char :: "nat \<Rightarrow> char" where
  "digit_char d = (if d < 10 then char_of (48 + d) else char_of (87 + d))"

fun show_base :: "nat \<Rightarrow> nat \<Rightarrow> string" where
  "show_base b n =
     (if n < b \<or> b < 2 then [digit_char n] else show_base b (n div b) @ [digit_char (n mod b)])"

declare show_base.simps [simp del]

definition show_dec :: "nat \<Rightarrow> string" where
  "show_dec n = show_base 10 n"

definition show_hex :: "nat \<Rightarrow> string" where
  "show_hex n = show_base 16 n"

text \<open>\<open>xs.join(sep)\<close>.\<close>

fun join :: "string \<Rightarrow> string list \<Rightarrow> string" where
  "join sep [] = []"
| "join sep [x] = x"
| "join sep (x # xs) = x @ sep @ join sep xs"

text \<open>\<open>Ipv4Addr\<close> prints its four octets, \<open>Ipv6Addr\<close> its segments with the first longest run of at
  least two zeros as \<open>::\<close>, and an IPv4-mapped address with the IPv4 notation.\<close>

definition show_ipv4 :: "byte list \<Rightarrow> string" where
  "show_ipv4 octets = join ''.'' (map (\<lambda>b. show_dec (unat b)) octets)"

fun segments :: "byte list \<Rightarrow> u16 list" where
  "segments (a # b # bs) = u16_of_bytes a b # segments bs"
| "segments _ = []"

text \<open>The state of the search: the longest run and the current one, as (start, length).\<close>

fun longest_zeros ::
  "nat \<Rightarrow> nat \<times> nat \<Rightarrow> nat \<times> nat \<Rightarrow> u16 list \<Rightarrow> nat \<times> nat" where
  "longest_zeros i best cur [] = best"
| "longest_zeros i best (start, len) (s # ss) =
     (if s = 0 then
        let cur = (if len = 0 then i else start, len + 1) in
        longest_zeros (i + 1) (if snd best < snd cur then cur else best) cur ss
      else longest_zeros (i + 1) best (0, 0) ss)"

definition show_segments :: "u16 list \<Rightarrow> string" where
  "show_segments ss = join '':'' (map (\<lambda>s. show_hex (unat s)) ss)"

definition show_ipv6 :: "byte list \<Rightarrow> string" where
  "show_ipv6 octets =
     (if take 12 octets = replicate 10 0 @ [0xff, 0xff] then ''::ffff:'' @ show_ipv4 (drop 12 octets)
      else let ss = segments octets; (start, len) = longest_zeros 0 (0, 0) (0, 0) ss in
        if 1 < len then show_segments (take start ss) @ ''::'' @ show_segments (drop (start + len) ss)
        else show_segments ss)"

text \<open>\<open>SocketAddr\<close> of an address and a port.\<close>

type_synonym socket_addr = "ip_addr \<times> u16"

fun show_socket_addr :: "socket_addr \<Rightarrow> string" where
  "show_socket_addr (IpV4 a, port) = show_ipv4 (bytes_of_u32 a) @ '':'' @ show_dec (unat port)"
| "show_socket_addr (IpV6 a, port) = ''['' @ show_ipv6 a @ '']:'' @ show_dec (unat port)"

lemma show_base_digits:
  assumes "2 \<le> b" "b \<le> 16"
  shows "set (show_base b n) \<subseteq> digit_char ` {..<b} \<and> show_base b n \<noteq> []"
proof (induction n rule: less_induct)
  case (less n)
  then show ?case
    using assms by (subst (1 2) show_base.simps) auto
qed

lemma digit_char_inj:
  assumes "d < 16" "e < 16" "digit_char d = digit_char e"
  shows "d = e"
proof -
  have "(of_char (digit_char k) :: nat) = (if k < 10 then 48 + k else 87 + k)" if "k < 16" for k
    using that by (simp add: digit_char_def)
  from this [OF assms(1)] this [OF assms(2)] show ?thesis
    using assms(1,2) unfolding assms(3) by (simp split: if_splits)
qed

text \<open>Different numbers print differently.\<close>

lemma show_base_inj:
  assumes "2 \<le> b" "b \<le> 16"
  shows "show_base b m = show_base b n \<Longrightarrow> m = n"
proof (induction m arbitrary: n rule: less_induct)
  case (less m)
  have one: "length (show_base b k) = 1 \<longleftrightarrow> k < b" for k
    using assms show_base_digits [OF assms, of "k div b"] by (subst show_base.simps) auto
  show ?case
  proof (cases "m < b")
    case True
    then have "n < b" using one [of m] one [of n] less.prems by simp
    then have "digit_char m = digit_char n"
      using less.prems True by (simp add: show_base.simps)
    then show ?thesis using digit_char_inj \<open>n < b\<close> True assms(2) by simp
  next
    case False
    then have n: "\<not> n < b" using one [of m] one [of n] less.prems by simp
    then have "show_base b (m div b) = show_base b (n div b)"
      and d: "digit_char (m mod b) = digit_char (n mod b)"
      using less.prems False assms by (simp_all add: show_base.simps [of b m] show_base.simps [of b n])
    moreover have "m div b < m" using False assms by simp
    ultimately have "m div b = n div b" using less.IH by simp
    moreover have "m mod b < b" "n mod b < b" using assms by simp_all
    then have "m mod b < 16" "n mod b < 16" using assms(2) by linarith+
    then have "m mod b = n mod b" using digit_char_inj d by simp
    ultimately show ?thesis by (metis div_mult_mod_eq)
  qed
qed

end
