(* ===== verification/Std_Text.thy ===== *)
theory Std_Text
  imports Std_Fmt
begin

text \<open>
  What the source uses of \<open>std::string\<close> and \<open>str\<close>. A \<open>String\<close> is its UTF-8 encoding, one \<open>char\<close> per
  byte, so that \<open>len\<close>, comparisons and ASCII patterns are those of lists; decoding (\<open>from_utf8\<close>,
  \<open>from_utf8_lossy\<close>) and the Unicode white space (\<open>trim\<close>, \<open>split_whitespace\<close>) are written out.
\<close>

subsection \<open>UTF-8\<close>

definition between :: "nat \<Rightarrow> nat \<Rightarrow> nat list \<Rightarrow> nat \<Rightarrow> bool" where
  "between lo hi bs i \<longleftrightarrow> i < length bs \<and> lo \<le> bs ! i \<and> bs ! i \<le> hi"

abbreviation continues :: "nat list \<Rightarrow> nat \<Rightarrow> bool" where
  "continues \<equiv> between 0x80 0xBF"

text \<open>The sequence at the head of \<open>b # bs\<close>: whether it is well formed, and its length (of an ill-formed
  one, the maximal prefix of a well-formed sequence). The second byte is restricted so that neither an
  overlong form nor a surrogate nor a number above \<open>0x10FFFF\<close> is accepted.\<close>

definition utf8_second :: "nat \<Rightarrow> nat list \<Rightarrow> bool" where
  "utf8_second b bs =
     (if b = 0xE0 then between 0xA0 0xBF bs 0
      else if b = 0xED then between 0x80 0x9F bs 0
      else if b = 0xF0 then between 0x90 0xBF bs 0
      else if b = 0xF4 then between 0x80 0x8F bs 0
      else continues bs 0)"

definition utf8_head :: "nat \<Rightarrow> nat list \<Rightarrow> bool \<times> nat" where
  "utf8_head b bs =
     (if b < 0x80 then (True, 1)
      else if b < 0xC2 \<or> 0xF4 < b \<or> \<not> utf8_second b bs then (False, 1)
      else if b < 0xE0 then (True, 2)
      else if \<not> continues bs 1 then (False, 2)
      else if b < 0xF0 then (True, 3)
      else if \<not> continues bs 2 then (False, 3)
      else (True, 4))"

fun utf8_valid :: "nat list \<Rightarrow> bool" where
  "utf8_valid [] = True"
| "utf8_valid (b # bs) =
     (case utf8_head b bs of (ok, n) \<Rightarrow> ok \<and> utf8_valid (drop (n - 1) bs))"

text \<open>The replacement character is \<open>EF BF BD\<close>.\<close>

fun utf8_lossy :: "nat list \<Rightarrow> nat list" where
  "utf8_lossy [] = []"
| "utf8_lossy (b # bs) =
     (case utf8_head b bs of (ok, n) \<Rightarrow>
        (if ok then b # take (n - 1) bs else [0xEF, 0xBF, 0xBD]) @ utf8_lossy (drop (n - 1) bs))"

definition string_of_bytes :: "byte list \<Rightarrow> string" where
  "string_of_bytes bs = map (\<lambda>b. char_of (unat b)) bs"

definition bytes_of_string :: "string \<Rightarrow> byte list" where
  "bytes_of_string s = map (\<lambda>c. of_nat (of_char c)) s"

definition from_utf8 :: "byte list \<Rightarrow> string option" where
  "from_utf8 bs = (if utf8_valid (map unat bs) then Some (string_of_bytes bs) else None)"

definition from_utf8_lossy :: "byte list \<Rightarrow> string" where
  "from_utf8_lossy bs = map char_of (utf8_lossy (map unat bs))"

lemma utf8_lossy_valid: "utf8_valid bs \<Longrightarrow> utf8_lossy bs = bs"
  by (induction bs rule: utf8_lossy.induct) (auto split: prod.splits)

lemma from_utf8_lossy_valid: "from_utf8 bs = Some s \<Longrightarrow> from_utf8_lossy bs = s"
  by (auto simp: from_utf8_def from_utf8_lossy_def utf8_lossy_valid string_of_bytes_def comp_def
      split: if_splits)

lemma utf8_valid_ascii: "list_all (\<lambda>b. b < 0x80) bs \<Longrightarrow> utf8_valid bs"
  by (induction bs) (simp_all add: utf8_head_def)

lemma unat_of_char [simp]: "unat (of_nat (of_char c) :: byte) = of_char c"
proof -
  have "(of_char c :: nat) < 256" by simp
  then show ?thesis by (simp add: unat_of_nat)
qed

lemma length_bytes_of_string [simp]: "length (bytes_of_string s) = length s"
  by (simp add: bytes_of_string_def)

lemma string_of_bytes_of_string [simp]: "string_of_bytes (bytes_of_string s) = s"
  by (simp add: string_of_bytes_def bytes_of_string_def comp_def)

abbreviation ascii :: "string \<Rightarrow> bool" where
  "ascii s \<equiv> list_all (\<lambda>c. of_char c < (0x80 :: nat)) s"

lemma from_utf8_ascii: "ascii s \<Longrightarrow> from_utf8 (bytes_of_string s) = Some s"
  by (simp add: from_utf8_def utf8_valid_ascii bytes_of_string_def list.pred_map comp_def
      string_of_bytes_def)

lemma from_utf8_inverse: "from_utf8 bs = Some s \<Longrightarrow> bytes_of_string s = bs"
  by (auto simp: from_utf8_def string_of_bytes_def bytes_of_string_def comp_def
      map_idI split: if_splits)

subsection \<open>White space\<close>

text \<open>The length of the white space character at the head of the string, 0 if there is none: the
  characters of the Unicode property \<open>White_Space\<close>.\<close>

definition space_length :: "string \<Rightarrow> nat" where
  "space_length s =
     (case map of_char s :: nat list of
        a # r \<Rightarrow>
          if 9 \<le> a \<and> a \<le> 13 \<or> a = 32 then 1
          else (case r of
              b # r' \<Rightarrow>
                if a = 0xC2 \<and> (b = 0x85 \<or> b = 0xA0) then 2
                else (case r' of
                    c # _ \<Rightarrow>
                      if a = 0xE1 \<and> b = 0x9A \<and> c = 0x80 \<or>
                         a = 0xE2 \<and> b = 0x80 \<and> (0x80 \<le> c \<and> c \<le> 0x8A \<or> c = 0xA8 \<or> c = 0xA9 \<or> c = 0xAF) \<or>
                         a = 0xE2 \<and> b = 0x81 \<and> c = 0x9F \<or>
                         a = 0xE3 \<and> b = 0x80 \<and> c = 0x80
                      then 3 else 0
                  | [] \<Rightarrow> 0)
            | [] \<Rightarrow> 0)
      | [] \<Rightarrow> 0)"

fun split_words :: "string \<Rightarrow> string \<Rightarrow> string list" where
  "split_words word [] = (if word = [] then [] else [rev word])"
| "split_words word (c # s) =
     (let n = space_length (c # s) in
      if n = 0 then split_words (c # word) s
      else (if word = [] then [] else [rev word]) @ split_words [] (drop (n - 1) s))"

definition split_whitespace :: "string \<Rightarrow> string list" where
  "split_whitespace s = split_words [] s"

fun trim_start :: "string \<Rightarrow> string" where
  "trim_start [] = []"
| "trim_start (c # s) =
     (let n = space_length (c # s) in if n = 0 then c # s else trim_start (drop (n - 1) s))"

fun trim_end :: "string \<Rightarrow> string" where
  "trim_end [] = []"
| "trim_end (c # s) = (if trim_start (c # s) = [] then [] else c # trim_end s)"

definition trim :: "string \<Rightarrow> string" where
  "trim s = trim_end (trim_start s)"

text \<open>\<open>str::lines\<close>: a line ends with \<open>\n\<close> or \<open>\r\n\<close>, the last one perhaps with nothing.\<close>

definition strip_cr :: "string \<Rightarrow> string" where
  "strip_cr l = (if l \<noteq> [] \<and> last l = CHR 0x0D then butlast l else l)"

fun lines_from :: "string \<Rightarrow> string \<Rightarrow> string list" where
  "lines_from line [] = (if line = [] then [] else [rev line])"
| "lines_from line (c # s) =
     (if c = CHR 0x0A then strip_cr (rev line) # lines_from [] s else lines_from (c # line) s)"

definition lines :: "string \<Rightarrow> string list" where
  "lines s = lines_from [] s"

text \<open>A word: ASCII, no white space, not empty.\<close>

definition plain_word :: "string \<Rightarrow> bool" where
  "plain_word w \<longleftrightarrow> w \<noteq> [] \<and> list_all (\<lambda>c. (32 :: nat) < of_char c \<and> of_char c < (0x80 :: nat)) w"

lemma space_length_word: "32 < (of_char c :: nat) \<Longrightarrow> of_char c < (0x80 :: nat) \<Longrightarrow> space_length (c # s) = 0"
  by (simp add: space_length_def split: list.split)

lemma split_words_word:
  "list_all (\<lambda>c. (32 :: nat) < of_char c \<and> of_char c < (0x80 :: nat)) w \<Longrightarrow>
   split_words acc (w @ s) = split_words (rev w @ acc) s"
  by (induction w arbitrary: acc) (simp_all add: space_length_word)

lemma split_words_tab:
  "split_words acc (CHR 0x09 # s) = (if acc = [] then [] else [rev acc]) @ split_words [] s"
  by (simp add: space_length_def)

lemma split_whitespace_two:
  assumes "plain_word v" "plain_word w"
  shows "split_whitespace (v @ CHR 0x09 # w) = [v, w]"
  using assms split_words_word [of w "[]" "[]"]
  by (simp add: split_whitespace_def plain_word_def split_words_word split_words_tab del: split_words.simps(2))

lemma lines_from_append:
  "CHR 0x0A \<notin> set l \<Longrightarrow> lines_from acc (l @ CHR 0x0A # s) = strip_cr (rev acc @ l) # lines_from [] s"
  by (induction l arbitrary: acc) auto

lemma lines_Cons:
  assumes "CHR 0x0A \<notin> set l" "CHR 0x0D \<notin> set l"
  shows "lines (l @ CHR 0x0A # s) = l # lines s"
proof -
  have "strip_cr l = l" using assms(2) by (metis last_in_set strip_cr_def)
  then show ?thesis using lines_from_append [OF assms(1), of "[]" s] by (simp add: lines_def)
qed

subsection \<open>Patterns\<close>

fun starts_with :: "string \<Rightarrow> string \<Rightarrow> bool" where
  "starts_with s [] = True"
| "starts_with (c # s) (d # p) = (c = d \<and> starts_with s p)"
| "starts_with [] (d # p) = False"

definition strip_prefix :: "string \<Rightarrow> string \<Rightarrow> string option" where
  "strip_prefix s p = (if starts_with s p then Some (drop (length p) s) else None)"

fun contains :: "string \<Rightarrow> string \<Rightarrow> bool" where
  "contains [] p = (p = [])"
| "contains (c # s) p = (starts_with (c # s) p \<or> contains s p)"

text \<open>\<open>split(c)\<close>, \<open>splitn(n, c)\<close> and \<open>rsplitn(n, c)\<close> for an ASCII character.\<close>

fun split_on :: "char \<Rightarrow> string \<Rightarrow> string \<Rightarrow> string list" where
  "split_on d acc [] = [rev acc]"
| "split_on d acc (c # s) = (if c = d then rev acc # split_on d [] s else split_on d (c # acc) s)"

fun splitn :: "nat \<Rightarrow> char \<Rightarrow> string \<Rightarrow> string list" where
  "splitn 0 d s = []"
| "splitn (Suc 0) d s = [s]"
| "splitn (Suc (Suc n)) d s =
     (let field = takeWhile (\<lambda>c. c \<noteq> d) s in
      field # (if length field < length s then splitn (Suc n) d (drop (length field + 1) s) else []))"

definition rsplitn :: "nat \<Rightarrow> char \<Rightarrow> string \<Rightarrow> string list" where
  "rsplitn n d s = map rev (splitn n d (rev s))"

text \<open>\<open>replace("\\:", ":")\<close>.\<close>

fun unescape_colons :: "string \<Rightarrow> string" where
  "unescape_colons (c # d # s) =
     (if c = CHR 0x5C \<and> d = CHR '':'' then CHR '':'' # unescape_colons s
      else c # unescape_colons (d # s))"
| "unescape_colons s = s"

lemma starts_with_append [simp]: "starts_with (p @ s) p"
  by (induction p) simp_all

lemma starts_with_iff: "starts_with s p \<longleftrightarrow> (\<exists>r. s = p @ r)"
  by (induction s p rule: starts_with.induct) auto

subsection \<open>Numbers\<close>

definition digit_value :: "nat \<Rightarrow> char \<Rightarrow> nat option" where
  "digit_value radix c =
     (let n = of_char c :: nat;
          d = if 48 \<le> n \<and> n \<le> 57 then n - 48
              else if 97 \<le> n \<and> n \<le> 122 then n - 87
              else if 65 \<le> n \<and> n \<le> 90 then n - 55
              else radix
      in if d < radix then Some d else None)"

fun parse_digits :: "nat \<Rightarrow> nat \<Rightarrow> nat \<Rightarrow> string \<Rightarrow> nat option" where
  "parse_digits radix limit acc [] = Some acc"
| "parse_digits radix limit acc (c # s) = do {
     d \<leftarrow> digit_value radix c;
     if limit \<le> acc * radix + d then None else parse_digits radix limit (acc * radix + d) s
   }"

text \<open>\<open>from_str_radix\<close> and \<open>parse\<close> of an unsigned type with values below \<open>limit\<close>: an optional \<open>+\<close>,
  then at least one digit.\<close>

definition parse_unsigned :: "nat \<Rightarrow> nat \<Rightarrow> string \<Rightarrow> nat option" where
  "parse_unsigned radix limit s =
     (let digits = (case s of c # r \<Rightarrow> if c = CHR ''+'' then r else s | [] \<Rightarrow> []) in
      if digits = [] then None else parse_digits radix limit 0 digits)"

text \<open>\<open>parse::<i32>()\<close>.\<close>

definition parse_i32 :: "string \<Rightarrow> int option" where
  "parse_i32 s =
     (case s of
        [] \<Rightarrow> None
      | c # r \<Rightarrow>
          if c = CHR ''-''
          then if r = [] then None else map_option (\<lambda>n. - int n) (parse_digits 10 0x80000001 0 r)
          else map_option int (parse_unsigned 10 0x80000000 s))"

lemma parse_digits_append:
  "parse_digits radix limit acc (s @ t) =
     (case parse_digits radix limit acc s of None \<Rightarrow> None | Some n \<Rightarrow> parse_digits radix limit n t)"
  by (induction s arbitrary: acc) (auto split: Option.bind_splits option.split)

text \<open>Printing, then parsing.\<close>

lemma digit_value_char: "d < radix \<Longrightarrow> radix \<le> 16 \<Longrightarrow> digit_value radix (digit_char d) = Some d"
  by (auto simp: digit_value_def digit_char_def Let_def)

lemma parse_show_base:
  assumes "2 \<le> b" "b \<le> 16"
  shows "n < limit \<Longrightarrow> parse_digits b limit 0 (show_base b n) = Some n"
proof (induction n rule: less_induct)
  case (less n)
  show ?case
  proof (cases "n < b")
    case True
    then show ?thesis
      using less.prems assms by (simp add: show_base.simps [of b n] digit_value_char)
  next
    case False
    then have "n div b < n" using assms by simp
    moreover have "n mod b < b" using assms by simp
    ultimately show ?thesis
      using less False assms
      by (subst show_base.simps) (simp add: parse_digits_append digit_value_char)
  qed
qed

end
