(* ===== verification/Binary.thy ===== *)
theory Binary
  imports Std_Text
begin

text \<open>\<open>relay/binary.rs\<close>: the dump of a packet in the trace messages.\<close>

definition MAX_STRING_PACKET_SIZE :: nat where
  "MAX_STRING_PACKET_SIZE = 20"

definition to_byte_array :: "u32 \<Rightarrow> byte list" where
  "to_byte_array value = bytes_of_u32 value"

text \<open>\<open>{:02X}\<close>.\<close>

definition upper_digit :: "nat \<Rightarrow> char" where
  "upper_digit d = (if d < 10 then char_of (48 + d) else char_of (55 + d))"

definition show_02X :: "byte \<Rightarrow> string" where
  "show_02X b = [upper_digit (unat b div 16), upper_digit (unat b mod 16)]"

fun packet_string_bytes :: "nat \<Rightarrow> byte list \<Rightarrow> string" where
  "packet_string_bytes i [] = []"
| "packet_string_bytes i (b # bs) =
     (if i \<noteq> 0 then (if i mod 4 = 0 then ''  '' else '' '') else []) @ show_02X b @
     packet_string_bytes (i + 1) bs"

definition build_packet_string :: "byte list \<Rightarrow> string" where
  "build_packet_string data =
     (let limit = min MAX_STRING_PACKET_SIZE (length data) in
      packet_string_bytes 0 (take limit data) @
      (if limit < length data then ''  ... +'' @ show_dec (length data - limit) @ '' bytes'' else []))"

lemma build_packet_string_example:
  "build_packet_string [0x45, 0, 0, 0x1C, 0xAB] = ''45 00 00 1C  AB''"
  by code_simp

text \<open>What is shown of the first bytes is enough to read them back.\<close>

definition hex_value :: "char \<Rightarrow> nat" where
  "hex_value c = (case digit_value 16 c of Some d \<Rightarrow> d | None \<Rightarrow> 0)"

fun read_dump :: "string \<Rightarrow> nat list" where
  "read_dump (c # d # s) =
     (if c = CHR '' '' then read_dump (d # s) else (16 * hex_value c + hex_value d) # read_dump s)"
| "read_dump s = []"

lemma upper_digit:
  assumes "d < 16"
  shows "hex_value (upper_digit d) = d" "upper_digit d \<noteq> CHR '' ''"
proof -
  have c: "of_char (upper_digit d) = (if d < 10 then 48 + d else 55 + d)"
    using assms by (simp add: upper_digit_def)
  then show "hex_value (upper_digit d) = d"
    using assms by (auto simp: hex_value_def digit_value_def Let_def)
  show "upper_digit d \<noteq> CHR '' ''"
  proof
    assume "upper_digit d = CHR '' ''"
    then have "of_char (upper_digit d) = (32 :: nat)" by simp
    then show False using c assms by (simp split: if_splits)
  qed
qed

lemma read_dump_byte: "read_dump (show_02X b @ s) = unat b # read_dump s"
proof -
  have "unat b div 16 < 16" using unat_byte_less [of b] by linarith
  then show ?thesis by (simp add: show_02X_def upper_digit)
qed

lemma read_dump_space:
  assumes "read_dump s \<noteq> [] \<or> s = []"
  shows "read_dump (CHR '' '' # s) = read_dump s"
  using assms by (cases s) auto

lemma read_packet_string: "read_dump (packet_string_bytes i bs) = map unat bs"
proof (induction bs arbitrary: i)
  case (Cons b bs)
  have "read_dump (show_02X b @ packet_string_bytes (i + 1) bs) = map unat (b # bs)"
    by (simp add: read_dump_byte Cons.IH)
  then show ?case using read_dump_byte [of b "packet_string_bytes (i + 1) bs"]
    by (auto simp: read_dump_space)
qed simp

end
