(* ===== verification/Transport_Header.thy ===== *)
theory Transport_Header
  imports Ip_Header
begin

text \<open>
  \<open>relay/udp_header.rs\<close>, \<open>relay/tcp_header.rs\<close> and \<open>relay/transport_header.rs\<close>. As for the IP
  headers, raw bytes and parsed data are kept in step by every setter (locale \<open>bound_field\<close>).
  The TCP checksum walks raw pointers in \<open>unsafe\<close> code; the model indexes instead, and a read
  out of the slice, undefined behaviour in the source, is \<open>None\<close>.
\<close>

subsection \<open>\<open>relay/udp_header.rs\<close>\<close>

definition UDP_HEADER_LENGTH :: byte where
  "UDP_HEADER_LENGTH = 8"

record udp_header_data =
  udp_source_port :: u16
  udp_destination_port :: u16

record udp_header =
  uh_raw :: "byte list"
  uh_data :: udp_header_data

definition udp_parse :: "byte list \<Rightarrow> udp_header_data option" where
  "udp_parse raw = do {
     src \<leftarrow> read_u16_at 0 raw;
     dst \<leftarrow> read_u16_at 2 raw;
     Some \<lparr>udp_source_port = src, udp_destination_port = dst\<rparr>
   }"

definition udp_bind :: "byte list \<Rightarrow> udp_header_data \<Rightarrow> udp_header" where
  "udp_bind raw data = \<lparr>uh_raw = raw, uh_data = data\<rparr>"

definition udp_set_source_port :: "u16 \<Rightarrow> udp_header \<Rightarrow> udp_header option" where
  "udp_set_source_port source_port h = do {
     raw' \<leftarrow> write_u16_at 0 source_port (uh_raw h);
     Some \<lparr>uh_raw = raw', uh_data = (uh_data h)\<lparr>udp_source_port := source_port\<rparr>\<rparr>
   }"

definition udp_set_destination_port :: "u16 \<Rightarrow> udp_header \<Rightarrow> udp_header option" where
  "udp_set_destination_port destination_port h = do {
     raw' \<leftarrow> write_u16_at 2 destination_port (uh_raw h);
     Some \<lparr>uh_raw = raw', uh_data = (uh_data h)\<lparr>udp_destination_port := destination_port\<rparr>\<rparr>
   }"

definition udp_swap_source_and_destination :: "udp_header \<Rightarrow> udp_header option" where
  "udp_swap_source_and_destination h = do {
     raw' \<leftarrow> for_each (\<lambda>i. swap_at i (i + 2)) [0..<2] (uh_raw h);
     Some \<lparr>uh_raw = raw',
           uh_data = (uh_data h)\<lparr>udp_source_port := udp_destination_port (uh_data h),
                                 udp_destination_port := udp_source_port (uh_data h)\<rparr>\<rparr>
   }"

definition udp_set_payload_length :: "u16 \<Rightarrow> udp_header \<Rightarrow> udp_header option" where
  "udp_set_payload_length payload_length h =
     (let total_length = ucast UDP_HEADER_LENGTH + payload_length in do {
        raw' \<leftarrow> write_u16_at 4 total_length (uh_raw h);
        Some (h\<lparr>uh_raw := raw'\<rparr>)
      })"

definition udp_set_checksum :: "u16 \<Rightarrow> udp_header \<Rightarrow> udp_header option" where
  "udp_set_checksum checksum h = do {
     raw' \<leftarrow> write_u16_at 6 checksum (uh_raw h);
     Some (h\<lparr>uh_raw := raw'\<rparr>)
   }"

definition udp_update_checksum ::
  "ip_header_data \<Rightarrow> byte list \<Rightarrow> udp_header \<Rightarrow> udp_header option" where
  "udp_update_checksum ip_header_data payload h = udp_set_checksum 0 h"

subsection \<open>\<open>relay/tcp_header.rs\<close>\<close>

record tcp_header_data =
  tcp_source_port :: u16
  tcp_destination_port :: u16
  tcp_sequence_number :: u32
  tcp_acknowledgement_number :: u32
  tcp_header_length :: byte
  tcp_flags :: u16
  tcp_window :: u16

record tcp_header =
  th_raw :: "byte list"
  th_data :: tcp_header_data

definition FLAG_FIN :: u16 where "FLAG_FIN = 1"
definition FLAG_SYN :: u16 where "FLAG_SYN = push_bit 1 1"
definition FLAG_RST :: u16 where "FLAG_RST = push_bit 2 1"
definition FLAG_PSH :: u16 where "FLAG_PSH = push_bit 3 1"
definition FLAG_ACK :: u16 where "FLAG_ACK = push_bit 4 1"

lemmas flag_defs = FLAG_FIN_def FLAG_SYN_def FLAG_RST_def FLAG_PSH_def FLAG_ACK_def

definition tcp_parse :: "byte list \<Rightarrow> tcp_header_data option" where
  "tcp_parse raw = do {
     data_offset_and_flags \<leftarrow> read_u16_at 12 raw;
     src \<leftarrow> read_u16_at 0 raw;
     dst \<leftarrow> read_u16_at 2 raw;
     seq \<leftarrow> read_u32_at 4 raw;
     ack \<leftarrow> read_u32_at 8 raw;
     win \<leftarrow> read_u16_at 14 raw;
     Some \<lparr>tcp_source_port = src,
           tcp_destination_port = dst,
           tcp_sequence_number = seq,
           tcp_acknowledgement_number = ack,
           tcp_header_length = ucast (drop_bit 10 (data_offset_and_flags AND 0xF000)),
           tcp_flags = data_offset_and_flags AND 0x1FF,
           tcp_window = win\<rparr>
   }"

definition tcp_bind :: "byte list \<Rightarrow> tcp_header_data \<Rightarrow> tcp_header" where
  "tcp_bind raw data = \<lparr>th_raw = raw, th_data = data\<rparr>"

definition is_fin :: "tcp_header_data \<Rightarrow> bool" where
  "is_fin d \<longleftrightarrow> tcp_flags d AND FLAG_FIN \<noteq> 0"

definition is_syn :: "tcp_header_data \<Rightarrow> bool" where
  "is_syn d \<longleftrightarrow> tcp_flags d AND FLAG_SYN \<noteq> 0"

definition is_rst :: "tcp_header_data \<Rightarrow> bool" where
  "is_rst d \<longleftrightarrow> tcp_flags d AND FLAG_RST \<noteq> 0"

definition is_psh :: "tcp_header_data \<Rightarrow> bool" where
  "is_psh d \<longleftrightarrow> tcp_flags d AND FLAG_PSH \<noteq> 0"

definition is_ack :: "tcp_header_data \<Rightarrow> bool" where
  "is_ack d \<longleftrightarrow> tcp_flags d AND FLAG_ACK \<noteq> 0"

definition tcp_set_source_port :: "u16 \<Rightarrow> tcp_header \<Rightarrow> tcp_header option" where
  "tcp_set_source_port source_port h = do {
     raw' \<leftarrow> write_u16_at 0 source_port (th_raw h);
     Some \<lparr>th_raw = raw', th_data = (th_data h)\<lparr>tcp_source_port := source_port\<rparr>\<rparr>
   }"

definition tcp_set_destination_port :: "u16 \<Rightarrow> tcp_header \<Rightarrow> tcp_header option" where
  "tcp_set_destination_port destination_port h = do {
     raw' \<leftarrow> write_u16_at 2 destination_port (th_raw h);
     Some \<lparr>th_raw = raw', th_data = (th_data h)\<lparr>tcp_destination_port := destination_port\<rparr>\<rparr>
   }"

definition tcp_swap_source_and_destination :: "tcp_header \<Rightarrow> tcp_header option" where
  "tcp_swap_source_and_destination h = do {
     raw' \<leftarrow> for_each (\<lambda>i. swap_at i (i + 2)) [0..<2] (th_raw h);
     Some \<lparr>th_raw = raw',
           th_data = (th_data h)\<lparr>tcp_source_port := tcp_destination_port (th_data h),
                                 tcp_destination_port := tcp_source_port (th_data h)\<rparr>\<rparr>
   }"

definition tcp_set_sequence_number :: "u32 \<Rightarrow> tcp_header \<Rightarrow> tcp_header option" where
  "tcp_set_sequence_number sequence_number h = do {
     raw' \<leftarrow> write_u32_at 4 sequence_number (th_raw h);
     Some \<lparr>th_raw = raw', th_data = (th_data h)\<lparr>tcp_sequence_number := sequence_number\<rparr>\<rparr>
   }"

definition tcp_set_acknowledgement_number :: "u32 \<Rightarrow> tcp_header \<Rightarrow> tcp_header option" where
  "tcp_set_acknowledgement_number acknowledgement_number h = do {
     raw' \<leftarrow> write_u32_at 8 acknowledgement_number (th_raw h);
     Some \<lparr>th_raw = raw',
           th_data = (th_data h)\<lparr>tcp_acknowledgement_number := acknowledgement_number\<rparr>\<rparr>
   }"

definition tcp_set_flags :: "u16 \<Rightarrow> tcp_header \<Rightarrow> tcp_header option" where
  "tcp_set_flags flags h = do {
     data_offset_and_flags \<leftarrow> read_u16_at 12 (th_raw h);
     raw' \<leftarrow> write_u16_at 12 (data_offset_and_flags AND 0xFE00 OR flags AND 0x1FF) (th_raw h);
     Some \<lparr>th_raw = raw', th_data = (th_data h)\<lparr>tcp_flags := flags\<rparr>\<rparr>
   }"

definition tcp_set_window :: "u16 \<Rightarrow> tcp_header \<Rightarrow> tcp_header option" where
  "tcp_set_window window h = do {
     raw' \<leftarrow> write_u16_at 14 window (th_raw h);
     Some \<lparr>th_raw = raw', th_data = (th_data h)\<lparr>tcp_window := window\<rparr>\<rparr>
   }"

definition tcp_set_data_offset :: "byte \<Rightarrow> tcp_header \<Rightarrow> tcp_header option" where
  "tcp_set_data_offset data_offset h = do {
     data_offset_and_flags \<leftarrow> read_u16_at 12 (th_raw h);
     raw' \<leftarrow> write_u16_at 12
       (data_offset_and_flags AND 0x0FFF OR push_bit 12 (ucast data_offset)) (th_raw h);
     Some \<lparr>th_raw = raw', th_data = (th_data h)\<lparr>tcp_header_length := push_bit 2 data_offset\<rparr>\<rparr>
   }"

definition tcp_shrink_options :: "tcp_header \<Rightarrow> tcp_header option" where
  "tcp_shrink_options = tcp_set_data_offset 5"

definition tcp_checksum :: "tcp_header \<Rightarrow> u16 option" where
  "tcp_checksum h = read_u16_at 16 (th_raw h)"

definition tcp_set_checksum :: "u16 \<Rightarrow> tcp_header \<Rightarrow> tcp_header option" where
  "tcp_set_checksum checksum h = do {
     raw' \<leftarrow> write_u16_at 16 checksum (th_raw h);
     Some (h\<lparr>th_raw := raw'\<rparr>)
   }"

text \<open>The pointer loop \<open>while p < end { hsum += *p; sum += *p.offset(1); p = p.offset(2) }\<close>, the
  pointers being indices; \<open>end\<close> is an integer, one before the start for an empty payload.\<close>

function sum_pairs :: "byte list \<Rightarrow> int \<Rightarrow> nat \<Rightarrow> u32 \<times> u32 \<Rightarrow> (u32 \<times> u32) option" where
  "sum_pairs bs e p (hsum, acc) =
     (if int p < e then do {
        b0 \<leftarrow> index p bs;
        b1 \<leftarrow> index (p + 1) bs;
        sum_pairs bs e (p + 2) (hsum + ucast b0, acc + ucast b1)
      } else Some (hsum, acc))"
  by pat_completeness auto
termination by (relation "measure (\<lambda>(bs, e, p, s). nat (e - int p))") auto

text \<open>The part the two versions share: from the pseudo-header's sum \<open>acc\<close> and the payload length
  on, the checksum field being already reset.\<close>

definition tcp_finish_checksum ::
  "u32 \<Rightarrow> u16 \<Rightarrow> byte list \<Rightarrow> tcp_header \<Rightarrow> tcp_header option" where
  "tcp_finish_checksum acc payload_length payload h = do {
     h' \<leftarrow> tcp_set_checksum 0 h;
     s1 \<leftarrow> sum_pairs (th_raw h') (int (unat (tcp_header_length (th_data h)))) 0 (0, acc);
     (hsum, acc2) \<leftarrow> sum_pairs payload (int (unat payload_length) - 1) 0 s1;
     hsum2 \<leftarrow> (if odd (unat payload_length)
       then do { b \<leftarrow> index (unat (payload_length - 1)) payload; Some (hsum + ucast b) }
       else Some hsum);
     tcp_set_checksum (ucast (NOT (fold_carry (acc2 + push_bit 8 hsum2)))) h'
   }"

definition tcp_update_checksum_v4 ::
  "ipv4_header_data \<Rightarrow> byte list \<Rightarrow> tcp_header \<Rightarrow> tcp_header option" where
  "tcp_update_checksum_v4 ipv4 payload h =
     (let transport_length = v4_total_length ipv4 - ucast (v4_header_length ipv4);
          payload_length = transport_length - ucast (tcp_header_length (th_data h));
          acc = 6 + drop_bit 16 (v4_source ipv4) + (v4_source ipv4 AND 0xFFFF)
            + drop_bit 16 (v4_destination ipv4) + (v4_destination ipv4 AND 0xFFFF)
            + ucast transport_length
      in tcp_finish_checksum acc payload_length payload h)"

definition tcp_update_checksum_v6 ::
  "ipv6_header_data \<Rightarrow> byte list \<Rightarrow> tcp_header \<Rightarrow> tcp_header option" where
  "tcp_update_checksum_v6 ipv6 payload h =
     (let transport_length = v6_payload_length ipv6;
          payload_length = transport_length - ucast (tcp_header_length (th_data h))
      in do {
        acc1 \<leftarrow> for_each (add_word_at (v6_source ipv6)) [0..<8] 0;
        acc2 \<leftarrow> for_each (add_word_at (v6_destination ipv6)) [0..<8] acc1;
        tcp_finish_checksum (acc2 + ucast transport_length + 6) payload_length payload h
      })"

fun tcp_update_checksum :: "ip_header_data \<Rightarrow> byte list \<Rightarrow> tcp_header \<Rightarrow> tcp_header option" where
  "tcp_update_checksum (HdV4 v4) payload h = tcp_update_checksum_v4 v4 payload h"
| "tcp_update_checksum (HdV6 v6) payload h = tcp_update_checksum_v6 v6 payload h"

subsection \<open>\<open>relay/transport_header.rs\<close>\<close>

datatype transport_header_data = TdTcp tcp_header_data | TdUdp udp_header_data

datatype transport_header = TTcp tcp_header | TUdp udp_header

text \<open>The outer option is the panic, the inner one the method's result.\<close>

definition transport_parse :: "protocol \<Rightarrow> byte list \<Rightarrow> transport_header_data option option" where
  "transport_parse protocol raw =
     (case protocol of
        Udp \<Rightarrow> map_option (\<lambda>d. Some (TdUdp d)) (udp_parse raw)
      | Tcp \<Rightarrow> map_option (\<lambda>d. Some (TdTcp d)) (tcp_parse raw)
      | _ \<Rightarrow> Some None)"

fun td_bind :: "byte list \<Rightarrow> transport_header_data \<Rightarrow> transport_header" where
  "td_bind raw (TdTcp d) = TTcp (tcp_bind raw d)"
| "td_bind raw (TdUdp d) = TUdp (udp_bind raw d)"

fun td_source_port :: "transport_header_data \<Rightarrow> u16" where
  "td_source_port (TdTcp d) = tcp_source_port d"
| "td_source_port (TdUdp d) = udp_source_port d"

fun td_destination_port :: "transport_header_data \<Rightarrow> u16" where
  "td_destination_port (TdTcp d) = tcp_destination_port d"
| "td_destination_port (TdUdp d) = udp_destination_port d"

fun td_header_length :: "transport_header_data \<Rightarrow> byte" where
  "td_header_length (TdTcp d) = tcp_header_length d"
| "td_header_length (TdUdp d) = UDP_HEADER_LENGTH"

fun t_raw :: "transport_header \<Rightarrow> byte list" where
  "t_raw (TTcp h) = th_raw h"
| "t_raw (TUdp h) = uh_raw h"

fun t_data_clone :: "transport_header \<Rightarrow> transport_header_data" where
  "t_data_clone (TTcp h) = TdTcp (th_data h)"
| "t_data_clone (TUdp h) = TdUdp (uh_data h)"

definition t_source_port :: "transport_header \<Rightarrow> u16" where
  "t_source_port h = td_source_port (t_data_clone h)"

definition t_destination_port :: "transport_header \<Rightarrow> u16" where
  "t_destination_port h = td_destination_port (t_data_clone h)"

definition t_header_length :: "transport_header \<Rightarrow> byte" where
  "t_header_length h = td_header_length (t_data_clone h)"

fun t_swap_source_and_destination :: "transport_header \<Rightarrow> transport_header option" where
  "t_swap_source_and_destination (TTcp h) = map_option TTcp (tcp_swap_source_and_destination h)"
| "t_swap_source_and_destination (TUdp h) = map_option TUdp (udp_swap_source_and_destination h)"

fun t_set_payload_length :: "u16 \<Rightarrow> transport_header \<Rightarrow> transport_header option" where
  "t_set_payload_length payload_length (TUdp h) =
     map_option TUdp (udp_set_payload_length payload_length h)"
| "t_set_payload_length payload_length (TTcp h) = Some (TTcp h)"

fun t_update_checksum ::
  "ip_header_data \<Rightarrow> byte list \<Rightarrow> transport_header \<Rightarrow> transport_header option" where
  "t_update_checksum ip payload (TTcp h) = map_option TTcp (tcp_update_checksum ip payload h)"
| "t_update_checksum ip payload (TUdp h) = map_option TUdp (udp_update_checksum ip payload h)"

subsection \<open>Setters keep bytes and data in step\<close>

lemma bind_simps [simp]:
  "th_raw (tcp_bind raw td) = raw" "th_data (tcp_bind raw td) = td"
  "uh_raw (udp_bind raw ud) = raw" "uh_data (udp_bind raw ud) = ud"
  "h4_raw (ipv4_bind raw d4) = raw" "h4_data (ipv4_bind raw d4) = d4"
  "h6_raw (ipv6_bind raw d6) = raw" "h6_data (ipv6_bind raw d6) = d6"
  by (simp_all add: tcp_bind_def udp_bind_def ipv4_bind_def ipv6_bind_def)

lemma udp_parse_eq:
  assumes "4 \<le> length raw"
  shows "udp_parse raw = Some
    \<lparr>udp_source_port = u16_of_bytes (raw ! 0) (raw ! 1),
     udp_destination_port = u16_of_bytes (raw ! 2) (raw ! 3)\<rparr>"
  using assms by (simp add: udp_parse_def slice_simps)

lemma udp_parse_length: "udp_parse raw = Some d \<Longrightarrow> 4 \<le> length raw"
  by (auto simp: udp_parse_def split: Option.bind_splits dest!: read_u16_at_length)

lemma tcp_parse_eq:
  assumes "16 \<le> length raw"
  shows "tcp_parse raw = Some
    \<lparr>tcp_source_port = u16_of_bytes (raw ! 0) (raw ! 1),
     tcp_destination_port = u16_of_bytes (raw ! 2) (raw ! 3),
     tcp_sequence_number = u32_of_bytes (raw ! 4) (raw ! 5) (raw ! 6) (raw ! 7),
     tcp_acknowledgement_number = u32_of_bytes (raw ! 8) (raw ! 9) (raw ! 10) (raw ! 11),
     tcp_header_length = ucast (drop_bit 10 (u16_of_bytes (raw ! 12) (raw ! 13) AND 0xF000)),
     tcp_flags = u16_of_bytes (raw ! 12) (raw ! 13) AND 0x1FF,
     tcp_window = u16_of_bytes (raw ! 14) (raw ! 15)\<rparr>"
  using assms by (simp add: tcp_parse_def slice_simps)

lemma tcp_parse_length: "tcp_parse raw = Some d \<Longrightarrow> 16 \<le> length raw"
  by (auto simp: tcp_parse_def split: Option.bind_splits dest!: read_u16_at_length)

definition tcp_bound :: "tcp_header \<Rightarrow> bool" where
  "tcp_bound h \<longleftrightarrow> tcp_parse (th_raw h) = Some (th_data h)"

definition udp_bound :: "udp_header \<Rightarrow> bool" where
  "udp_bound h \<longleftrightarrow> udp_parse (uh_raw h) = Some (uh_data h)"

interpretation udp_src: bound_field udp_parse uh_raw uh_data "\<lambda>_. True"
  udp_set_source_port "\<lambda>v d. d\<lparr>udp_source_port := v\<rparr>" udp_source_port
proof (unfold_locales, goal_cases)
  case (1 h v)
  have "uh_raw h \<noteq> []" using udp_parse_length [OF 1(1)] by auto
  with 1 udp_parse_length [OF 1(1)] show ?case
    by (cases h) (auto simp: udp_set_source_port_def udp_parse_eq slice_simps)
qed simp

interpretation udp_dst: bound_field udp_parse uh_raw uh_data "\<lambda>_. True"
  udp_set_destination_port "\<lambda>v d. d\<lparr>udp_destination_port := v\<rparr>" udp_destination_port
proof (unfold_locales, goal_cases)
  case (1 h v)
  with udp_parse_length [OF 1(1)] show ?case
    by (cases h) (auto simp: udp_set_destination_port_def udp_parse_eq slice_simps)
qed simp

interpretation tcp_src: bound_field tcp_parse th_raw th_data "\<lambda>_. True"
  tcp_set_source_port "\<lambda>v d. d\<lparr>tcp_source_port := v\<rparr>" tcp_source_port
proof (unfold_locales, goal_cases)
  case (1 h v)
  have "th_raw h \<noteq> []" using tcp_parse_length [OF 1(1)] by auto
  with 1 tcp_parse_length [OF 1(1)] show ?case
    by (cases h) (auto simp: tcp_set_source_port_def tcp_parse_eq slice_simps)
qed simp

interpretation tcp_dst: bound_field tcp_parse th_raw th_data "\<lambda>_. True"
  tcp_set_destination_port "\<lambda>v d. d\<lparr>tcp_destination_port := v\<rparr>" tcp_destination_port
proof (unfold_locales, goal_cases)
  case (1 h v)
  with tcp_parse_length [OF 1(1)] show ?case
    by (cases h) (auto simp: tcp_set_destination_port_def tcp_parse_eq slice_simps)
qed simp

interpretation tcp_seq: bound_field tcp_parse th_raw th_data "\<lambda>_. True"
  tcp_set_sequence_number "\<lambda>v d. d\<lparr>tcp_sequence_number := v\<rparr>" tcp_sequence_number
proof (unfold_locales, goal_cases)
  case (1 h v)
  with tcp_parse_length [OF 1(1)] show ?case
    by (cases h) (auto simp: tcp_set_sequence_number_def tcp_parse_eq slice_simps)
qed simp

interpretation tcp_ack: bound_field tcp_parse th_raw th_data "\<lambda>_. True"
  tcp_set_acknowledgement_number "\<lambda>v d. d\<lparr>tcp_acknowledgement_number := v\<rparr>"
  tcp_acknowledgement_number
proof (unfold_locales, goal_cases)
  case (1 h v)
  with tcp_parse_length [OF 1(1)] show ?case
    by (cases h) (auto simp: tcp_set_acknowledgement_number_def tcp_parse_eq slice_simps)
qed simp

interpretation tcp_win: bound_field tcp_parse th_raw th_data "\<lambda>_. True"
  tcp_set_window "\<lambda>v d. d\<lparr>tcp_window := v\<rparr>" tcp_window
proof (unfold_locales, goal_cases)
  case (1 h v)
  with tcp_parse_length [OF 1(1)] show ?case
    by (cases h) (auto simp: tcp_set_window_def tcp_parse_eq slice_simps)
qed simp

text \<open>Data offset, reserved bits and flags share a word: each setter leaves the other part.\<close>

lemma word_masks:
  "(0x1FF :: u16) = mask 9" "(0xFE00 :: u16) = NOT (mask 9)"
  "(0x0FFF :: u16) = mask 12" "(0xF000 :: u16) = NOT (mask 12)"
  by (simp_all add: mask_numeral)

lemma flags_word:
  "((x AND 0xFE00 OR y AND 0x1FF) AND 0x1FF :: u16) = y AND 0x1FF"
  "((x AND 0xFE00 OR y AND 0x1FF) AND 0xF000 :: u16) = x AND 0xF000"
  unfolding word_masks by (rule bit_word_eqI, auto simp: bit_simps)+

lemma data_offset_word:
  "((x AND 0x0FFF OR push_bit 12 v) AND 0x1FF :: u16) = x AND 0x1FF"
  "((x AND 0x0FFF OR push_bit 12 v) AND 0xF000 :: u16) = push_bit 12 v"
  unfolding word_masks by (rule bit_word_eqI, auto simp: bit_simps)+

lemma write_word12:
  assumes "tcp_parse raw = Some d"
  shows "\<exists>raw'. write_u16_at 12 w raw = Some raw' \<and> length raw' = length raw \<and>
    tcp_parse raw' = Some (d\<lparr>tcp_header_length := ucast (drop_bit 10 (w AND 0xF000)),
      tcp_flags := w AND 0x1FF\<rparr>)"
  using assms tcp_parse_length [OF assms] by (auto simp: tcp_parse_eq slice_simps)

interpretation tcp_fl: bound_field tcp_parse th_raw th_data "\<lambda>v. v AND 0x1FF = v"
  tcp_set_flags "\<lambda>v d. d\<lparr>tcp_flags := v\<rparr>" tcp_flags
proof (unfold_locales, goal_cases)
  case (1 h v)
  define x where "x = u16_of_bytes (th_raw h ! 12) (th_raw h ! 13)"
  have len: "16 \<le> length (th_raw h)" by (rule tcp_parse_length [OF 1(1)])
  have d: "tcp_header_length (th_data h) = ucast (drop_bit 10 (x AND 0xF000))"
    using 1(1) tcp_parse_eq [OF len] unfolding x_def
    by (metis option.inject tcp_header_data.select_convs(5))
  obtain raw' where "write_u16_at 12 (x AND 0xFE00 OR v AND 0x1FF) (th_raw h) = Some raw'"
    "length raw' = length (th_raw h)"
    "tcp_parse raw' = Some ((th_data h)\<lparr>
       tcp_header_length := ucast (drop_bit 10 ((x AND 0xFE00 OR v AND 0x1FF) AND 0xF000)),
       tcp_flags := (x AND 0xFE00 OR v AND 0x1FF) AND 0x1FF\<rparr>)"
    using write_word12 [OF 1(1)] by blast
  moreover have "read_u16_at 12 (th_raw h) = Some x" using len by (simp add: slice_simps x_def)
  ultimately show ?case
    unfolding flags_word unfolding d [symmetric] 1(2) tcp_set_flags_def by simp
qed simp

lemma take_bit_4_small: "unat v < 16 \<Longrightarrow> take_bit 4 v = (v :: byte)"
  by (simp add: word_unat_eq_iff unsigned_take_bit_eq take_bit_nat_eq_self)

interpretation tcp_off: bound_field tcp_parse th_raw th_data "\<lambda>v. unat v < 16"
  tcp_set_data_offset "\<lambda>v d. d\<lparr>tcp_header_length := push_bit 2 v\<rparr>"
  "\<lambda>d. drop_bit 2 (tcp_header_length d)"
proof (unfold_locales, goal_cases)
  case (1 h v)
  define x where "x = u16_of_bytes (th_raw h ! 12) (th_raw h ! 13)"
  have len: "16 \<le> length (th_raw h)" by (rule tcp_parse_length [OF 1(1)])
  have d: "tcp_flags (th_data h) = x AND 0x1FF"
    using 1(1) tcp_parse_eq [OF len] unfolding x_def
    by (metis option.inject tcp_header_data.select_convs(6))
  let ?w = "x AND 0x0FFF OR push_bit 12 (ucast v)"
  obtain raw' where "write_u16_at 12 ?w (th_raw h) = Some raw'"
    "length raw' = length (th_raw h)"
    "tcp_parse raw' = Some ((th_data h)\<lparr>
       tcp_header_length := ucast (drop_bit 10 (?w AND 0xF000)), tcp_flags := ?w AND 0x1FF\<rparr>)"
    using write_word12 [OF 1(1)] by blast
  moreover have "read_u16_at 12 (th_raw h) = Some x" using len by (simp add: slice_simps x_def)
  moreover have "ucast (drop_bit 10 (push_bit 12 (ucast (take_bit 4 v) :: u16))) =
      push_bit 2 (take_bit 4 v)"
    by (rule bit_word_eqI) (auto simp: bit_simps)
  then have "ucast (drop_bit 10 (push_bit 12 (ucast v :: u16))) = push_bit 2 v"
    by (simp only: take_bit_4_small [OF 1(2)])
  ultimately show ?case
    unfolding data_offset_word d [symmetric] tcp_set_data_offset_def by simp
next
  case (2 v d)
  then have "take_bit 4 v = v" by (rule take_bit_4_small)
  moreover have "drop_bit 2 (push_bit 2 (take_bit 4 v)) = take_bit 4 v"
    by (rule bit_word_eqI) (auto simp: bit_simps)
  ultimately show ?case by simp
qed

lemma swap_ports:
  assumes "4 \<le> length raw"
  shows "for_each (\<lambda>i. swap_at i (i + 2)) [0..<2] raw =
    Some (take 2 (drop 2 raw) @ take 2 raw @ drop 4 raw)"
  using swap_blocks [of 0 2 raw] assms unfolding add_0 by (simp del: upt.simps)

lemma udp_swap_ok:
  assumes "udp_bound h"
  shows "\<exists>h'. udp_swap_source_and_destination h = Some h' \<and> udp_bound h' \<and>
    uh_data h' = (uh_data h)\<lparr>udp_source_port := udp_destination_port (uh_data h),
                             udp_destination_port := udp_source_port (uh_data h)\<rparr> \<and>
    length (uh_raw h') = length (uh_raw h)"
proof -
  have "4 \<le> length (uh_raw h)" using assms by (simp add: udp_bound_def udp_parse_length)
  then show ?thesis
    using assms swap_ports [of "uh_raw h"]
    by (cases h) (auto simp: udp_swap_source_and_destination_def udp_bound_def udp_parse_eq
      nth_append)
qed

lemma tcp_swap_ok:
  assumes "tcp_bound h"
  shows "\<exists>h'. tcp_swap_source_and_destination h = Some h' \<and> tcp_bound h' \<and>
    th_data h' = (th_data h)\<lparr>tcp_source_port := tcp_destination_port (th_data h),
                             tcp_destination_port := tcp_source_port (th_data h)\<rparr> \<and>
    length (th_raw h') = length (th_raw h)"
proof -
  have "16 \<le> length (th_raw h)" using assms by (simp add: tcp_bound_def tcp_parse_length)
  then show ?thesis
    using assms swap_ports [of "th_raw h"]
    by (cases h) (auto simp: tcp_swap_source_and_destination_def tcp_bound_def tcp_parse_eq
      nth_append)
qed

subsection \<open>The TCP checksum\<close>

declare sum_pairs.simps [simp del]

text \<open>The two running sums always stand for one number, \<open>acc + 256 * hsum\<close>.\<close>

lemma sum_pairs_ok:
  assumes "p + 2 * k \<le> length bs" "int p + 2 * int k - 1 \<le> e" "e \<le> int p + 2 * int k"
  shows "\<exists>hsum' acc'. sum_pairs bs e p (hsum, acc) = Some (hsum', acc') \<and>
    acc' + push_bit 8 hsum' = acc + push_bit 8 hsum + of_nat (words_sum (take (2 * k) (drop p bs)))"
  using assms
proof (induction k arbitrary: p hsum acc)
  case 0
  then show ?case by (simp add: sum_pairs.simps)
next
  case (Suc k)
  have lt: "int p < e" and len: "p + 1 < length bs" using Suc.prems by simp_all
  let ?h = "hsum + ucast (bs ! p)" and ?a = "acc + ucast (bs ! (p + 1))"
  have step: "sum_pairs bs e p (hsum, acc) = sum_pairs bs e (p + 2) (?h, ?a)"
    using lt len by (simp add: sum_pairs.simps [of bs e p] index_Some)
  obtain h' a' where ih: "sum_pairs bs e (p + 2) (?h, ?a) = Some (h', a')"
    "a' + push_bit 8 h' =
      ?a + push_bit 8 ?h + of_nat (words_sum (take (2 * k) (drop (p + 2) bs)))"
    using Suc.IH [of "p + 2" ?h ?a] Suc.prems by auto
  have "drop p bs = bs ! p # bs ! (p + 1) # drop (p + 2) bs"
    using len by (simp add: Cons_nth_drop_Suc)
  then have "take (2 * Suc k) (drop p bs) = bs ! p # bs ! (p + 1) # take (2 * k) (drop (p + 2) bs)"
    by simp
  then have "of_nat (words_sum (take (2 * Suc k) (drop p bs))) =
      ucast (bs ! (p + 1)) + push_bit 8 (ucast (bs ! p)) +
      (of_nat (words_sum (take (2 * k) (drop (p + 2) bs))) :: u32)"
    by (simp add: unat_u16_of_bytes push_bit_eq_mult)
  then show ?case using step ih by (simp add: push_bit_eq_mult algebra_simps)
qed

text \<open>An odd payload's last byte counts as a high-order byte.\<close>

lemma words_sum_odd:
  assumes "odd (length bs)"
  shows "words_sum bs = words_sum (take (length bs - 1) bs) + 256 * unat (bs ! (length bs - 1))"
proof -
  let ?n = "length bs - 1"
  have "bs \<noteq> []" using assms by auto
  then have eq: "bs = take ?n bs @ [bs ! ?n]"
    by (metis append_butlast_last_id butlast_conv_take last_conv_nth)
  have "words_sum (take ?n bs @ [bs ! ?n]) = words_sum (take ?n bs) + words_sum [bs ! ?n]"
    using assms by (intro words_sum_append) simp
  then show ?thesis using eq by simp
qed

lemma sum_payload_ok:
  assumes n: "unat n = length payload"
  shows "\<exists>hsum2 acc2. (do {
      (hsum, acc2) \<leftarrow> sum_pairs payload (int (unat (n :: u16)) - 1) 0 (hsum1, acc1);
      hsum2 \<leftarrow> (if odd (unat n)
        then do { b \<leftarrow> index (unat (n - 1)) payload; Some (hsum + ucast b) }
        else Some hsum);
      Some (hsum2, acc2)}) = Some (hsum2, acc2) \<and>
    acc2 + push_bit 8 hsum2 = acc1 + push_bit 8 hsum1 + of_nat (words_sum payload)"
proof -
  define k where "k = length payload div 2"
  have k: "length payload = 2 * k \<or> length payload = Suc (2 * k)" unfolding k_def by linarith
  obtain h a where ha: "sum_pairs payload (int (unat n) - 1) 0 (hsum1, acc1) = Some (h, a)"
    "a + push_bit 8 h = acc1 + push_bit 8 hsum1 + of_nat (words_sum (take (2 * k) payload))"
    using sum_pairs_ok [of 0 k payload "int (unat n) - 1" hsum1 acc1] n k by auto
  show ?thesis
  proof (cases "odd (length payload)")
    case True
    then have "2 * k = length payload - 1" using k by auto
    moreover have "payload \<noteq> []" "n \<noteq> 0" using True n by (auto simp: unat_eq_0)
    then have "unat (n - 1) = length payload - 1" using n by (simp add: unat_minus_one)
    ultimately show ?thesis
      using ha True n \<open>payload \<noteq> []\<close> words_sum_odd [OF True]
      by (simp add: index_Some push_bit_eq_mult algebra_simps)
  next
    case False
    then have "length payload = 2 * k" using k by auto
    then show ?thesis using ha n by simp
  qed
qed

lemma tcp_finish_checksum_ok:
  assumes b: "tcp_bound h"
    and hl: "length (th_raw h) = unat (tcp_header_length (th_data h))" "18 \<le> length (th_raw h)"
      "even (length (th_raw h))"
    and n: "unat n = length payload"
    and pseudo: "acc = of_nat (words_sum pseudo)" "even (length pseudo)" "length pseudo \<le> 40"
  shows "\<exists>h'. tcp_finish_checksum acc n payload h = Some h' \<and> tcp_bound h' \<and>
    th_data h' = th_data h \<and> length (th_raw h') = length (th_raw h) \<and>
    tcp_checksum h' =
      Some (rfc1071_checksum (pseudo @ (th_raw h)[16 := 0, 17 := 0] @ payload)) \<and>
    oc_norm (words_sum (pseudo @ th_raw h' @ payload)) = 65535"
proof -
  let ?raw = "th_raw h"
  obtain k where k: "length ?raw = 2 * k" using hl(3) by (rule evenE)
  let ?zs = "?raw[16 := 0, 17 := 0]"
  let ?all = "pseudo @ ?zs @ payload"
  let ?c = "rfc1071_checksum ?all"
  let ?raw' = "?raw[16 := ucast (drop_bit 8 ?c), 17 := ucast ?c]"
  let ?h0 = "h\<lparr>th_raw := ?zs\<rparr>" and ?h' = "h\<lparr>th_raw := ?raw'\<rparr>"
  have z: "tcp_set_checksum 0 h = Some ?h0" using hl by (simp add: tcp_set_checksum_def slice_simps)
  obtain h1 a1 where 1: "sum_pairs ?zs (int (length ?raw)) 0 (0, acc) = Some (h1, a1)"
    "a1 + push_bit 8 h1 = acc + of_nat (words_sum ?zs)"
    using sum_pairs_ok [of 0 k ?zs "int (length ?raw)" 0 acc] k by auto
  obtain h2 a2 where 2: "(do {
      (hsum, acc2) \<leftarrow> sum_pairs payload (int (unat n) - 1) 0 (h1, a1);
      hsum2 \<leftarrow> (if odd (unat n)
        then do { b \<leftarrow> index (unat (n - 1)) payload; Some (hsum + ucast b) } else Some hsum);
      Some (hsum2, acc2)}) = Some (h2, a2)"
    "a2 + push_bit 8 h2 = a1 + push_bit 8 h1 + of_nat (words_sum payload)"
    using sum_payload_ok [OF n, of h1 a1] by blast
  have total: "a2 + push_bit 8 h2 = of_nat (words_sum ?all)"
    using 1 2 pseudo hl(3) by (simp add: words_sum_append)
  have len: "length ?raw < 256" "length payload < 65536" using hl(1) n [symmetric] by simp_all
  have "length ?all < 65536 + 300"
    using pseudo(3) len by simp
  then have "65535 * ((length ?all + 1) div 2) \<le> 65535 * 40000" by simp
  then have "words_sum ?all < 4294967296" using words_sum_le [of ?all] by linarith
  then have "unat (a2 + push_bit 8 h2) = words_sum ?all" using total by simp
  then have fin: "ucast (NOT (fold_carry (a2 + push_bit 8 h2))) = ?c" by (rule checksum_reference)
  have s: "tcp_set_checksum ?c ?h0 = Some ?h'"
    using hl by (simp add: tcp_set_checksum_def slice_simps list_update_twice)
  have run: "tcp_finish_checksum acc n payload h = Some ?h'"
    using z 1(1) 2(1) fin s hl(1)
    by (auto simp: tcp_finish_checksum_def split: Option.bind_splits if_splits prod.splits)
  have b': "tcp_bound ?h'" using b hl(2) by (auto simp: tcp_bound_def tcp_parse_eq)
  have "(pseudo @ ?raw' @ payload)[length pseudo + 16 := 0, Suc (length pseudo + 16) := 0] = ?all"
    using hl(2) by (simp add: list_update_append list_update_twice)
  then have "oc_norm (words_sum (pseudo @ ?raw' @ payload)) = 65535"
    using hl(2) pseudo(2)
    by (intro checksum_field_verifies [of "length pseudo + 16"]) (simp_all add: nth_append)
  then show ?thesis using run b' hl(2) by (simp add: tcp_checksum_def slice_simps)
qed

text \<open>The pseudo-headers of RFC 793 and RFC 2460.\<close>

definition pseudo_header_v4 :: "u32 \<Rightarrow> u32 \<Rightarrow> u16 \<Rightarrow> byte list" where
  "pseudo_header_v4 src dst transport_length =
     bytes_of_u32 src @ bytes_of_u32 dst @ [0, 6] @ bytes_of_u16 transport_length"

definition pseudo_header_v6 :: "byte list \<Rightarrow> byte list \<Rightarrow> u16 \<Rightarrow> byte list" where
  "pseudo_header_v6 src dst transport_length =
     src @ dst @ bytes_of_u32 (ucast transport_length) @ [0, 0, 0, 6]"

lemma words_sum_u32: "of_nat (words_sum (bytes_of_u32 w)) = drop_bit 16 w + (w AND 0xFFFF)"
proof -
  have 1: "ucast (u16_of_bytes (ucast (drop_bit 24 w)) (ucast (drop_bit 16 w))) = drop_bit 16 w"
    by (rule bit_word_eqI) (auto simp: u16_of_bytes_def bit_simps dest: bit_imp_le_length)
  have "ucast (u16_of_bytes (ucast (drop_bit 8 w)) (ucast w)) = w AND mask 16"
    by (rule bit_word_eqI) (auto simp: u16_of_bytes_def bit_simps dest: bit_imp_le_length)
  then show ?thesis using 1 by (simp add: bytes_of_u32_def mask_numeral)
qed

lemma words_sum_u16 [simp]: "words_sum (bytes_of_u16 w) = unat w"
  by (simp add: bytes_of_u16_def)

lemma words_sum_zero_u32: "of_nat (words_sum (bytes_of_u32 (ucast (w :: u16)))) = (ucast w :: u32)"
proof -
  have "drop_bit 16 (ucast w :: u32) = 0" "(ucast w :: u32) AND mask 16 = ucast w"
    by (rule bit_word_eqI, auto simp: bit_simps dest: bit_imp_le_length)+
  then show ?thesis by (simp add: words_sum_u32 mask_numeral)
qed

text \<open>Both versions store the checksum of pseudo-header, TCP header and payload, provided the
  lengths in the headers are the real ones.\<close>

lemma tcp_update_checksum_v4_ok:
  fixes ip :: ipv4_header_data
  assumes "tcp_bound h"
    and "length (th_raw h) = unat (tcp_header_length (th_data h))" "18 \<le> length (th_raw h)"
      "even (length (th_raw h))"
    and total: "unat (v4_total_length ip) =
      unat (v4_header_length ip) + length (th_raw h) + length payload"
  defines "pseudo \<equiv> pseudo_header_v4 (v4_source ip) (v4_destination ip)
      (of_nat (length (th_raw h) + length payload))"
  shows "\<exists>h'. tcp_update_checksum (HdV4 ip) payload h = Some h' \<and> tcp_bound h' \<and>
    th_data h' = th_data h \<and> length (th_raw h') = length (th_raw h) \<and>
    tcp_checksum h' =
      Some (rfc1071_checksum (pseudo @ (th_raw h)[16 := 0, 17 := 0] @ payload)) \<and>
    oc_norm (words_sum (pseudo @ th_raw h' @ payload)) = 65535"
proof -
  let ?tl = "v4_total_length ip - ucast (v4_header_length ip)"
  let ?n = "?tl - ucast (tcp_header_length (th_data h))"
  have tl: "unat ?tl = length (th_raw h) + length payload"
    using total by (subst unat_sub) (simp_all add: word_le_nat_alt)
  then have n: "unat ?n = length payload"
    using assms(2) by (subst unat_sub) (simp_all add: word_le_nat_alt)
  have "?tl = of_nat (length (th_raw h) + length payload)" by (simp add: tl [symmetric])
  then have pseudo: "pseudo = pseudo_header_v4 (v4_source ip) (v4_destination ip) ?tl"
    by (simp add: pseudo_def)
  have acc: "6 + drop_bit 16 (v4_source ip) + (v4_source ip AND 0xFFFF)
      + drop_bit 16 (v4_destination ip) + (v4_destination ip AND 0xFFFF) + ucast ?tl =
      of_nat (words_sum pseudo)"
    by (simp only: pseudo pseudo_header_v4_def words_sum_append length_bytes_of_u32 even_numeral
      of_nat_add words_sum_u32) (simp add: words_sum_append u16_of_bytes_def)
  show ?thesis
    unfolding tcp_update_checksum.simps tcp_update_checksum_v4_def Let_def
    by (rule tcp_finish_checksum_ok [OF assms(1-4) n acc]) (simp_all add: pseudo pseudo_header_v4_def)
qed

lemma tcp_update_checksum_v6_ok:
  fixes ip :: ipv6_header_data
  assumes "tcp_bound h"
    and "length (th_raw h) = unat (tcp_header_length (th_data h))" "18 \<le> length (th_raw h)"
      "even (length (th_raw h))"
    and addrs: "length (v6_source ip) = 16" "length (v6_destination ip) = 16"
    and total: "unat (v6_payload_length ip) = length (th_raw h) + length payload"
  defines "pseudo \<equiv> pseudo_header_v6 (v6_source ip) (v6_destination ip) (v6_payload_length ip)"
  shows "\<exists>h'. tcp_update_checksum (HdV6 ip) payload h = Some h' \<and> tcp_bound h' \<and>
    th_data h' = th_data h \<and> length (th_raw h') = length (th_raw h) \<and>
    tcp_checksum h' =
      Some (rfc1071_checksum (pseudo @ (th_raw h)[16 := 0, 17 := 0] @ payload)) \<and>
    oc_norm (words_sum (pseudo @ th_raw h' @ payload)) = 65535"
proof -
  let ?tl = "v6_payload_length ip"
  let ?n = "?tl - ucast (tcp_header_length (th_data h))"
  let ?acc = "of_nat (words_sum (v6_source ip)) + of_nat (words_sum (v6_destination ip)) :: u32"
  have n: "unat ?n = length payload"
    using assms(2) total by (subst unat_sub) (simp_all add: word_le_nat_alt)
  have sums: "for_each (add_word_at (v6_source ip)) [0..<8] 0 =
      Some (of_nat (words_sum (v6_source ip)))"
    "for_each (add_word_at (v6_destination ip)) [0..<8] (of_nat (words_sum (v6_source ip))) =
      Some ?acc"
    using addrs by (simp_all add: sum_words_range del: upt_rec_numeral)
  have acc: "?acc + ucast ?tl + 6 = of_nat (words_sum pseudo)"
    using addrs words_sum_zero_u32 [of ?tl]
    by (simp add: pseudo_def pseudo_header_v6_def words_sum_append u16_of_bytes_def)
  show ?thesis
    unfolding tcp_update_checksum.simps tcp_update_checksum_v6_def Let_def sums bind.bind_lunit
    by (rule tcp_finish_checksum_ok [OF assms(1-4) n acc])
      (use addrs in \<open>simp_all add: pseudo_def pseudo_header_v6_def\<close>)
qed

end
