(* ===== verification/Ip_Packet.thy ===== *)
theory Ip_Packet
  imports Transport_Header
begin

text \<open>
  \<open>relay/ipv4_packet.rs\<close> and \<open>relay/ip_packet.rs\<close>: a packet is its raw bytes with the parsed IP
  header and, for TCP and UDP, the parsed transport header. The source's packet borrows its bytes
  from a buffer; here it owns them, and the buffer that lent them is updated where the source
  writes through the borrow (\<open>Packetizer\<close>).
\<close>

definition MAX_PACKET_LENGTH :: nat where
  "MAX_PACKET_LENGTH = 2 ^ 16"

lemma unat_UDP_HEADER_LENGTH [simp]: "unat UDP_HEADER_LENGTH = 8"
  by (simp add: UDP_HEADER_LENGTH_def)

lemma unat_IPV6_HEADER_LENGTH [simp]: "unat IPV6_HEADER_LENGTH = 40"
  by (simp add: IPV6_HEADER_LENGTH_def)

text \<open>\<open>raw.split_at(i)\<close>.\<close>

definition split_at :: "nat \<Rightarrow> 'a list \<Rightarrow> ('a list \<times> 'a list) option" where
  "split_at i xs = (if i \<le> length xs then Some (take i xs, drop i xs) else None)"

subsection \<open>\<open>relay/ipv4_packet.rs\<close>\<close>

record ipv4_packet =
  p4_raw :: "byte list"
  p4_ip :: ipv4_header_data
  p4_transport :: "transport_header_data option"

definition ipv4_packet_parse :: "byte list \<Rightarrow> ipv4_packet option" where
  "ipv4_packet_parse raw = do {
     ipv4_header_data \<leftarrow> ipv4_parse raw;
     payload \<leftarrow> slice (unat (v4_header_length ipv4_header_data)) (length raw) raw;
     transport_header_data \<leftarrow> transport_parse (v4_protocol ipv4_header_data) payload;
     raw' \<leftarrow> slice 0 (unat (v4_total_length ipv4_header_data)) raw;
     Some \<lparr>p4_raw = raw', p4_ip = ipv4_header_data, p4_transport = transport_header_data\<rparr>
   }"

definition ipv4_packet_new ::
  "byte list \<Rightarrow> ipv4_header_data \<Rightarrow> transport_header_data \<Rightarrow> ipv4_packet" where
  "ipv4_packet_new raw ip transport =
     \<lparr>p4_raw = raw, p4_ip = ip, p4_transport = Some transport\<rparr>"

definition p4_headers :: "ipv4_packet \<Rightarrow> (ipv4_header \<times> transport_header option) option" where
  "p4_headers p =
     (let transport_index = unat (v4_header_length (p4_ip p)) in
      case p4_transport p of
        Some transport_header_data \<Rightarrow> do {
          (ipv4_header_slice, transport_slice) \<leftarrow> split_at transport_index (p4_raw p);
          transport_header_slice \<leftarrow>
            slice 0 (unat (td_header_length transport_header_data)) transport_slice;
          Some (ipv4_bind ipv4_header_slice (p4_ip p),
                Some (td_bind transport_header_slice transport_header_data))
        }
      | None \<Rightarrow> do {
          ipv4_header_slice \<leftarrow> slice 0 transport_index (p4_raw p);
          Some (ipv4_bind ipv4_header_slice (p4_ip p), None)
        })"

definition p4_header :: "ipv4_packet \<Rightarrow> ipv4_header option" where
  "p4_header p = do {
     s \<leftarrow> slice 0 (unat (v4_header_length (p4_ip p))) (p4_raw p);
     Some (ipv4_bind s (p4_ip p))
   }"

definition p4_transport_header :: "ipv4_packet \<Rightarrow> transport_header option option" where
  "p4_transport_header p =
     (case p4_transport p of
        Some td \<Rightarrow>
          (let start = unat (v4_header_length (p4_ip p));
               e = start + unat (td_header_length td)
           in do { s \<leftarrow> slice start e (p4_raw p); Some (Some (td_bind s td)) })
      | None \<Rightarrow> Some None)"

text \<open>\<open>split\<close> and \<open>split_mut\<close>, which differ only in the borrow.\<close>

definition p4_split ::
  "ipv4_packet \<Rightarrow> (ipv4_header \<times> (transport_header \<times> byte list) option) option" where
  "p4_split p =
     (let transport_index = unat (v4_header_length (p4_ip p)) in
      case p4_transport p of
        Some td \<Rightarrow> do {
          (ipv4_header_slice, transport_slice) \<leftarrow> split_at transport_index (p4_raw p);
          (transport_header_slice, payload_slice) \<leftarrow>
            split_at (unat (td_header_length td)) transport_slice;
          Some (ipv4_bind ipv4_header_slice (p4_ip p),
                Some (td_bind transport_header_slice td, payload_slice))
        }
      | None \<Rightarrow> do {
          ipv4_header_slice \<leftarrow> slice 0 transport_index (p4_raw p);
          Some (ipv4_bind ipv4_header_slice (p4_ip p), None)
        })"

definition p4_is_valid :: "ipv4_packet \<Rightarrow> bool" where
  "p4_is_valid p \<longleftrightarrow> p4_transport p \<noteq> None"

definition p4_length :: "ipv4_packet \<Rightarrow> u16" where
  "p4_length p = v4_total_length (p4_ip p)"

definition p4_payload :: "ipv4_packet \<Rightarrow> byte list option option" where
  "p4_payload p =
     (case p4_transport p of
        Some td \<Rightarrow> map_option Some
          (slice (unat (v4_header_length (p4_ip p)) + unat (td_header_length td))
            (length (p4_raw p)) (p4_raw p))
      | None \<Rightarrow> Some None)"

text \<open>The parts are slices of \<open>raw\<close>, so writing through them is writing \<open>raw\<close>.\<close>

definition p4_compute_checksums :: "ipv4_packet \<Rightarrow> ipv4_packet option" where
  "p4_compute_checksums p =
     (let ip_data = HdV4 (p4_ip p) in do {
        (ipv4_header, transport) \<leftarrow> p4_split p;
        ipv4_header' \<leftarrow> ipv4_update_checksum ipv4_header;
        case transport of
          Some (transport_header, payload) \<Rightarrow> do {
            transport_header' \<leftarrow> t_update_checksum ip_data payload transport_header;
            Some \<lparr>p4_raw = h4_raw ipv4_header' @ t_raw transport_header' @ payload,
                  p4_ip = h4_data ipv4_header',
                  p4_transport = Some (t_data_clone transport_header')\<rparr>
          }
        | None \<Rightarrow>
            Some \<lparr>p4_raw = h4_raw ipv4_header' @ drop (length (h4_raw ipv4_header')) (p4_raw p),
                  p4_ip = h4_data ipv4_header', p4_transport = None\<rparr>
      })"

subsection \<open>\<open>Ipv6Packet\<close> of \<open>relay/ip_packet.rs\<close>\<close>

record ipv6_packet =
  p6_raw :: "byte list"
  p6_ip :: ipv6_header_data
  p6_transport :: "transport_header_data option"

definition ipv6_packet_parse :: "byte list \<Rightarrow> ipv6_packet option" where
  "ipv6_packet_parse raw = do {
     ipv6_header_data \<leftarrow> ipv6_parse raw;
     let total_len = unat (ipv6_total_length ipv6_header_data);
     payload \<leftarrow> slice (unat IPV6_HEADER_LENGTH) total_len raw;
     transport_header_data \<leftarrow> transport_parse (v6_next_header ipv6_header_data) payload;
     raw' \<leftarrow> slice 0 total_len raw;
     Some \<lparr>p6_raw = raw', p6_ip = ipv6_header_data, p6_transport = transport_header_data\<rparr>
   }"

definition ipv6_packet_new ::
  "byte list \<Rightarrow> ipv6_header_data \<Rightarrow> transport_header_data \<Rightarrow> ipv6_packet" where
  "ipv6_packet_new raw ip transport =
     \<lparr>p6_raw = raw, p6_ip = ip, p6_transport = Some transport\<rparr>"

definition p6_headers :: "ipv6_packet \<Rightarrow> (ipv6_header \<times> transport_header option) option" where
  "p6_headers p =
     (case p6_transport p of
        Some td \<Rightarrow> do {
          (ipv6_header_slice, transport_slice) \<leftarrow> split_at (unat IPV6_HEADER_LENGTH) (p6_raw p);
          transport_header_slice \<leftarrow> slice 0 (unat (td_header_length td)) transport_slice;
          Some (ipv6_bind ipv6_header_slice (p6_ip p), Some (td_bind transport_header_slice td))
        }
      | None \<Rightarrow> do {
          ipv6_header_slice \<leftarrow> slice 0 (unat IPV6_HEADER_LENGTH) (p6_raw p);
          Some (ipv6_bind ipv6_header_slice (p6_ip p), None)
        })"

definition p6_transport_header :: "ipv6_packet \<Rightarrow> transport_header option option" where
  "p6_transport_header p =
     (case p6_transport p of
        Some td \<Rightarrow>
          (let start = unat IPV6_HEADER_LENGTH; e = start + unat (td_header_length td)
           in do { s \<leftarrow> slice start e (p6_raw p); Some (Some (td_bind s td)) })
      | None \<Rightarrow> Some None)"

definition p6_is_valid :: "ipv6_packet \<Rightarrow> bool" where
  "p6_is_valid p \<longleftrightarrow> p6_transport p \<noteq> None"

definition p6_length :: "ipv6_packet \<Rightarrow> u16" where
  "p6_length p = ipv6_total_length (p6_ip p)"

definition p6_payload :: "ipv6_packet \<Rightarrow> byte list option option" where
  "p6_payload p =
     (case p6_transport p of
        Some td \<Rightarrow> map_option Some
          (slice (unat IPV6_HEADER_LENGTH + unat (td_header_length td))
            (length (p6_raw p)) (p6_raw p))
      | None \<Rightarrow> Some None)"

definition p6_compute_checksums :: "ipv6_packet \<Rightarrow> ipv6_packet option" where
  "p6_compute_checksums p =
     (case p6_transport p of
        Some td \<Rightarrow> do {
          (ipv6_header_slice, transport_slice) \<leftarrow> split_at (unat IPV6_HEADER_LENGTH) (p6_raw p);
          (transport_header_slice, payload) \<leftarrow>
            split_at (unat (td_header_length td)) transport_slice;
          transport_header' \<leftarrow>
            t_update_checksum (HdV6 (p6_ip p)) payload (td_bind transport_header_slice td);
          Some (p\<lparr>p6_raw := ipv6_header_slice @ t_raw transport_header' @ payload,
                  p6_transport := Some (t_data_clone transport_header')\<rparr>)
        }
      | None \<Rightarrow> Some p)"

subsection \<open>\<open>IpPacket\<close>\<close>

datatype ip_packet = PkV4 ipv4_packet | PkV6 ipv6_packet

text \<open>\<open>IpPacket::parse\<close>: the outer option is the panic.\<close>

definition ip_packet_parse :: "byte list \<Rightarrow> ip_packet option option" where
  "ip_packet_parse raw =
     (if raw = [] then Some None else do {
        b0 \<leftarrow> index 0 raw;
        let version = drop_bit 4 b0;
        if version = 4 then map_option (\<lambda>p. Some (PkV4 p)) (ipv4_packet_parse raw)
        else if version = 6 then map_option (\<lambda>p. Some (PkV6 p)) (ipv6_packet_parse raw)
        else Some None
      })"

fun is_icmp_echo_request :: "ip_packet \<Rightarrow> bool" where
  "is_icmp_echo_request (PkV4 p) \<longleftrightarrow>
     v4_protocol (p4_ip p) = Icmp \<and>
     index (unat (v4_header_length (p4_ip p))) (p4_raw p) = Some 8"
| "is_icmp_echo_request (PkV6 p) \<longleftrightarrow> False"

fun ip_raw :: "ip_packet \<Rightarrow> byte list" where
  "ip_raw (PkV4 p) = p4_raw p"
| "ip_raw (PkV6 p) = p6_raw p"

fun ip_headers_data :: "ip_packet \<Rightarrow> ip_header_data \<times> transport_header_data option" where
  "ip_headers_data (PkV4 p) = (HdV4 (p4_ip p), p4_transport p)"
| "ip_headers_data (PkV6 p) = (HdV6 (p6_ip p), p6_transport p)"

fun ip_headers :: "ip_packet \<Rightarrow> (ip_header \<times> transport_header option) option" where
  "ip_headers (PkV4 p) = do { (v4, t) \<leftarrow> p4_headers p; Some (IhV4 v4, t) }"
| "ip_headers (PkV6 p) = do { (v6, t) \<leftarrow> p6_headers p; Some (IhV6 v6, t) }"

fun ip_is_valid :: "ip_packet \<Rightarrow> bool" where
  "ip_is_valid (PkV4 p) = p4_is_valid p"
| "ip_is_valid (PkV6 p) = p6_is_valid p"

fun ip_length :: "ip_packet \<Rightarrow> u16" where
  "ip_length (PkV4 p) = p4_length p"
| "ip_length (PkV6 p) = p6_length p"

fun ip_payload :: "ip_packet \<Rightarrow> byte list option option" where
  "ip_payload (PkV4 p) = p4_payload p"
| "ip_payload (PkV6 p) = p6_payload p"

fun ip_transport_header :: "ip_packet \<Rightarrow> transport_header option option" where
  "ip_transport_header (PkV4 p) = p4_transport_header p"
| "ip_transport_header (PkV6 p) = p6_transport_header p"

fun ip_compute_checksums :: "ip_packet \<Rightarrow> ip_packet option" where
  "ip_compute_checksums (PkV4 p) = map_option PkV4 (p4_compute_checksums p)"
| "ip_compute_checksums (PkV6 p) = map_option PkV6 (p6_compute_checksums p)"

subsection \<open>Well-formed packets\<close>

text \<open>The parsed data is that of the bytes and the lengths in the headers are the real ones.\<close>

fun segment_wf :: "transport_header_data \<Rightarrow> byte list \<Rightarrow> bool" where
  "segment_wf (TdTcp d) seg \<longleftrightarrow>
     20 \<le> unat (tcp_header_length d) \<and> unat (tcp_header_length d) \<le> length seg \<and>
     tcp_parse (take (unat (tcp_header_length d)) seg) = Some d"
| "segment_wf (TdUdp d) seg \<longleftrightarrow> 8 \<le> length seg \<and> udp_parse (take 8 seg) = Some d"

fun packet_wf :: "ip_packet \<Rightarrow> bool" where
  "packet_wf (PkV4 p) \<longleftrightarrow>
     (let hl = unat (v4_header_length (p4_ip p)) in
        20 \<le> hl \<and> hl \<le> length (p4_raw p) \<and> ipv4_parse (take hl (p4_raw p)) = Some (p4_ip p) \<and>
        unat (v4_total_length (p4_ip p)) = length (p4_raw p) \<and>
        (case p4_transport p of None \<Rightarrow> True | Some td \<Rightarrow> segment_wf td (drop hl (p4_raw p))))"
| "packet_wf (PkV6 p) \<longleftrightarrow>
     40 \<le> length (p6_raw p) \<and> ipv6_parse (take 40 (p6_raw p)) = Some (p6_ip p) \<and>
     unat (ipv6_total_length (p6_ip p)) = length (p6_raw p) \<and>
     (case p6_transport p of None \<Rightarrow> True | Some td \<Rightarrow> segment_wf td (drop 40 (p6_raw p)))"

text \<open>What the receiver of a packet checks (RFC 791, 793, 768, 8200): the words it covers add up to
  all ones, except that UDP over IPv4 may leave its checksum at zero, meaning none.\<close>

fun segment_verifies :: "ip_header_data \<Rightarrow> transport_header_data \<Rightarrow> byte list \<Rightarrow> bool" where
  "segment_verifies (HdV4 v4) (TdTcp d) seg \<longleftrightarrow>
     oc_norm (words_sum (pseudo_header_v4 (v4_source v4) (v4_destination v4) (of_nat (length seg))
       @ seg)) = 65535"
| "segment_verifies (HdV6 v6) (TdTcp d) seg \<longleftrightarrow>
     oc_norm (words_sum (pseudo_header_v6 (v6_source v6) (v6_destination v6) (of_nat (length seg))
       @ seg)) = 65535"
| "segment_verifies (HdV4 v4) (TdUdp d) seg \<longleftrightarrow> read_u16_at 6 seg = Some 0"
| "segment_verifies (HdV6 v6) (TdUdp d) seg \<longleftrightarrow> False"

fun receiver_accepts :: "ip_packet \<Rightarrow> bool" where
  "receiver_accepts (PkV4 p) \<longleftrightarrow>
     (let hl = unat (v4_header_length (p4_ip p)) in
        oc_norm (words_sum (take hl (p4_raw p))) = 65535 \<and>
        (case p4_transport p of None \<Rightarrow> True
         | Some td \<Rightarrow> segment_verifies (HdV4 (p4_ip p)) td (drop hl (p4_raw p))))"
| "receiver_accepts (PkV6 p) \<longleftrightarrow>
     (case p6_transport p of None \<Rightarrow> True
      | Some td \<Rightarrow> segment_verifies (HdV6 (p6_ip p)) td (drop 40 (p6_raw p)))"

lemma tcp_header_length_even:
  assumes "tcp_parse raw = Some d"
  shows "even (unat (tcp_header_length d))"
proof -
  define w where "w = u16_of_bytes (raw ! 12) (raw ! 13)"
  have "\<not> bit (unat (ucast (drop_bit 10 (w AND 0xF000)) :: byte)) 0"
    unfolding word_masks by (simp add: bit_simps del: bit_0)
  then have "even (unat (ucast (drop_bit 10 (w AND 0xF000)) :: byte))"
    by (simp only: bit_0 not_not)
  moreover have "tcp_header_length d = ucast (drop_bit 10 (w AND 0xF000))"
    using assms tcp_parse_eq [OF tcp_parse_length [OF assms]] unfolding w_def
    by (metis option.inject tcp_header_data.select_convs(5))
  ultimately show ?thesis by simp
qed

lemma ipv6_total_length_no_wrap:
  assumes "unat (ipv6_total_length d) = n" "40 \<le> n"
  shows "unat (v6_payload_length d) = n - 40"
proof -
  have lt: "unat (v6_payload_length d) < 65536" by (rule unat_u16_less)
  have u: "unat (ipv6_total_length d) = (40 + unat (v6_payload_length d)) mod 65536"
    by (simp add: ipv6_total_length_def unat_word_ariths)
  show ?thesis
  proof (cases "40 + unat (v6_payload_length d) < 65536")
    case False
    then have "unat (ipv6_total_length d) = 40 + unat (v6_payload_length d) - 65536"
      using u lt by (simp add: le_mod_geq)
    then show ?thesis using assms lt by linarith
  qed (use u assms in simp)
qed

text \<open>Updating the transport checksum of a segment whose lengths are right.\<close>

fun segment_lengths :: "ip_header_data \<Rightarrow> nat \<Rightarrow> bool" where
  "segment_lengths (HdV4 v4) n \<longleftrightarrow>
     unat (v4_total_length v4) = unat (v4_header_length v4) + n"
| "segment_lengths (HdV6 v6) n \<longleftrightarrow>
     length (v6_source v6) = 16 \<and> length (v6_destination v6) = 16 \<and>
     unat (v6_payload_length v6) = n"

fun td_is_udp :: "transport_header_data \<Rightarrow> bool" where
  "td_is_udp (TdUdp _) \<longleftrightarrow> True"
| "td_is_udp (TdTcp _) \<longleftrightarrow> False"

fun hd_is_v6 :: "ip_header_data \<Rightarrow> bool" where
  "hd_is_v6 (HdV6 _) \<longleftrightarrow> True"
| "hd_is_v6 (HdV4 _) \<longleftrightarrow> False"

lemma update_segment_tcp:
  assumes wf: "segment_wf (TdTcp d) seg" and len: "segment_lengths ip (length seg)"
  defines "hl \<equiv> unat (tcp_header_length d)"
  shows "\<exists>h'. tcp_update_checksum ip (drop hl seg) (tcp_bind (take hl seg) d) = Some h' \<and>
    th_data h' = d \<and> length (th_raw h') = hl \<and> tcp_parse (th_raw h') = Some d \<and>
    segment_verifies ip (TdTcp d) (th_raw h' @ drop hl seg)"
proof -
  let ?h = "tcp_bind (take hl seg) d"
  have hl: "20 \<le> hl" "hl \<le> length seg" "tcp_parse (take hl seg) = Some d"
    using wf by (simp_all add: hl_def)
  then have lh: "length (th_raw ?h) = unat (tcp_header_length (th_data ?h))"
    "18 \<le> length (th_raw ?h)" "even (length (th_raw ?h))" and b: "tcp_bound ?h"
    using tcp_header_length_even [OF hl(3)] by (simp_all add: tcp_bound_def hl_def)
  have n: "length (th_raw ?h) + length (drop hl seg) = length seg" using hl by simp
  show ?thesis
  proof (cases ip)
    case (HdV4 v4)
    have l: "unat (v4_total_length v4) =
        unat (v4_header_length v4) + length (th_raw ?h) + length (drop hl seg)"
      using len n HdV4 by simp
    show ?thesis
      using tcp_update_checksum_v4_ok [OF b lh l] hl HdV4
      by (fastforce simp: n tcp_bound_def simp del: length_drop)
  next
    case (HdV6 v6)
    then have addrs: "length (v6_source v6) = 16" "length (v6_destination v6) = 16"
      and l: "unat (v6_payload_length v6) = length (th_raw ?h) + length (drop hl seg)"
      using len n by simp_all
    have "of_nat (unat (v6_payload_length v6)) = v6_payload_length v6" by simp
    then have eq: "v6_payload_length v6 = of_nat (length seg)" unfolding l n by (rule sym)
    show ?thesis
      using tcp_update_checksum_v6_ok [OF b lh addrs l] hl HdV6
      by (fastforce simp: eq tcp_bound_def)
  qed
qed

lemma update_segment:
  assumes wf: "segment_wf td seg" and len: "segment_lengths ip (length seg)"
  defines "hl \<equiv> unat (td_header_length td)"
  shows "\<exists>h'. t_update_checksum ip (drop hl seg) (td_bind (take hl seg) td) = Some h' \<and>
    t_data_clone h' = td \<and> length (t_raw h') = hl \<and> hl \<le> length seg \<and>
    segment_wf td (t_raw h' @ drop hl seg) \<and>
    (segment_verifies ip td (t_raw h' @ drop hl seg) \<or> hd_is_v6 ip \<and> td_is_udp td)"
proof (cases td)
  case (TdTcp d)
  then show ?thesis using update_segment_tcp [of d seg ip] wf len by (auto simp: hl_def)
next
  case (TdUdp d)
  let ?s = "(take 8 seg)[6 := 0, 7 := 0]"
  have 8: "8 \<le> length seg" "udp_parse (take 8 seg) = Some d" using wf TdUdp by simp_all
  then have s: "udp_parse ?s = Some d" "length ?s = 8" by (auto simp: udp_parse_eq)
  have u: "udp_update_checksum ip (drop 8 seg) (udp_bind (take 8 seg) d) = Some (udp_bind ?s d)"
    using 8 by (simp add: udp_update_checksum_def udp_set_checksum_def slice_simps udp_bind_def)
  have z: "read_u16_at 6 (?s @ drop 8 seg) = Some 0"
    using 8 by (simp add: slice_simps nth_append u16_of_bytes_def)
  have "hl = 8" by (simp add: hl_def TdUdp)
  then show ?thesis
    unfolding TdUdp by (intro exI [of _ "TUdp (udp_bind ?s d)"]) (use u s z 8 in \<open>cases ip; simp\<close>)
qed

text \<open>\<open>compute_checksums\<close> keeps everything but the checksums, and makes them right: all packets
  but UDP over IPv6, whose zero checksum RFC 8200 forbids, are then accepted by a receiver.\<close>

definition udp_over_ipv6 :: "ip_packet \<Rightarrow> bool" where
  "udp_over_ipv6 p \<longleftrightarrow>
     (case ip_headers_data p of (ip, Some td) \<Rightarrow> hd_is_v6 ip \<and> td_is_udp td | _ \<Rightarrow> False)"

definition checksummed :: "ip_packet \<Rightarrow> ip_packet \<Rightarrow> bool" where
  "checksummed p p' \<longleftrightarrow>
     packet_wf p' \<and> ip_headers_data p' = ip_headers_data p \<and>
     length (ip_raw p') = length (ip_raw p) \<and> ip_payload p' = ip_payload p \<and>
     (receiver_accepts p' \<or> udp_over_ipv6 p)"

lemma p4_compute_checksums_ok:
  assumes wf: "packet_wf (PkV4 p)"
  shows "\<exists>p'. p4_compute_checksums p = Some p' \<and> checksummed (PkV4 p) (PkV4 p')"
proof -
  define hl where "hl = unat (v4_header_length (p4_ip p))"
  let ?raw = "p4_raw p" and ?h = "ipv4_bind (take hl (p4_raw p)) (p4_ip p)"
  have hl: "20 \<le> hl" "hl \<le> length ?raw" "ipv4_parse (take hl ?raw) = Some (p4_ip p)"
    "unat (v4_total_length (p4_ip p)) = length ?raw"
    using wf by (simp_all add: hl_def Let_def)
  have "ipv4_bound ?h" using hl by (simp add: ipv4_bound_def)
  from ipv4_update_checksum_ok [OF this] hl obtain h' where h':
    "ipv4_update_checksum ?h = Some h'" "ipv4_parse (h4_raw h') = Some (p4_ip p)"
    "h4_data h' = p4_ip p" "length (h4_raw h') = hl"
    "oc_norm (words_sum (take hl (h4_raw h'))) = 65535"
    by (auto simp: hl_def ipv4_bound_def)
  show ?thesis
  proof (cases "p4_transport p")
    case None
    then have "p4_compute_checksums p = Some \<lparr>p4_raw = h4_raw h' @ drop hl ?raw,
        p4_ip = p4_ip p, p4_transport = None\<rparr>"
      using hl h' by (simp add: p4_compute_checksums_def p4_split_def hl_def [symmetric] slice_Some)
    then show ?thesis
      using hl h' None by (auto simp: checksummed_def p4_payload_def hl_def [symmetric] Let_def)
  next
    case (Some td)
    let ?seg = "drop hl ?raw" and ?tl = "unat (td_header_length td)"
    have "segment_wf td ?seg" "segment_lengths (HdV4 (p4_ip p)) (length ?seg)"
      using wf Some hl by (simp_all add: hl_def Let_def)
    from update_segment [OF this] obtain t' where t':
      "t_update_checksum (HdV4 (p4_ip p)) (drop ?tl ?seg) (td_bind (take ?tl ?seg) td) = Some t'"
      "t_data_clone t' = td" "length (t_raw t') = ?tl" "?tl \<le> length ?seg"
      "segment_wf td (t_raw t' @ drop ?tl ?seg)"
      "segment_verifies (HdV4 (p4_ip p)) td (t_raw t' @ drop ?tl ?seg)"
      by auto
    have "p4_compute_checksums p = Some \<lparr>p4_raw = h4_raw h' @ t_raw t' @ drop ?tl ?seg,
        p4_ip = p4_ip p, p4_transport = Some td\<rparr>"
      using hl h' t' Some
      by (simp add: p4_compute_checksums_def p4_split_def hl_def [symmetric] split_at_def)
    then show ?thesis
      using hl h' t' Some
      by (auto simp: checksummed_def p4_payload_def hl_def [symmetric] Let_def slice_Some add.commute)
  qed
qed

lemma p6_compute_checksums_ok:
  assumes wf: "packet_wf (PkV6 p)"
  shows "\<exists>p'. p6_compute_checksums p = Some p' \<and> checksummed (PkV6 p) (PkV6 p')"
proof (cases "p6_transport p")
  case None
  then show ?thesis using wf by (simp add: p6_compute_checksums_def checksummed_def)
next
  case (Some td)
  let ?raw = "p6_raw p" and ?seg = "drop 40 (p6_raw p)" and ?tl = "unat (td_header_length td)"
  have w: "40 \<le> length ?raw" "ipv6_parse (take 40 ?raw) = Some (p6_ip p)"
    "unat (ipv6_total_length (p6_ip p)) = length ?raw" "segment_wf td ?seg"
    using wf Some by simp_all
  have "length (v6_source (p6_ip p)) = 16" "length (v6_destination (p6_ip p)) = 16"
    using ipv6_parse_addresses [OF w(2)] by simp_all
  then have "segment_lengths (HdV6 (p6_ip p)) (length ?seg)"
    using w(1) ipv6_total_length_no_wrap [OF w(3)] by simp
  from update_segment [OF w(4) this] obtain t' where t':
    "t_update_checksum (HdV6 (p6_ip p)) (drop ?tl ?seg) (td_bind (take ?tl ?seg) td) = Some t'"
    "t_data_clone t' = td" "length (t_raw t') = ?tl" "?tl \<le> length ?seg"
    "segment_wf td (t_raw t' @ drop ?tl ?seg)"
    "segment_verifies (HdV6 (p6_ip p)) td (t_raw t' @ drop ?tl ?seg) \<or> td_is_udp td"
    by auto
  have "p6_compute_checksums p = Some (p\<lparr>p6_raw := take 40 ?raw @ t_raw t' @ drop ?tl ?seg\<rparr>)"
    using w t' Some by (simp add: p6_compute_checksums_def split_at_def)
  then show ?thesis
    using w t' Some
    by (auto simp: checksummed_def p6_payload_def udp_over_ipv6_def slice_Some add.commute)
qed

lemma compute_checksums_ok:
  assumes "packet_wf p"
  obtains p' where "ip_compute_checksums p = Some p'" "checksummed p p'"
proof (cases p)
  case (PkV4 q)
  then show ?thesis using p4_compute_checksums_ok [of q] assms that by fastforce
next
  case (PkV6 q)
  then show ?thesis using p6_compute_checksums_ok [of q] assms that by fastforce
qed

subsection \<open>What computing checksums leaves alone\<close>

text \<open>\<open>only_field k xs ys\<close>: the two bytes at \<open>k\<close> may differ.\<close>

definition only_field :: "nat \<Rightarrow> byte list \<Rightarrow> byte list \<Rightarrow> bool" where
  "only_field k xs ys \<longleftrightarrow> (\<exists>a b. ys = xs[k := a, Suc k := b])"

lemma only_field_trans: "only_field k xs ys \<Longrightarrow> only_field k ys zs \<Longrightarrow> only_field k xs zs"
proof -
  assume "only_field k xs ys" "only_field k ys zs"
  then obtain a b c d where "ys = xs[k := a, Suc k := b]" "zs = ys[k := c, Suc k := d]"
    by (auto simp: only_field_def)
  then have "zs = xs[k := c, Suc k := d]" by (simp add: list_update_swap)
  then show ?thesis by (auto simp: only_field_def)
qed

lemma write_u16_at_only: "write_u16_at k w xs = Some ys \<Longrightarrow> only_field k xs ys"
  using write_u16_at_Some [of k xs w]
  by (cases "k + 1 < length xs")
    (auto simp: only_field_def write_u16_at_def splice_def bytes_of_u16_def split: if_splits)

lemma ipv4_update_checksum_only:
  assumes "ipv4_update_checksum h = Some h'"
  shows "only_field 10 (h4_raw h) (h4_raw h')"
  using assms write_u16_at_only
  by (fastforce simp: ipv4_update_checksum_def ipv4_set_checksum_def split: Option.bind_splits)

lemma tcp_set_checksum_only: "tcp_set_checksum w h = Some h' \<Longrightarrow> only_field 16 (th_raw h) (th_raw h')"
  using write_u16_at_only by (fastforce simp: tcp_set_checksum_def split: Option.bind_splits)

lemma tcp_finish_checksum_only:
  assumes "tcp_finish_checksum acc n payload h = Some h'"
  shows "only_field 16 (th_raw h) (th_raw h')"
proof -
  obtain h0 w where "tcp_set_checksum 0 h = Some h0" "tcp_set_checksum w h0 = Some h'"
    using assms by (auto simp: tcp_finish_checksum_def split: Option.bind_splits prod.splits)
  then show ?thesis using only_field_trans tcp_set_checksum_only by blast
qed

fun checksum_offset :: "transport_header_data \<Rightarrow> nat" where
  "checksum_offset (TdTcp _) = 16"
| "checksum_offset (TdUdp _) = 6"

lemma t_update_checksum_only:
  assumes "t_update_checksum ip payload (td_bind raw td) = Some h'"
  shows "only_field (checksum_offset td) raw (t_raw h')"
proof (cases td)
  case (TdTcp d)
  then obtain g where "h' = TTcp g" "tcp_update_checksum ip payload (tcp_bind raw d) = Some g"
    using assms by auto
  moreover then have "only_field 16 (th_raw (tcp_bind raw d)) (th_raw g)"
    by (cases ip) (auto simp: tcp_update_checksum_v4_def tcp_update_checksum_v6_def Let_def
      split: Option.bind_splits dest: tcp_finish_checksum_only)
  ultimately show ?thesis using TdTcp by (simp add: tcp_bind_def)
next
  case (TdUdp d)
  then show ?thesis
    using assms write_u16_at_only
    by (fastforce simp: udp_update_checksum_def udp_set_checksum_def udp_bind_def split: Option.bind_splits)
qed

definition checksum_bytes :: "ip_packet \<Rightarrow> nat set" where
  "checksum_bytes p =
     (case p of PkV4 _ \<Rightarrow> {10, 11} | PkV6 _ \<Rightarrow> {}) \<union>
     (let hl = unat (hd_header_length (fst (ip_headers_data p))) in
      case snd (ip_headers_data p) of
        None \<Rightarrow> {}
      | Some (TdTcp _) \<Rightarrow> {hl + 16, hl + 17}
      | Some (TdUdp _) \<Rightarrow> {hl + 6, hl + 7})"

lemma only_field_nth:
  "only_field k xs ys \<Longrightarrow> length ys = length xs \<and> (\<forall>i. i \<noteq> k \<longrightarrow> i \<noteq> Suc k \<longrightarrow> ys ! i = xs ! i)"
  by (auto simp: only_field_def)

lemma nth_joined:
  assumes "length xs' = length xs" "\<And>i. i < length xs \<Longrightarrow> i \<notin> S \<Longrightarrow> xs' ! i = xs ! i"
    "length ys' = length ys" "\<And>i. i < length ys \<Longrightarrow> length xs + i \<notin> S \<Longrightarrow> ys' ! i = ys ! i"
    "i < length (xs @ ys)" "i \<notin> S"
  shows "(xs' @ ys') ! i = (xs @ ys) ! i"
  using assms(1,3,5,6) assms(2) [of i] assms(4) [of "i - length xs"] by (auto simp: nth_append)

lemma compute_checksums_only:
  assumes wf: "packet_wf p" and c: "ip_compute_checksums p = Some p'"
    and i: "i < length (ip_raw p)" "i \<notin> checksum_bytes p"
  shows "ip_raw p' ! i = ip_raw p ! i"
proof (cases p)
  case (PkV4 q)
  define hl where "hl = unat (v4_header_length (p4_ip q))"
  let ?raw = "p4_raw q"
  have hl: "20 \<le> hl" "hl \<le> length ?raw" using wf by (simp_all add: PkV4 hl_def Let_def)
  obtain q' where q': "p4_compute_checksums q = Some q'" "p' = PkV4 q'" using c PkV4 by auto
  obtain h' where h': "ipv4_update_checksum (ipv4_bind (take hl ?raw) (p4_ip q)) = Some h'"
    using q'(1) hl by (auto simp: p4_compute_checksums_def p4_split_def hl_def [symmetric] split_at_def slice_Some
      split: Option.bind_splits option.splits)
  have f1: "only_field 10 (take hl ?raw) (h4_raw h')"
    using ipv4_update_checksum_only [OF h'] by (simp add: ipv4_bind_def)
  have l1: "length (h4_raw h') = hl" using only_field_nth [OF f1] hl by simp
  show ?thesis
  proof (cases "p4_transport q")
    case None
    then have "p4_raw q' = h4_raw h' @ drop hl ?raw"
      using q'(1) h' hl by (auto simp: p4_compute_checksums_def p4_split_def hl_def [symmetric] slice_simps l1)
    moreover have "(h4_raw h' @ drop hl ?raw) ! i = (take hl ?raw @ drop hl ?raw) ! i"
      by (rule nth_joined [where S = "checksum_bytes p"])
        (use only_field_nth [OF f1] i hl in \<open>auto simp: PkV4 None checksum_bytes_def\<close>)
    ultimately show ?thesis using q'(2) by (simp add: PkV4)
  next
    case (Some td)
    let ?seg = "drop hl ?raw" and ?tl = "unat (td_header_length td)"
    have tl: "?tl \<le> length ?seg" using wf Some by (cases td) (simp_all add: PkV4 hl_def Let_def)
    obtain t' where t': "t_update_checksum (HdV4 (p4_ip q)) (drop ?tl ?seg) (td_bind (take ?tl ?seg) td) = Some t'"
      "p4_raw q' = h4_raw h' @ t_raw t' @ drop ?tl ?seg"
      using q'(1) h' hl tl by (auto simp: p4_compute_checksums_def p4_split_def hl_def [symmetric] split_at_def Some
        split: Option.bind_splits)
    have f2: "only_field (checksum_offset td) (take ?tl ?seg) (t_raw t')"
      by (rule t_update_checksum_only [OF t'(1)])
    have s: "checksum_bytes p = {10, 11} \<union> {hl + checksum_offset td, hl + Suc (checksum_offset td)}"
      by (cases td) (auto simp: PkV4 Some checksum_bytes_def hl_def Let_def)
    have "(h4_raw h' @ t_raw t' @ drop ?tl ?seg) ! i = (take hl ?raw @ take ?tl ?seg @ drop ?tl ?seg) ! i"
    proof (rule nth_joined [where S = "checksum_bytes p"])
      show "(t_raw t' @ drop ?tl ?seg) ! j = (take ?tl ?seg @ drop ?tl ?seg) ! j"
        if "j < length (take ?tl ?seg @ drop ?tl ?seg)" "length (take hl ?raw) + j \<notin> checksum_bytes p" for j
        by (rule nth_joined [where S = "{checksum_offset td, Suc (checksum_offset td)}"])
          (use only_field_nth [OF f2] that hl s in auto)
    qed (use only_field_nth [OF f1] only_field_nth [OF f2] i hl s in \<open>auto simp: PkV4\<close>)
    then show ?thesis using q'(2) t'(2) by (simp only: append_take_drop_id PkV4 ip_raw.simps)
  qed
next
  case (PkV6 q)
  let ?raw = "p6_raw q" and ?seg = "drop 40 (p6_raw q)"
  have hl: "40 \<le> length ?raw" using wf by (simp add: PkV6)
  obtain q' where q': "p6_compute_checksums q = Some q'" "p' = PkV6 q'" using c PkV6 by auto
  show ?thesis
  proof (cases "p6_transport q")
    case None
    then show ?thesis using q' by (simp add: PkV6 p6_compute_checksums_def)
  next
    case (Some td)
    let ?tl = "unat (td_header_length td)"
    have tl: "?tl \<le> length ?seg" using wf Some by (cases td) (simp_all add: PkV6)
    obtain t' where t': "t_update_checksum (HdV6 (p6_ip q)) (drop ?tl ?seg) (td_bind (take ?tl ?seg) td) = Some t'"
      "p6_raw q' = take 40 ?raw @ t_raw t' @ drop ?tl ?seg"
      using q'(1) hl tl by (auto simp: p6_compute_checksums_def split_at_def Some split: Option.bind_splits)
    have f2: "only_field (checksum_offset td) (take ?tl ?seg) (t_raw t')"
      by (rule t_update_checksum_only [OF t'(1)])
    have s: "checksum_bytes p = {40 + checksum_offset td, 40 + Suc (checksum_offset td)}"
      by (cases td) (auto simp: PkV6 Some checksum_bytes_def Let_def)
    have "(take 40 ?raw @ t_raw t' @ drop ?tl ?seg) ! i = (take 40 ?raw @ take ?tl ?seg @ drop ?tl ?seg) ! i"
    proof (rule nth_joined [where S = "checksum_bytes p"])
      show "(t_raw t' @ drop ?tl ?seg) ! j = (take ?tl ?seg @ drop ?tl ?seg) ! j"
        if "j < length (take ?tl ?seg @ drop ?tl ?seg)" "length (take 40 ?raw) + j \<notin> checksum_bytes p" for j
        by (rule nth_joined [where S = "{checksum_offset td, Suc (checksum_offset td)}"])
          (use only_field_nth [OF f2] that hl s in auto)
    qed (use only_field_nth [OF f2] i hl s in \<open>auto simp: PkV6\<close>)
    then show ?thesis using q'(2) t'(2) by (simp only: append_take_drop_id PkV6 ip_raw.simps)
  qed
qed

lemma packet_wf_total:
  "packet_wf p \<Longrightarrow> length (ip_raw p) = (case fst (ip_headers_data p) of
     HdV4 h \<Rightarrow> unat (v4_total_length h) | HdV6 h \<Rightarrow> unat (ipv6_total_length h))"
  by (cases p) (simp_all add: Let_def)

lemma compute_checksums_length:
  assumes "packet_wf p" "packet_wf p'" "ip_headers_data p' = ip_headers_data p"
  shows "length (ip_raw p') = length (ip_raw p)"
  using packet_wf_total [OF assms(1)] packet_wf_total [OF assms(2)] assms(3) by simp

end
