(* ===== verification/Io.thy ===== *)
theory Io
  imports Prelude
begin

text \<open>
  I/O as the source uses it (\<open>io::Result\<close>, \<open>io::Read\<close>, \<open>io::Write\<close>, \<open>UdpSocket\<close>), and the
  datagram traits of \<open>relay/datagram.rs\<close>.

  A socket is a \<open>stream\<close>: two scripts that hold what its future \<open>read\<close> (\<open>recv\<close>) and
  \<open>write\<close> (\<open>send\<close>) calls will meet, and the bytes or datagrams it has accepted so far. A call
  consumes the head of its script; an exhausted script answers \<open>WouldBlock\<close>, as a
  non-blocking socket with nothing to say does. A theorem about all streams is a theorem
  about all behaviours of the operating system over finitely many calls.
\<close>

datatype io_error_kind =
    NotFound | ConnectionRefused | ConnectionReset | ConnectionAborted | TimedOut
  | WouldBlock | UnexpectedEof | WriteZero | InvalidInput | Unsupported | OtherError

type_synonym 'a io_result = "io_error_kind + 'a"

record stream =
  rx :: "(io_error_kind + byte list) list"
  tx :: "(io_error_kind + nat) list"
  sent :: "byte list list"

text \<open>\<open>source.read(&mut buf)\<close> with \<open>buf.len() = n\<close>, on a byte stream: at most \<open>n\<close> bytes, the
  rest stays for the next call; an empty chunk is the end of the stream.\<close>

fun stream_read :: "nat \<Rightarrow> stream \<Rightarrow> byte list io_result \<times> stream" where
  "stream_read n s =
     (case rx s of
        [] \<Rightarrow> (Inl WouldBlock, s)
      | Inl e # r \<Rightarrow> (Inl e, s\<lparr>rx := r\<rparr>)
      | Inr bs # r \<Rightarrow>
          (if length bs \<le> n then (Inr bs, s\<lparr>rx := r\<rparr>)
           else (Inr (take n bs), s\<lparr>rx := Inr (drop n bs) # r\<rparr>)))"

text \<open>\<open>socket.recv(&mut buf)\<close> on a datagram socket: one whole datagram, truncated to the
  buffer.\<close>

fun dgram_recv :: "nat \<Rightarrow> stream \<Rightarrow> byte list io_result \<times> stream" where
  "dgram_recv n s =
     (case rx s of
        [] \<Rightarrow> (Inl WouldBlock, s)
      | Inl e # r \<Rightarrow> (Inl e, s\<lparr>rx := r\<rparr>)
      | Inr bs # r \<Rightarrow> (Inr (take n bs), s\<lparr>rx := r\<rparr>))"

text \<open>\<open>destination.write(bs)\<close> and \<open>socket.send(bs)\<close>: the number of bytes accepted, never
  more than offered.\<close>

fun stream_write :: "byte list \<Rightarrow> stream \<Rightarrow> nat io_result \<times> stream" where
  "stream_write bs s =
     (case tx s of
        [] \<Rightarrow> (Inl WouldBlock, s)
      | Inl e # t \<Rightarrow> (Inl e, s\<lparr>tx := t\<rparr>)
      | Inr k # t \<Rightarrow>
          (Inr (min k (length bs)),
           s\<lparr>tx := t, sent := sent s @ [take (min k (length bs)) bs]\<rparr>))"

declare stream_read.simps [simp del] dgram_recv.simps [simp del] stream_write.simps [simp del]

text \<open>The bytes a byte stream has accepted.\<close>

abbreviation sent_bytes :: "stream \<Rightarrow> byte list" where
  "sent_bytes s \<equiv> concat (sent s)"

lemma stream_read_le: "stream_read n s = (Inr bs, s') \<Longrightarrow> length bs \<le> n"
  by (auto simp: stream_read.simps split: list.splits sum.splits if_splits)

lemma stream_read_sent [frame_simps]: "stream_read n s = (r, s') \<Longrightarrow> sent s' = sent s"
  by (auto simp: stream_read.simps split: list.splits sum.splits if_splits)

lemma dgram_recv_le: "dgram_recv n s = (Inr bs, s') \<Longrightarrow> length bs \<le> n"
  by (auto simp: dgram_recv.simps split: list.splits sum.splits if_splits)

lemma dgram_recv_sent [frame_simps]: "dgram_recv n s = (r, s') \<Longrightarrow> sent s' = sent s"
  by (auto simp: dgram_recv.simps split: list.splits sum.splits if_splits)

lemma stream_write_le: "stream_write bs s = (Inr w, s') \<Longrightarrow> w \<le> length bs"
  by (auto simp: stream_write.simps split: list.splits sum.splits)

lemma stream_write_sent:
  "stream_write bs s = (Inr w, s') \<Longrightarrow> sent s' = sent s @ [take w bs]"
  by (auto simp: stream_write.simps split: list.splits sum.splits)

lemma stream_write_error_sent: "stream_write bs s = (Inl e, s') \<Longrightarrow> sent s' = sent s"
  by (auto simp: stream_write.simps split: list.splits sum.splits)

lemma stream_write_rx [frame_simps]: "stream_write bs s = (r, s') \<Longrightarrow> rx s' = rx s"
  by (auto simp: stream_write.simps split: list.splits sum.splits)

subsection \<open>\<open>relay/datagram.rs\<close>\<close>

definition MAX_DATAGRAM_LENGTH :: nat where
  "MAX_DATAGRAM_LENGTH = 65536"

text \<open>\<open>ReadAdapter::recv\<close>: read at most \<open>max_chunk_size\<close> bytes into a buffer of length \<open>n\<close>.\<close>

definition read_adapter_recv ::
    "nat option \<Rightarrow> nat \<Rightarrow> stream \<Rightarrow> byte list io_result \<times> stream" where
  "read_adapter_recv max_chunk_size n s =
     (let len = (case max_chunk_size of Some m \<Rightarrow> min m n | None \<Rightarrow> n)
      in stream_read len s)"

lemma read_adapter_recv_le:
  "read_adapter_recv m n s = (Inr bs, s') \<Longrightarrow>
   length bs \<le> n \<and> (\<forall>k. m = Some k \<longrightarrow> length bs \<le> k)"
  by (auto simp: read_adapter_recv_def Let_def dest!: stream_read_le split: option.splits)

lemma read_adapter_recv_sent [frame_simps]:
  "read_adapter_recv m n s = (r, s') \<Longrightarrow> sent s' = sent s"
  by (auto simp: read_adapter_recv_def Let_def frame_simps)

end
