(* ===== verification/Stream_Buffer.thy ===== *)
theory Stream_Buffer
  imports Io
begin

text \<open>
  \<open>relay/stream_buffer.rs\<close>: the circular byte buffer between a client and its connections.
  The representation (\<open>buf\<close>, \<open>head\<close>, \<open>tail\<close>) is refined to a bounded FIFO of bytes:
  \<open>sb_content\<close> is the abstraction function, \<open>sb_wf\<close> the representation invariant, the locale
  \<open>byte_fifo\<close> the contract its writers rely on and \<open>byte_pipe\<close> the contract of its drain.
\<close>

record stream_buffer =
  sb_buf :: "byte list"
  sb_head :: nat
  sb_tail :: nat

definition sb_new :: "nat \<Rightarrow> stream_buffer" where
  "sb_new capacity = \<lparr>sb_buf = replicate (capacity + 1) 0, sb_head = 0, sb_tail = 0\<rparr>"

definition sb_is_empty :: "stream_buffer \<Rightarrow> bool" where
  "sb_is_empty b \<longleftrightarrow> sb_head b = sb_tail b"

definition sb_size :: "stream_buffer \<Rightarrow> nat" where
  "sb_size b =
     (if sb_head b < sb_tail b then sb_head b + length (sb_buf b) - sb_tail b
      else sb_head b - sb_tail b)"

definition sb_capacity :: "stream_buffer \<Rightarrow> nat" where
  "sb_capacity b = length (sb_buf b) - 1"

definition sb_remaining :: "stream_buffer \<Rightarrow> nat" where
  "sb_remaining b = sb_capacity b - sb_size b"

definition sb_optimize :: "stream_buffer \<Rightarrow> stream_buffer" where
  "sb_optimize b = (if sb_is_empty b then b\<lparr>sb_head := 0, sb_tail := 0\<rparr> else b)"

text \<open>\<open>write_to\<close> writes one contiguous run, at most up to the end of \<open>buf\<close>; an error leaves
  the buffer as it was.\<close>

definition sb_write_to ::
    "stream_buffer \<Rightarrow> stream \<Rightarrow> (nat io_result \<times> stream_buffer \<times> stream) option" where
  "sb_write_to b destination =
     (if sb_head b = sb_tail b then Some (Inr 0, b, destination)
      else if sb_tail b < sb_head b then do {
        source_slice \<leftarrow> slice (sb_tail b) (sb_head b) (sb_buf b);
        (case stream_write source_slice destination of
           (Inl e, d) \<Rightarrow> Some (Inl e, b, d)
         | (Inr w, d) \<Rightarrow> Some (Inr w, sb_optimize (b\<lparr>sb_tail := sb_tail b + w\<rparr>), d))
      }
      else do {
        source_slice \<leftarrow> slice (sb_tail b) (length (sb_buf b)) (sb_buf b);
        (case stream_write source_slice destination of
           (Inl e, d) \<Rightarrow> Some (Inl e, b, d)
         | (Inr w, d) \<Rightarrow>
             Some (Inr w, sb_optimize (b\<lparr>sb_tail := (sb_tail b + w) mod length (sb_buf b)\<rparr>), d))
      })"

definition sb_read_from :: "byte list \<Rightarrow> stream_buffer \<Rightarrow> stream_buffer option" where
  "sb_read_from source b =
     (let source_len = length source; buf_len = length (sb_buf b) in do {
        buf' \<leftarrow>
          (if source_len \<le> buf_len - sb_head b then splice (sb_head b) source (sb_buf b)
           else do {
             b1 \<leftarrow> splice (sb_head b) (take (buf_len - sb_head b) source) (sb_buf b);
             splice 0 (drop (buf_len - sb_head b) source) b1
           });
        Some (b\<lparr>sb_buf := buf', sb_head := (sb_head b + source_len) mod buf_len\<rparr>)
      })"

subsection \<open>Refinement to a bounded FIFO\<close>

definition sb_wf :: "stream_buffer \<Rightarrow> bool" where
  "sb_wf b \<longleftrightarrow> sb_head b < length (sb_buf b) \<and> sb_tail b < length (sb_buf b)"

definition sb_content :: "stream_buffer \<Rightarrow> byte list" where
  "sb_content b =
     (if sb_tail b \<le> sb_head b then take (sb_head b - sb_tail b) (drop (sb_tail b) (sb_buf b))
      else drop (sb_tail b) (sb_buf b) @ take (sb_head b) (sb_buf b))"

text \<open>What a writer may rely on: a push that fits in the room is appended, and takes its
  length from the room.\<close>

locale byte_fifo =
  fixes wf :: "'q \<Rightarrow> bool"
    and content :: "'q \<Rightarrow> byte list"
    and room :: "'q \<Rightarrow> nat"
    and push :: "byte list \<Rightarrow> 'q \<Rightarrow> 'q option"
  assumes push_ok: "wf q \<Longrightarrow> length p \<le> room q \<Longrightarrow>
    \<exists>q'. push p q = Some q' \<and> wf q' \<and> content q' = content q @ p \<and> room q' = room q - length p"
begin

lemma pushE:
  assumes "wf q" and "length p \<le> room q"
  obtains q' where "push p q = Some q'" "wf q'" "content q' = content q @ p"
    "room q' = room q - length p"
  using push_ok [OF assms] by blast

lemma push_all_ok:
  assumes "wf q" and "length (concat ps) \<le> room q"
  shows "\<exists>q'. for_each push ps q = Some q' \<and> wf q' \<and> content q' = content q @ concat ps \<and>
    room q' = room q - length (concat ps)"
  using assms
proof (induction ps arbitrary: q)
  case (Cons p ps)
  obtain q1 where q1: "push p q = Some q1" "wf q1" "content q1 = content q @ p"
    "room q1 = room q - length p"
    using pushE [OF Cons.prems(1), of p] Cons.prems(2) by auto
  moreover have "length (concat ps) \<le> room q1"
    using Cons.prems(2) q1(4) by simp
  ultimately show ?case
    using Cons.IH [OF q1(2)] by (auto simp: diff_diff_left)
qed simp

end

text \<open>A use of a pipe: offers, refused when they do not fit, interleaved with drains. The last
  component collects what was accepted.\<close>

datatype pipe_op = Offer "byte list" | Drain

fun pipe_run ::
    "(byte list \<Rightarrow> 'q \<Rightarrow> 'q option) \<Rightarrow> ('q \<Rightarrow> nat) \<Rightarrow>
     ('q \<Rightarrow> stream \<Rightarrow> (nat io_result \<times> 'q \<times> stream) option) \<Rightarrow>
     pipe_op list \<Rightarrow> 'q \<times> stream \<times> byte list \<Rightarrow> ('q \<times> stream \<times> byte list) option" where
  "pipe_run push room drain [] st = Some st"
| "pipe_run push room drain (Offer p # ops) (q, s, acc) =
     (if length p \<le> room q
      then do { q' \<leftarrow> push p q; pipe_run push room drain ops (q', s, acc @ p) }
      else pipe_run push room drain ops (q, s, acc))"
| "pipe_run push room drain (Drain # ops) (q, s, acc) =
     do { (r, q', s') \<leftarrow> drain q s; pipe_run push room drain ops (q', s', acc) }"

text \<open>A pipe also drains into a stream: nothing is lost, duplicated or reordered between the
  stream's accepted bytes and the contents, and the total capacity stays.\<close>

locale byte_pipe = byte_fifo +
  fixes drain :: "'q \<Rightarrow> stream \<Rightarrow> (nat io_result \<times> 'q \<times> stream) option"
  assumes drain_ok: "wf q \<Longrightarrow>
    \<exists>r q' s'. drain q s = Some (r, q', s') \<and> wf q' \<and>
      sent_bytes s' @ content q' = sent_bytes s @ content q \<and>
      room q' + length (content q') = room q + length (content q)"
begin

lemma drainE:
  assumes "wf q"
  obtains r q' s' where "drain q s = Some (r, q', s')" "wf q'"
    "sent_bytes s' @ content q' = sent_bytes s @ content q"
    "room q' + length (content q') = room q + length (content q)"
  using drain_ok [OF assms] by blast

lemma pipe_run_conserves:
  assumes "wf q"
  shows "\<exists>q' s' acc'. pipe_run push room drain ops (q, s, acc) = Some (q', s', acc @ acc') \<and>
    wf q' \<and> sent_bytes s' @ content q' = sent_bytes s @ content q @ acc'"
  using assms
proof (induction ops arbitrary: q s acc)
  case (Cons op ops)
  show ?case
  proof (cases op)
    case (Offer p)
    show ?thesis
    proof (cases "length p \<le> room q")
      case True
      then obtain q1 where "push p q = Some q1" "wf q1" "content q1 = content q @ p"
        by (rule pushE [OF Cons.prems])
      then show ?thesis using Offer True Cons.IH [of q1 s "acc @ p"] by auto
    next
      case False
      then show ?thesis using Offer Cons.IH [OF Cons.prems] by simp
    qed
  next
    case Drain
    obtain r q1 s1 where "drain q s = Some (r, q1, s1)" "wf q1"
      "sent_bytes s1 @ content q1 = sent_bytes s @ content q"
      by (rule drainE [OF Cons.prems])
    then show ?thesis using Drain Cons.IH [of q1 s1 acc] by (auto simp flip: append_assoc)
  qed
qed simp

end

lemma sb_wf_new [wf_intros, simp]: "sb_wf (sb_new n)"
  by (simp add: sb_wf_def sb_new_def)

lemma sb_content_new [simp]: "sb_content (sb_new n) = []"
  by (simp add: sb_content_def sb_new_def)

lemma sb_capacity_new [simp]: "sb_capacity (sb_new n) = n"
  by (simp add: sb_capacity_def sb_new_def)

lemma sb_size_content: "sb_wf b \<Longrightarrow> sb_size b = length (sb_content b)"
  by (auto simp: sb_size_def sb_content_def sb_wf_def)

lemma sb_size_le_capacity: "sb_wf b \<Longrightarrow> sb_size b \<le> sb_capacity b"
  by (auto simp: sb_size_def sb_capacity_def sb_wf_def)

lemma sb_is_empty_content: "sb_wf b \<Longrightarrow> sb_is_empty b \<longleftrightarrow> sb_content b = []"
  by (auto simp: sb_is_empty_def sb_content_def sb_wf_def)

lemma sb_remaining_content: "sb_wf b \<Longrightarrow> sb_remaining b = sb_capacity b - length (sb_content b)"
  by (simp add: sb_remaining_def sb_size_content)

lemma sb_optimize_simps [simp]:
  "sb_wf b \<Longrightarrow> sb_wf (sb_optimize b)"
  "sb_wf b \<Longrightarrow> sb_content (sb_optimize b) = sb_content b"
  "sb_buf (sb_optimize b) = sb_buf b"
  "sb_capacity (sb_optimize b) = sb_capacity b"
  by (auto simp: sb_optimize_def sb_wf_def sb_content_def sb_is_empty_def sb_capacity_def)


text \<open>A write that fits is appended. There are three layouts: the free space is between \<open>head\<close>
  and \<open>tail\<close>; it is after \<open>head\<close> and the data fits before the end of \<open>buf\<close>; or the data wraps.\<close>

lemma sb_read_from_gap:
  assumes "sb_wf b" and "length src \<le> sb_remaining b" and "sb_head b < sb_tail b"
  shows "\<exists>b'. sb_read_from src b = Some b' \<and> sb_wf b' \<and>
    sb_content b' = sb_content b @ src \<and> sb_capacity b' = sb_capacity b"
proof -
  have "sb_head b + length src < sb_tail b" "sb_tail b < length (sb_buf b)"
      "length src \<le> length (sb_buf b) - sb_head b"
    using assms by (auto simp: sb_remaining_def sb_size_def sb_capacity_def sb_wf_def)
  then show ?thesis
    using assms(3) by (simp add: sb_read_from_def sb_wf_def sb_content_def sb_capacity_def
      Let_def slice_simps)
qed

lemma sb_read_from_flat:
  assumes "sb_wf b" and "length src \<le> sb_remaining b" and "sb_tail b \<le> sb_head b"
    and fits: "length src \<le> length (sb_buf b) - sb_head b"
  shows "\<exists>b'. sb_read_from src b = Some b' \<and> sb_wf b' \<and>
    sb_content b' = sb_content b @ src \<and> sb_capacity b' = sb_capacity b"
proof (cases "sb_head b + length src = length (sb_buf b)")
  case True
  then have "0 < sb_tail b"
    using assms by (auto simp: sb_remaining_def sb_size_def sb_capacity_def sb_wf_def)
  with True assms show ?thesis
    by (auto simp add: sb_read_from_def sb_wf_def sb_content_def sb_capacity_def Let_def slice_simps
      drop_take)
next
  case False
  then have "sb_head b + length src < length (sb_buf b)"
    using assms by (auto simp: sb_wf_def)
  with assms show ?thesis
    by (simp add: sb_read_from_def sb_wf_def sb_content_def sb_capacity_def Let_def slice_simps
      drop_take)
qed

lemma sb_read_from_wrap:
  assumes "sb_wf b" and "length src \<le> sb_remaining b" and "sb_tail b \<le> sb_head b"
    and over: "length (sb_buf b) - sb_head b < length src"
  shows "\<exists>b'. sb_read_from src b = Some b' \<and> sb_wf b' \<and>
    sb_content b' = sb_content b @ src \<and> sb_capacity b' = sb_capacity b"
proof -
  define L where "L = length (sb_buf b)"
  define k where "k = length src - (L - sb_head b)"
  let ?filled = "take (sb_head b) (sb_buf b) @ take (L - sb_head b) src"
  let ?buf = "drop (L - sb_head b) src @ drop k ?filled"
  have *: "sb_head b < L" "L - sb_head b < length src" "k < sb_tail b" "sb_tail b \<le> sb_head b"
    using assms by (auto simp: L_def k_def sb_remaining_def sb_size_def sb_capacity_def sb_wf_def)
  have m: "(sb_head b + length src) mod L = k"
    using * by (simp add: k_def le_mod_geq)
  have s1: "splice (sb_head b) (take (L - sb_head b) src) (sb_buf b) = Some ?filled"
    using * by (simp add: splice_def L_def [symmetric])
  have s2: "splice 0 (drop (L - sb_head b) src) ?filled = Some ?buf"
    using * by (simp add: splice_def k_def L_def [symmetric])
  have eq: "sb_read_from src b = Some (b\<lparr>sb_buf := ?buf, sb_head := k\<rparr>)"
    using * s1 s2 m by (simp add: sb_read_from_def Let_def L_def [symmetric])
  have "length ?buf = L" "length (drop (L - sb_head b) src) = k"
    using * by (simp_all add: k_def L_def [symmetric])
  then show ?thesis
    using eq * by (auto simp: sb_wf_def sb_content_def sb_capacity_def L_def [symmetric] drop_take)
qed

text \<open>The capacity never changes, and a write leaves the tail where it is.\<close>

lemma sb_capacity_read_from [frame_simps]:
  "sb_read_from src b = Some b' \<Longrightarrow> sb_capacity b' = sb_capacity b"
  by (auto simp: sb_read_from_def Let_def sb_capacity_def dest!: length_splice
      split: if_splits Option.bind_splits)

lemma sb_tail_read_from [frame_simps]: "sb_read_from src b = Some b' \<Longrightarrow> sb_tail b' = sb_tail b"
  by (auto simp: sb_read_from_def Let_def split: if_splits Option.bind_splits)

lemma sb_read_from_ok:
  assumes "sb_wf b" and "length src \<le> sb_remaining b"
  shows "\<exists>b'. sb_read_from src b = Some b' \<and> sb_wf b' \<and>
    sb_content b' = sb_content b @ src \<and> sb_capacity b' = sb_capacity b \<and> sb_tail b' = sb_tail b"
proof -
  obtain b' where "sb_read_from src b = Some b'" "sb_wf b'" "sb_content b' = sb_content b @ src"
    using sb_read_from_gap [OF assms] sb_read_from_flat [OF assms] sb_read_from_wrap [OF assms]
    by fastforce
  then show ?thesis using sb_capacity_read_from sb_tail_read_from by blast
qed

text \<open>A drain removes from the front exactly what the stream accepted.\<close>

lemma sb_write_to_run:
  assumes "sb_wf b" and "sb_head b \<noteq> sb_tail b"
  defines "run \<equiv> (if sb_tail b < sb_head b
    then take (sb_head b - sb_tail b) (drop (sb_tail b) (sb_buf b)) else drop (sb_tail b) (sb_buf b))"
  shows "stream_write run s = (Inl e, s') \<Longrightarrow> sb_write_to b s = Some (Inl e, b, s')"
    and "stream_write run s = (Inr w, s') \<Longrightarrow>
      \<exists>b'. sb_write_to b s = Some (Inr w, b', s') \<and> sb_wf b' \<and> w \<le> length run \<and>
        sb_content b' = drop w (sb_content b) \<and> take w run = take w (sb_content b) \<and>
        sb_capacity b' = sb_capacity b"
proof -
  show "sb_write_to b s = Some (Inl e, b, s')" if "stream_write run s = (Inl e, s')"
    using that assms by (auto simp: sb_write_to_def slice_simps sb_wf_def)
next
  assume w: "stream_write run s = (Inr w, s')"
  then have le: "w \<le> length run" by (rule stream_write_le)
  show "\<exists>b'. sb_write_to b s = Some (Inr w, b', s') \<and> sb_wf b' \<and> w \<le> length run \<and>
        sb_content b' = drop w (sb_content b) \<and> take w run = take w (sb_content b) \<and>
        sb_capacity b' = sb_capacity b"
  proof (cases "sb_tail b < sb_head b")
    case True
    let ?b = "b\<lparr>sb_tail := sb_tail b + w\<rparr>"
    have "sb_wf ?b" "sb_content ?b = drop w (sb_content b)"
      using assms(1) le True
      by (auto simp: sb_wf_def run_def sb_content_def drop_take ac_simps)
    moreover have "sb_write_to b s = Some (Inr w, sb_optimize ?b, s')"
      using True w assms(1) by (simp add: sb_write_to_def slice_simps run_def sb_wf_def)
    moreover have "take w run = take w (sb_content b)" "sb_capacity ?b = sb_capacity b"
      using True by (simp_all add: run_def sb_content_def sb_capacity_def)
    ultimately show ?thesis using le by auto
  next
    case False
    let ?b = "b\<lparr>sb_tail := (sb_tail b + w) mod length (sb_buf b)\<rparr>"
    have ht: "sb_head b < sb_tail b" using False assms(2) by simp
    have "sb_wf ?b" "sb_content ?b = drop w (sb_content b)"
      using assms(1) le False ht
      by (auto simp: sb_wf_def run_def sb_content_def le_less add.commute)
    moreover have "sb_write_to b s = Some (Inr w, sb_optimize ?b, s')"
      using ht w assms(1) by (simp add: sb_write_to_def slice_simps run_def sb_wf_def)
    moreover have "take w run = take w (sb_content b)" "sb_capacity ?b = sb_capacity b"
      using ht le by (simp_all add: run_def sb_content_def sb_capacity_def)
    ultimately show ?thesis using le by auto
  qed
qed

lemma sb_write_to_empty: "sb_is_empty b \<Longrightarrow> sb_write_to b s = Some (Inr 0, b, s)"
  by (simp add: sb_write_to_def sb_is_empty_def)


lemma sb_write_to_ok:
  assumes "sb_wf b"
  shows "\<exists>r b' s'. sb_write_to b s = Some (r, b', s') \<and> sb_wf b' \<and>
    sent_bytes s' @ sb_content b' = sent_bytes s @ sb_content b \<and> sb_capacity b' = sb_capacity b"
proof (cases "sb_head b = sb_tail b")
  case True
  then show ?thesis using assms by (simp add: sb_write_to_def)
next
  case False
  define run where "run = (if sb_tail b < sb_head b
    then take (sb_head b - sb_tail b) (drop (sb_tail b) (sb_buf b)) else drop (sb_tail b) (sb_buf b))"
  note run = sb_write_to_run [OF assms False, folded run_def]
  obtain r s' where w: "stream_write run s = (r, s')" by fastforce
  show ?thesis
  proof (cases r)
    case (Inl e)
    then show ?thesis using run(1) w assms by (auto dest: stream_write_error_sent)
  next
    case (Inr n)
    then obtain b' where b': "sb_write_to b s = Some (Inr n, b', s')" "sb_wf b'"
        "sb_content b' = drop n (sb_content b)" "take n run = take n (sb_content b)"
        "sb_capacity b' = sb_capacity b"
      using run(2) [of s n s'] w unfolding Inr by blast
    moreover have "sent s' = sent s @ [take n run]" using w Inr by (simp add: stream_write_sent)
    ultimately show ?thesis by auto
  qed
qed

interpretation sbq: byte_pipe sb_wf sb_content sb_remaining sb_read_from sb_write_to
proof (unfold_locales, goal_cases)
  case (1 q p)
  then show ?case using sb_read_from_ok [OF 1] by (auto simp: sb_remaining_content)
next
  case (2 q s)
  have "length (sb_content q') \<le> sb_capacity q'" if "sb_wf q'" for q'
    using sb_size_le_capacity [OF that] sb_size_content [OF that] by simp
  then show ?case using sb_write_to_ok [OF 2, of s] 2 by (fastforce simp: sb_remaining_content)
qed

end
