(* ===== verification/Connection.thy ===== *)
theory Connection
  imports Std_Fmt Ip_Packet Stream_Buffer
begin

text \<open>
  \<open>relay/connection.rs\<close>, \<open>relay/net.rs\<close>, and the outgoing side of \<open>relay/client.rs\<close> that the
  connections share: the buffer towards the device (\<open>SharedBuffer\<close>) and \<open>ClientChannel\<close>. The
  buffer is passed explicitly and returned updated; no borrow of it is ever held across a call,
  so \<open>try_borrow_mut\<close> succeeds.
\<close>

definition LOCALHOST_FORWARD_V4 :: u32 where
  "LOCALHOST_FORWARD_V4 = 0x0A000202"

record connection_id =
  ci_client_label :: string
  ci_protocol :: protocol
  ci_source_ip :: ip_addr
  ci_source_port :: u16
  ci_destination_ip :: ip_addr
  ci_destination_port :: u16
  ci_id_string :: string

definition to_socket_addr :: "ip_addr \<Rightarrow> u16 \<Rightarrow> socket_addr" where
  "to_socket_addr ip port = (ip, port)"

definition ci_from_headers ::
  "ip_header_data \<Rightarrow> transport_header_data \<Rightarrow> string \<Rightarrow> connection_id" where
  "ci_from_headers ip_header_data transport_header_data client_label =
     (let source_ip = hd_source ip_header_data;
          source_port = td_source_port transport_header_data;
          destination_ip = hd_destination ip_header_data;
          destination_port = td_destination_port transport_header_data
      in \<lparr>ci_client_label = client_label,
          ci_protocol = hd_protocol ip_header_data,
          ci_source_ip = source_ip,
          ci_source_port = source_port,
          ci_destination_ip = destination_ip,
          ci_destination_port = destination_port,
          ci_id_string = show_socket_addr (to_socket_addr source_ip source_port) @ '' -> '' @
            show_socket_addr (to_socket_addr destination_ip destination_port)\<rparr>)"

definition ci_rewritten_destination :: "connection_id \<Rightarrow> socket_addr" where
  "ci_rewritten_destination cid =
     (let ip = (case ci_destination_ip cid of
          IpV4 v4_raw \<Rightarrow>
            if v4_raw = LOCALHOST_FORWARD_V4 then IpV4 0x7F000001 else ci_destination_ip cid
        | _ \<Rightarrow> ci_destination_ip cid)
      in (ip, ci_destination_port cid))"

definition ci_fmt :: "connection_id \<Rightarrow> string" where
  "ci_fmt cid =
     (if ci_client_label cid = [] then ci_id_string cid
      else ''[Client '' @ ci_client_label cid @ ''] '' @ ci_id_string cid)"

subsection \<open>\<open>ClientChannel\<close> of \<open>relay/client.rs\<close>\<close>

text \<open>\<open>ClientChannel::send_to_client\<close>, \<open>Client::send_to_client\<close> and
  \<open>TcpConnection::send_packet_to_buffer\<close> have the same body.\<close>

definition send_to_client :: "ip_packet \<Rightarrow> stream_buffer \<Rightarrow> (unit io_result \<times> stream_buffer) option" where
  "send_to_client ip_packet buffer =
     (if unat (ip_length ip_packet) \<le> sb_remaining buffer
      then do { buffer' \<leftarrow> sb_read_from (ip_raw ip_packet) buffer; Some (Inr (), buffer') }
      else Some (Inl WouldBlock, buffer))"

definition send_raw_to_client :: "byte list \<Rightarrow> stream_buffer \<Rightarrow> (unit io_result \<times> stream_buffer) option" where
  "send_raw_to_client raw buffer =
     (if length raw \<le> sb_remaining buffer
      then do { buffer' \<leftarrow> sb_read_from raw buffer; Some (Inr (), buffer') }
      else Some (Inl WouldBlock, buffer))"

lemma packet_wf_length: "packet_wf p \<Longrightarrow> unat (ip_length p) = length (ip_raw p)"
  by (cases p) (auto simp: p4_length_def p6_length_def Let_def)

text \<open>A packet goes into the buffer whole or not at all.\<close>

definition appended :: "byte list \<Rightarrow> stream_buffer \<Rightarrow> stream_buffer \<Rightarrow> bool" where
  "appended raw b b' \<longleftrightarrow>
     sb_wf b' \<and> sb_content b' = sb_content b @ raw \<and> sb_capacity b' = sb_capacity b \<and>
     sb_tail b' = sb_tail b"

lemma send_raw_to_client_ok:
  assumes "sb_wf b"
  shows "(length raw \<le> sb_remaining b \<and>
      (\<exists>b'. send_raw_to_client raw b = Some (Inr (), b') \<and> appended raw b b')) \<or>
    (sb_remaining b < length raw \<and> send_raw_to_client raw b = Some (Inl WouldBlock, b))"
  using sb_read_from_ok [OF assms, of raw] by (auto simp: send_raw_to_client_def appended_def)

lemma send_to_client_ok:
  assumes "sb_wf b" "packet_wf p"
  shows "(length (ip_raw p) \<le> sb_remaining b \<and>
      (\<exists>b'. send_to_client p b = Some (Inr (), b') \<and> appended (ip_raw p) b b')) \<or>
    (sb_remaining b < length (ip_raw p) \<and> send_to_client p b = Some (Inl WouldBlock, b))"
  using sb_read_from_ok [OF assms(1), of "ip_raw p"] packet_wf_length [OF assms(2)]
  by (auto simp: send_to_client_def appended_def)

end
