(* ===== verification/Packetizer.thy ===== *)
theory Packetizer
  imports Ip_Packet Io
begin

text \<open>
  \<open>relay/packetizer.rs\<close>: turns payloads into packets for the client, by putting the headers of
  a reference packet, with source and destination swapped, in front of them. \<open>pk_wf\<close> is its
  invariant; the lemmas show that every packet it builds is well-formed, carries the payload,
  and is accepted by a receiver that verifies checksums.
\<close>

record packetizer =
  pk_buffer :: "byte list"
  pk_transport_index :: nat
  pk_payload_index :: nat
  pk_ip :: ip_header_data
  pk_transport :: transport_header_data

text \<open>\<open>xs[a..b].copy_from_slice(ys)\<close> panics when the lengths differ.\<close>

definition copy_from_slice :: "nat \<Rightarrow> nat \<Rightarrow> 'a list \<Rightarrow> 'a list \<Rightarrow> 'a list option" where
  "copy_from_slice a b ys xs =
     (if a \<le> b \<and> b \<le> length xs \<and> length ys = b - a then splice a ys xs else None)"

text \<open>The mutable borrows \<open>ip_header_mut\<close> and \<open>transport_header_mut\<close>: the header with its bytes
  taken from the buffer, and its bytes and data written back.\<close>

definition pk_ip_header_mut :: "packetizer \<Rightarrow> ip_header option" where
  "pk_ip_header_mut pk = do {
     raw \<leftarrow> slice 0 (pk_transport_index pk) (pk_buffer pk);
     Some (ih_bind raw (pk_ip pk))
   }"

definition pk_put_ip_header :: "ip_header \<Rightarrow> packetizer \<Rightarrow> packetizer option" where
  "pk_put_ip_header h pk = do {
     buf \<leftarrow> splice 0 (ih_raw h) (pk_buffer pk);
     Some (pk\<lparr>pk_buffer := buf, pk_ip := ih_data_clone h\<rparr>)
   }"

definition pk_transport_header_mut :: "packetizer \<Rightarrow> transport_header option" where
  "pk_transport_header_mut pk = do {
     raw \<leftarrow> slice (pk_transport_index pk) (pk_payload_index pk) (pk_buffer pk);
     Some (td_bind raw (pk_transport pk))
   }"

definition pk_put_transport_header :: "transport_header \<Rightarrow> packetizer \<Rightarrow> packetizer option" where
  "pk_put_transport_header h pk = do {
     buf \<leftarrow> splice (pk_transport_index pk) (t_raw h) (pk_buffer pk);
     Some (pk\<lparr>pk_buffer := buf, pk_transport := t_data_clone h\<rparr>)
   }"

text \<open>\<open>pk_edit_ip f\<close> is \<open>f(self.ip_header_mut())\<close>.\<close>

definition pk_edit_ip ::
  "(ip_header \<Rightarrow> ip_header option) \<Rightarrow> packetizer \<Rightarrow> packetizer option" where
  "pk_edit_ip f pk = do { h \<leftarrow> pk_ip_header_mut pk; h' \<leftarrow> f h; pk_put_ip_header h' pk }"

definition pk_edit_transport ::
  "(transport_header \<Rightarrow> transport_header option) \<Rightarrow> packetizer \<Rightarrow> packetizer option" where
  "pk_edit_transport f pk =
     do { h \<leftarrow> pk_transport_header_mut pk; h' \<leftarrow> f h; pk_put_transport_header h' pk }"

definition packetizer_new :: "ip_header \<Rightarrow> transport_header \<Rightarrow> packetizer option" where
  "packetizer_new reference_ip_header reference_transport_header =
     (let transport_index = unat (ih_header_length reference_ip_header);
          payload_index = transport_index + unat (t_header_length reference_transport_header);
          buffer = replicate MAX_PACKET_LENGTH 0
      in do {
        buf1 \<leftarrow> copy_from_slice 0 transport_index (ih_raw reference_ip_header) buffer;
        buf2 \<leftarrow> copy_from_slice transport_index payload_index
          (t_raw reference_transport_header) buf1;
        let pk = \<lparr>pk_buffer = buf2, pk_transport_index = transport_index,
                  pk_payload_index = payload_index,
                  pk_ip = ih_data_clone reference_ip_header,
                  pk_transport = t_data_clone reference_transport_header\<rparr>;
        pk1 \<leftarrow> pk_edit_ip ih_swap_source_and_destination pk;
        pk_edit_transport t_swap_source_and_destination pk1
      })"

fun packet_new :: "byte list \<Rightarrow> ip_header_data \<Rightarrow> transport_header_data \<Rightarrow> ip_packet" where
  "packet_new raw (HdV4 v4) td = PkV4 (ipv4_packet_new raw v4 td)"
| "packet_new raw (HdV6 v6) td = PkV6 (ipv6_packet_new raw v6 td)"

definition pk_build :: "u16 \<Rightarrow> packetizer \<Rightarrow> (ip_packet \<times> packetizer) option" where
  "pk_build payload_length pk =
     (let total_length = of_nat (pk_payload_index pk) + payload_length in do {
        pk1 \<leftarrow> pk_edit_ip (ih_set_total_length total_length) pk;
        pk2 \<leftarrow> pk_edit_transport (t_set_payload_length payload_length) pk1;
        raw \<leftarrow> slice 0 (unat total_length) (pk_buffer pk2);
        p \<leftarrow> ip_compute_checksums (packet_new raw (pk_ip pk2) (pk_transport pk2));
        buf \<leftarrow> splice 0 (ip_raw p) (pk_buffer pk2);
        Some (p, pk2\<lparr>pk_buffer := buf\<rparr>)
      })"

definition packetize_empty_payload :: "packetizer \<Rightarrow> (ip_packet \<times> packetizer) option" where
  "packetize_empty_payload = pk_build 0"

text \<open>\<open>&mut self.buffer[self.payload_index..]\<close> is where the payload is received.\<close>

definition pk_store_payload :: "byte list \<Rightarrow> packetizer \<Rightarrow> packetizer option" where
  "pk_store_payload bs pk = do {
     buf \<leftarrow> splice (pk_payload_index pk) bs (pk_buffer pk);
     Some (pk\<lparr>pk_buffer := buf\<rparr>)
   }"

definition packetize ::
  "stream \<Rightarrow> packetizer \<Rightarrow> (ip_packet io_result \<times> stream \<times> packetizer) option" where
  "packetize source pk =
     (if length (pk_buffer pk) < pk_payload_index pk then None
      else case dgram_recv (length (pk_buffer pk) - pk_payload_index pk) source of
        (Inl e, source') \<Rightarrow> Some (Inl e, source', pk)
      | (Inr bs, source') \<Rightarrow> do {
          pk1 \<leftarrow> pk_store_payload bs pk;
          (ip_packet, pk2) \<leftarrow> pk_build (of_nat (length bs)) pk1;
          Some (Inr ip_packet, source', pk2)
        })"

definition packetize_read ::
  "stream \<Rightarrow> nat option \<Rightarrow> packetizer \<Rightarrow>
   (ip_packet option io_result \<times> stream \<times> packetizer) option" where
  "packetize_read source max_chunk_size pk =
     (if length (pk_buffer pk) < pk_payload_index pk then None
      else case read_adapter_recv max_chunk_size (length (pk_buffer pk) - pk_payload_index pk) source of
        (Inl e, source') \<Rightarrow> Some (Inl e, source', pk)
      | (Inr bs, source') \<Rightarrow>
          if 0 < length bs then do {
            pk1 \<leftarrow> pk_store_payload bs pk;
            (ip_packet, pk2) \<leftarrow> pk_build (of_nat (length bs)) pk1;
            Some (Inr (Some ip_packet), source', pk2)
          } else Some (Inr None, source', pk))"

definition pk_inflate :: "u16 \<Rightarrow> packetizer \<Rightarrow> ip_packet option" where
  "pk_inflate packet_length pk = do {
     raw \<leftarrow> slice 0 (unat packet_length) (pk_buffer pk);
     Some (packet_new raw (pk_ip pk) (pk_transport pk))
   }"

subsection \<open>Bound headers, whatever the protocol\<close>

definition ih_bound :: "ip_header \<Rightarrow> bool" where
  "ih_bound h \<longleftrightarrow> hd_reparse (ih_data_clone h) (ih_raw h) = Some (ih_data_clone h)"

fun transport_header_ok :: "transport_header_data \<Rightarrow> byte list \<Rightarrow> bool" where
  "transport_header_ok (TdTcp d) b \<longleftrightarrow>
     20 \<le> unat (tcp_header_length d) \<and> length b = unat (tcp_header_length d) \<and>
     tcp_parse b = Some d"
| "transport_header_ok (TdUdp d) b \<longleftrightarrow> length b = 8 \<and> udp_parse b = Some d"

lemma ih_bind_simps [simp]:
  "ih_raw (ih_bind raw d) = raw" "ih_data_clone (ih_bind raw d) = d"
  by (cases d; simp)+

lemma td_bind_simps [simp]:
  "t_raw (td_bind raw d) = raw" "t_data_clone (td_bind raw d) = d"
  by (cases d; simp)+

lemma segment_wf_split:
  "segment_wf td seg \<longleftrightarrow> unat (td_header_length td) \<le> length seg \<and>
     transport_header_ok td (take (unat (td_header_length td)) seg)"
  by (cases td) auto

lemma packet_wf_new:
  "packet_wf (packet_new raw d td) \<longleftrightarrow>
     (let hl = unat (hd_header_length d) in
        20 \<le> hl \<and> hl \<le> length raw \<and> hd_reparse d (take hl raw) = Some d \<and>
        unat (hd_total_length d) = length raw \<and> segment_wf td (drop hl raw))"
  by (cases d) (auto simp: Let_def ipv4_packet_new_def ipv6_packet_new_def)

lemma ip_packet_new_simps [simp]:
  "ip_raw (packet_new raw d td) = raw"
  "ip_headers_data (packet_new raw d td) = (d, Some td)"
  by (cases d; simp add: ipv4_packet_new_def ipv6_packet_new_def)+

lemma ip_payload_new:
  assumes "unat (hd_header_length d) + unat (td_header_length td) \<le> length raw"
  shows "ip_payload (packet_new raw d td) =
    Some (Some (drop (unat (hd_header_length d) + unat (td_header_length td)) raw))"
  using assms by (cases d) (auto simp: ipv4_packet_new_def ipv6_packet_new_def p4_payload_def
    p6_payload_def slice_Some)

text \<open>What an edit of the IP header may change.\<close>

definition same_flow :: "ip_header_data \<Rightarrow> ip_header_data \<Rightarrow> bool" where
  "same_flow d d' \<longleftrightarrow> hd_source d' = hd_source d \<and> hd_destination d' = hd_destination d \<and>
     hd_protocol d' = hd_protocol d \<and> hd_header_length d' = hd_header_length d \<and>
     hd_is_v6 d' = hd_is_v6 d"

lemma ih_set_total_length_ok:
  assumes "ih_bound h"
  shows "\<exists>h'. ih_set_total_length n h = Some h' \<and> ih_bound h' \<and>
    length (ih_raw h') = length (ih_raw h) \<and> hd_total_length (ih_data_clone h') = n \<and>
    same_flow (ih_data_clone h) (ih_data_clone h')"
proof (cases h)
  case (IhV4 g)
  then have "ipv4_parse (h4_raw g) = Some (h4_data g)" using assms by (simp add: ih_bound_def)
  then obtain g' where "ipv4_set_total_length n g = Some g'"
    "ipv4_parse (h4_raw g') = Some (h4_data g')"
    "h4_data g' = (h4_data g)\<lparr>v4_total_length := n\<rparr>" "length (h4_raw g') = length (h4_raw g)"
    by (rule v4_total.setE [OF _ TrueI])
  then show ?thesis using IhV4 by (simp add: ih_bound_def same_flow_def)
next
  case (IhV6 g)
  then have "ipv6_parse (h6_raw g) = Some (h6_data g)" using assms by (simp add: ih_bound_def)
  then obtain g' where "ipv6_set_payload_length (n - ucast IPV6_HEADER_LENGTH) g = Some g'"
    "ipv6_parse (h6_raw g') = Some (h6_data g')"
    "h6_data g' = (h6_data g)\<lparr>v6_payload_length := n - ucast IPV6_HEADER_LENGTH\<rparr>"
    "length (h6_raw g') = length (h6_raw g)"
    by (rule v6_payload.setE [OF _ TrueI])
  then show ?thesis using IhV6 by (simp add: ih_bound_def same_flow_def ipv6_total_length_def)
qed

lemma ih_swap_ok:
  assumes "ih_bound h"
  shows "\<exists>h'. ih_swap_source_and_destination h = Some h' \<and> ih_bound h' \<and>
    length (ih_raw h') = length (ih_raw h) \<and>
    hd_source (ih_data_clone h') = hd_destination (ih_data_clone h) \<and>
    hd_destination (ih_data_clone h') = hd_source (ih_data_clone h) \<and>
    hd_protocol (ih_data_clone h') = hd_protocol (ih_data_clone h) \<and>
    hd_header_length (ih_data_clone h') = hd_header_length (ih_data_clone h) \<and>
    hd_is_v6 (ih_data_clone h') = hd_is_v6 (ih_data_clone h)"
proof (cases h)
  case (IhV4 g)
  then have "ipv4_bound g" using assms by (simp add: ih_bound_def ipv4_bound_def)
  from ipv4_swap_ok [OF this] show ?thesis using IhV4 by (auto simp: ih_bound_def ipv4_bound_def)
next
  case (IhV6 g)
  then have "ipv6_bound g" using assms by (simp add: ih_bound_def ipv6_bound_def)
  from ipv6_swap_ok [OF this] show ?thesis using IhV6 by (auto simp: ih_bound_def ipv6_bound_def)
qed

lemma t_swap_ok:
  assumes "transport_header_ok (t_data_clone h) (t_raw h)"
  shows "\<exists>h'. t_swap_source_and_destination h = Some h' \<and>
    transport_header_ok (t_data_clone h') (t_raw h') \<and> length (t_raw h') = length (t_raw h) \<and>
    td_source_port (t_data_clone h') = td_destination_port (t_data_clone h) \<and>
    td_destination_port (t_data_clone h') = td_source_port (t_data_clone h) \<and>
    td_header_length (t_data_clone h') = td_header_length (t_data_clone h) \<and>
    td_is_udp (t_data_clone h') = td_is_udp (t_data_clone h)"
proof (cases h)
  case (TTcp g)
  then have "tcp_bound g" using assms by (simp add: tcp_bound_def)
  from tcp_swap_ok [OF this] show ?thesis using TTcp assms by (auto simp: tcp_bound_def)
next
  case (TUdp g)
  then have "udp_bound g" using assms by (simp add: udp_bound_def)
  from udp_swap_ok [OF this] show ?thesis using TUdp assms by (auto simp: udp_bound_def)
qed

lemma t_set_payload_length_ok:
  assumes "transport_header_ok (t_data_clone h) (t_raw h)"
  shows "\<exists>h'. t_set_payload_length n h = Some h' \<and>
    transport_header_ok (t_data_clone h') (t_raw h') \<and> length (t_raw h') = length (t_raw h) \<and>
    t_data_clone h' = t_data_clone h"
proof (cases h)
  case (TUdp g)
  then show ?thesis
    using assms by (auto simp: udp_set_payload_length_def slice_simps udp_parse_eq Let_def)
qed (use assms in simp)

subsection \<open>The invariant\<close>

definition pk_wf :: "packetizer \<Rightarrow> bool" where
  "pk_wf pk \<longleftrightarrow>
     length (pk_buffer pk) = MAX_PACKET_LENGTH \<and>
     unat (hd_header_length (pk_ip pk)) = pk_transport_index pk \<and> 20 \<le> pk_transport_index pk \<and>
     pk_transport_index pk + unat (td_header_length (pk_transport pk)) = pk_payload_index pk \<and>
     hd_reparse (pk_ip pk) (take (pk_transport_index pk) (pk_buffer pk)) = Some (pk_ip pk) \<and>
     transport_header_ok (pk_transport pk)
       (take (unat (td_header_length (pk_transport pk)))
         (drop (pk_transport_index pk) (pk_buffer pk)))"

definition pk_same_shape :: "packetizer \<Rightarrow> packetizer \<Rightarrow> bool" where
  "pk_same_shape pk pk' \<longleftrightarrow>
     pk_transport_index pk' = pk_transport_index pk \<and> pk_payload_index pk' = pk_payload_index pk"

lemma pk_wf_bounds:
  assumes "pk_wf pk"
  shows "pk_transport_index pk < 256" "pk_payload_index pk < 512"
    "pk_transport_index pk \<le> pk_payload_index pk"
    "length (pk_buffer pk) = 65536"
proof -
  have "unat (hd_header_length (pk_ip pk)) < 256" "unat (td_header_length (pk_transport pk)) < 256"
    by (rule unat_byte_less)+
  moreover have "unat (hd_header_length (pk_ip pk)) = pk_transport_index pk"
    "pk_transport_index pk + unat (td_header_length (pk_transport pk)) = pk_payload_index pk"
    "length (pk_buffer pk) = 65536"
    using assms by (simp_all add: pk_wf_def MAX_PACKET_LENGTH_def)
  ultimately show "pk_transport_index pk < 256" "pk_payload_index pk < 512"
    "pk_transport_index pk \<le> pk_payload_index pk" "length (pk_buffer pk) = 65536"
    by linarith+
qed

lemma pk_edit_ip_ok:
  assumes wf: "pk_wf pk"
    and f: "f (ih_bind (take (pk_transport_index pk) (pk_buffer pk)) (pk_ip pk)) = Some h'"
    and h': "ih_bound h'" "length (ih_raw h') = pk_transport_index pk"
      "hd_header_length (ih_data_clone h') = hd_header_length (pk_ip pk)"
  shows "\<exists>pk'. pk_edit_ip f pk = Some pk' \<and> pk_wf pk' \<and> pk_same_shape pk pk' \<and>
    pk_ip pk' = ih_data_clone h' \<and> pk_transport pk' = pk_transport pk \<and>
    drop (pk_transport_index pk) (pk_buffer pk') = drop (pk_transport_index pk) (pk_buffer pk)"
  using pk_wf_bounds [OF wf] wf f h'
  by (simp add: pk_edit_ip_def pk_ip_header_mut_def pk_put_ip_header_def slice_Some splice_Some
    pk_wf_def pk_same_shape_def ih_bound_def)

lemma pk_edit_transport_ok:
  assumes wf: "pk_wf pk"
    and f: "f (td_bind (take (unat (td_header_length (pk_transport pk)))
      (drop (pk_transport_index pk) (pk_buffer pk))) (pk_transport pk)) = Some h'"
    and h': "transport_header_ok (t_data_clone h') (t_raw h')"
      "td_header_length (t_data_clone h') = td_header_length (pk_transport pk)"
      "length (t_raw h') = unat (td_header_length (pk_transport pk))"
  shows "\<exists>pk'. pk_edit_transport f pk = Some pk' \<and> pk_wf pk' \<and> pk_same_shape pk pk' \<and>
    pk_ip pk' = pk_ip pk \<and> pk_transport pk' = t_data_clone h' \<and>
    drop (pk_payload_index pk) (pk_buffer pk') = drop (pk_payload_index pk) (pk_buffer pk)"
proof -
  have d: "pk_payload_index pk - pk_transport_index pk = unat (td_header_length (pk_transport pk))"
    using wf by (auto simp: pk_wf_def)
  show ?thesis
    using pk_wf_bounds [OF wf] wf f h'
    by (simp add: pk_edit_transport_def pk_transport_header_mut_def pk_put_transport_header_def
      slice_Some splice_Some pk_wf_def pk_same_shape_def d) linarith
qed

lemma transport_header_ok_length:
  "transport_header_ok td b \<Longrightarrow> length b = unat (td_header_length td)"
  by (cases td) auto

lemma pk_wf_headers:
  assumes "pk_wf pk"
  shows "ih_bound (ih_bind (take (pk_transport_index pk) (pk_buffer pk)) (pk_ip pk))"
    and "length (take (pk_transport_index pk) (pk_buffer pk)) = pk_transport_index pk"
    and "transport_header_ok (pk_transport pk) (take (unat (td_header_length (pk_transport pk)))
      (drop (pk_transport_index pk) (pk_buffer pk)))"
proof -
  show "length (take (pk_transport_index pk) (pk_buffer pk)) = pk_transport_index pk"
    using pk_wf_bounds(1,4) [OF assms] by simp
qed (use assms in \<open>simp_all add: pk_wf_def ih_bound_def\<close>)

lemma pk_set_total_length:
  assumes "pk_wf pk"
  obtains pk' where "pk_edit_ip (ih_set_total_length n) pk = Some pk'" "pk_wf pk'"
    "pk_same_shape pk pk'" "hd_total_length (pk_ip pk') = n" "same_flow (pk_ip pk) (pk_ip pk')"
    "pk_transport pk' = pk_transport pk"
    "drop (pk_transport_index pk) (pk_buffer pk') = drop (pk_transport_index pk) (pk_buffer pk)"
proof -
  from ih_set_total_length_ok [OF pk_wf_headers(1) [OF assms], of n] obtain h' where
    h': "ih_set_total_length n
        (ih_bind (take (pk_transport_index pk) (pk_buffer pk)) (pk_ip pk)) = Some h'"
      "ih_bound h'" "length (ih_raw h') = pk_transport_index pk"
      "hd_total_length (ih_data_clone h') = n" "same_flow (pk_ip pk) (ih_data_clone h')"
    using pk_wf_headers(2) [OF assms] by (auto simp del: length_take)
  then show ?thesis
    using pk_edit_ip_ok [of pk "ih_set_total_length n", OF assms h'(1-3)] that by (auto simp: same_flow_def)
qed

lemma pk_set_payload_length:
  assumes "pk_wf pk"
  obtains pk' where "pk_edit_transport (t_set_payload_length n) pk = Some pk'" "pk_wf pk'"
    "pk_same_shape pk pk'" "pk_ip pk' = pk_ip pk" "pk_transport pk' = pk_transport pk"
    "drop (pk_payload_index pk) (pk_buffer pk') = drop (pk_payload_index pk) (pk_buffer pk)"
proof -
  let ?b = "take (unat (td_header_length (pk_transport pk)))
      (drop (pk_transport_index pk) (pk_buffer pk))"
  have ok: "transport_header_ok (t_data_clone (td_bind ?b (pk_transport pk)))
      (t_raw (td_bind ?b (pk_transport pk)))"
    using pk_wf_headers(3) [OF assms] by simp
  from t_set_payload_length_ok [OF this, of n] obtain h' where
    h': "t_set_payload_length n (td_bind ?b (pk_transport pk)) = Some h'"
      "transport_header_ok (t_data_clone h') (t_raw h')" "t_data_clone h' = pk_transport pk"
    by auto
  then show ?thesis
    using pk_edit_transport_ok [of pk "t_set_payload_length n", OF assms h'(1,2)] that
    by (auto simp: transport_header_ok_length [OF h'(2)])
qed

subsection \<open>Building a packet\<close>

text \<open>The packet the packetizer hands out for a payload of \<open>n\<close> bytes already in place.\<close>

lemma take_drop_payload:
  assumes "a \<le> b"
  shows "drop a (take b xs) = take (b - a) (drop a xs)"
  by (simp add: drop_take)

lemma checksummed_packet_new:
  assumes "checksummed (packet_new raw d td) p"
  shows "packet_wf p" "ip_headers_data p = (d, Some td)" "length (ip_raw p) = length raw"
    "ip_payload p = ip_payload (packet_new raw d td)"
    "receiver_accepts p \<or> hd_is_v6 d \<and> td_is_udp td"
  using assms by (auto simp: checksummed_def udp_over_ipv6_def)

lemma packet_new_eta:
  "ip_headers_data p = (d, Some td) \<Longrightarrow> packet_new (ip_raw p) d td = p"
  by (cases p) (auto simp: ipv4_packet_new_def ipv6_packet_new_def)

definition built :: "packetizer \<Rightarrow> byte list \<Rightarrow> ip_packet \<Rightarrow> bool" where
  "built pk payload p \<longleftrightarrow>
     packet_wf p \<and> ip_payload p = Some (Some payload) \<and>
     length (ip_raw p) = pk_payload_index pk + length payload \<and>
     same_flow (pk_ip pk) (fst (ip_headers_data p)) \<and>
     snd (ip_headers_data p) = Some (pk_transport pk) \<and>
     (receiver_accepts p \<or> hd_is_v6 (pk_ip pk) \<and> td_is_udp (pk_transport pk))"

lemma pk_build_ok:
  assumes wf: "pk_wf pk" and n: "pk_payload_index pk + unat n < 65536"
  obtains p pk' where "pk_build n pk = Some (p, pk')"
    "built pk (take (unat n) (drop (pk_payload_index pk) (pk_buffer pk))) p"
    "pk_wf pk'" "pk_same_shape pk pk'" "pk_transport pk' = pk_transport pk"
    "pk_ip pk' = fst (ip_headers_data p)" "ip_raw p = take (length (ip_raw p)) (pk_buffer pk')"
    "drop (pk_payload_index pk) (pk_buffer pk') = drop (pk_payload_index pk) (pk_buffer pk)"
proof -
  let ?ti = "pk_transport_index pk" and ?pi = "pk_payload_index pk"
  define total :: u16 where "total = of_nat ?pi + n"
  have "unat (of_nat ?pi :: u16) = ?pi" using n by simp
  then have total: "unat total = ?pi + unat n" using n by (simp add: total_def unat_word_ariths)
  obtain pk1 where 1: "pk_edit_ip (ih_set_total_length total) pk = Some pk1" "pk_wf pk1"
    "pk_same_shape pk pk1" "hd_total_length (pk_ip pk1) = total" "same_flow (pk_ip pk) (pk_ip pk1)"
    "pk_transport pk1 = pk_transport pk" "drop ?ti (pk_buffer pk1) = drop ?ti (pk_buffer pk)"
    by (rule pk_set_total_length [OF wf])
  obtain pk2 where 2: "pk_edit_transport (t_set_payload_length n) pk1 = Some pk2" "pk_wf pk2"
    "pk_same_shape pk1 pk2" "pk_ip pk2 = pk_ip pk1" "pk_transport pk2 = pk_transport pk1"
    "drop (pk_payload_index pk1) (pk_buffer pk2) = drop (pk_payload_index pk1) (pk_buffer pk1)"
    by (rule pk_set_payload_length [OF 1(2)])
  let ?raw = "take (unat total) (pk_buffer pk2)"
  let ?q = "packet_new ?raw (pk_ip pk2) (pk_transport pk2)"
  note b = pk_wf_bounds [OF 2(2)]
  have shape: "pk_transport_index pk2 = ?ti" "pk_payload_index pk2 = ?pi"
    using 1(3) 2(3) by (simp_all add: pk_same_shape_def)
  have le: "?ti \<le> ?pi" and eqs: "unat (hd_header_length (pk_ip pk2)) = ?ti"
    "?ti + unat (td_header_length (pk_transport pk2)) = ?pi" "20 \<le> ?ti"
    using pk_wf_bounds(3) [OF wf] 2(2) shape by (simp_all add: pk_wf_def)
  have len: "length ?raw = unat total" using total n b(4) by simp
  let ?tl = "unat (td_header_length (pk_transport pk2))"
  have "?ti \<le> unat total" "?tl \<le> unat total - ?ti" "unat total - ?pi = unat n" "?pi \<le> unat total"
    using total eqs by linarith+
  note ord = this
  have hdr: "take ?ti ?raw = take ?ti (pk_buffer pk2)"
    "take ?tl (drop ?ti ?raw) = take ?tl (drop ?ti (pk_buffer pk2))"
    using ord by (simp_all add: drop_take min_absorb1)
  have "?tl \<le> length (drop ?ti ?raw)" using len ord by simp
  then have wfq: "packet_wf ?q"
    using 2(2) shape eqs ord 1(4) 2(4)
    by (simp add: packet_wf_new Let_def pk_wf_def segment_wf_split hdr len del: take_take length_take)
  have pay: "drop ?pi (pk_buffer pk2) = drop ?pi (pk_buffer pk)"
  proof -
    have "drop ?pi xs = drop (?pi - ?ti) (drop ?ti xs)" for xs :: "byte list" using le by simp
    then have "drop ?pi (pk_buffer pk1) = drop ?pi (pk_buffer pk)" by (simp only: 1(7))
    then show ?thesis using 2(6) 1(3) by (simp add: pk_same_shape_def)
  qed
  have pl: "ip_payload ?q = Some (Some (take (unat n) (drop ?pi (pk_buffer pk))))"
    using ip_payload_new [of "pk_ip pk2" "pk_transport pk2" ?raw] eqs ord len
    by (simp add: drop_take pay del: length_take)
  obtain p where p: "ip_compute_checksums ?q = Some p" "checksummed ?q p"
    by (rule compute_checksums_ok [OF wfq])
  note c = checksummed_packet_new [OF p(2)]
  let ?pk' = "pk2\<lparr>pk_buffer := ip_raw p @ drop (unat total) (pk_buffer pk2)\<rparr>"
  have lp: "length (ip_raw p) = unat total" using c(3) len by simp
  have run: "pk_build n pk = Some (p, ?pk')"
    using 1(1) 2(1) p(1) lp total n b(4)
    by (simp add: pk_build_def total_def [symmetric] slice_Some splice_Some del: take_take)
  have "packet_wf (packet_new (ip_raw p) (pk_ip pk2) (pk_transport pk2))"
    using c(1) packet_new_eta [OF c(2)] by simp
  then have hp: "hd_reparse (pk_ip pk2) (take ?ti (ip_raw p)) = Some (pk_ip pk2)"
    "transport_header_ok (pk_transport pk2) (take ?tl (drop ?ti (ip_raw p)))"
    unfolding packet_wf_new Let_def segment_wf_split eqs(1) by blast+
  have "pk_wf ?pk'"
    using 2(2) shape eqs ord lp hp total n b(4)
    by (simp add: pk_wf_def)
  moreover have "built pk (take (unat n) (drop ?pi (pk_buffer pk))) p"
    using c pl lp total 1(5,6) 2(4,5) n b(4) pk_wf_bounds(4) [OF wf]
    by (auto simp: built_def same_flow_def)
  moreover have "drop ?pi (pk_buffer ?pk') = drop ?pi (pk_buffer pk)"
  proof -
    have "ip_payload p = Some (Some (drop ?pi (ip_raw p)))"
      using ip_payload_new [of "pk_ip pk2" "pk_transport pk2" "ip_raw p"] packet_new_eta [OF c(2)]
        eqs ord lp by simp
    then have "drop ?pi (ip_raw p) = take (unat n) (drop ?pi (pk_buffer pk))" using c(4) pl by simp
    moreover have "drop (unat total) (pk_buffer pk2) = drop (unat n) (drop ?pi (pk_buffer pk))"
      using total pay by (metis add.commute drop_drop)
    ultimately show ?thesis using ord lp by (simp del: drop_drop)
  qed
  ultimately show ?thesis
    using that [OF run] shape 1(6) 2(5) c(2) lp total
    by (simp add: pk_same_shape_def)
qed

lemma pk_store_payload_ok:
  assumes wf: "pk_wf pk" and n: "pk_payload_index pk + length bs \<le> MAX_PACKET_LENGTH"
  obtains pk' where "pk_store_payload bs pk = Some pk'" "pk_wf pk'" "pk_same_shape pk pk'"
    "pk_ip pk' = pk_ip pk" "pk_transport pk' = pk_transport pk"
    "take (length bs) (drop (pk_payload_index pk) (pk_buffer pk')) = bs"
proof -
  let ?ti = "pk_transport_index pk" and ?pi = "pk_payload_index pk"
  let ?buf = "take ?pi (pk_buffer pk) @ bs @ drop (?pi + length bs) (pk_buffer pk)"
  note b = pk_wf_bounds [OF wf]
  have s: "pk_store_payload bs pk = Some (pk\<lparr>pk_buffer := ?buf\<rparr>)"
    using n b by (simp add: pk_store_payload_def splice_Some MAX_PACKET_LENGTH_def)
  have tl: "unat (td_header_length (pk_transport pk)) = ?pi - ?ti"
    using wf by (auto simp: pk_wf_def)
  have "take ?ti ?buf = take ?ti (pk_buffer pk)"
    "take (?pi - ?ti) (drop ?ti ?buf) = take (?pi - ?ti) (drop ?ti (pk_buffer pk))"
    "length ?buf = length (pk_buffer pk)" "take (length bs) (drop ?pi ?buf) = bs"
    using b n by (simp_all add: MAX_PACKET_LENGTH_def drop_take)
  then show ?thesis
    using that [OF s] wf tl by (simp add: pk_wf_def pk_same_shape_def del: drop_append take_append)
qed

text \<open>Receiving a payload and building the packet for it.\<close>

lemma pk_store_and_build_ok:
  assumes wf: "pk_wf pk" and n: "pk_payload_index pk + length bs < MAX_PACKET_LENGTH"
  obtains p pk' where
    "(do { pk1 \<leftarrow> pk_store_payload bs pk; pk_build (of_nat (length bs)) pk1 }) = Some (p, pk')"
    "built pk bs p" "pk_wf pk'" "pk_same_shape pk pk'" "pk_transport pk' = pk_transport pk"
    "pk_ip pk' = fst (ip_headers_data p)" "ip_raw p = take (length (ip_raw p)) (pk_buffer pk')"
proof -
  obtain pk1 where 1: "pk_store_payload bs pk = Some pk1" "pk_wf pk1" "pk_same_shape pk pk1"
    "pk_ip pk1 = pk_ip pk" "pk_transport pk1 = pk_transport pk"
    "take (length bs) (drop (pk_payload_index pk) (pk_buffer pk1)) = bs"
    by (rule pk_store_payload_ok [OF wf less_imp_le [OF n]])
  have "unat (of_nat (length bs) :: u16) = length bs" using n by (simp add: MAX_PACKET_LENGTH_def)
  moreover from this have "pk_payload_index pk1 + unat (of_nat (length bs) :: u16) < 65536"
    using n 1(3) by (simp add: pk_same_shape_def MAX_PACKET_LENGTH_def)
  then obtain p pk2 where 2: "pk_build (of_nat (length bs)) pk1 = Some (p, pk2)"
    "built pk1 (take (unat (of_nat (length bs) :: u16))
      (drop (pk_payload_index pk1) (pk_buffer pk1))) p"
    "pk_wf pk2" "pk_same_shape pk1 pk2" "pk_transport pk2 = pk_transport pk1"
    "pk_ip pk2 = fst (ip_headers_data p)" "ip_raw p = take (length (ip_raw p)) (pk_buffer pk2)"
    by (rule pk_build_ok [OF 1(2)])
  ultimately have "take (unat (of_nat (length bs) :: u16))
      (drop (pk_payload_index pk1) (pk_buffer pk1)) = bs"
    using 1(3,6) by (simp add: pk_same_shape_def)
  then have "built pk1 bs p" using 2(2) by (simp only:)
  then have "built pk bs p" using 1(3-5) unfolding built_def pk_same_shape_def by metis
  then show ?thesis
    using 1 2 that by (auto simp: pk_same_shape_def)
qed

text \<open>After \<open>inflate\<close> with the length of the packet just built, the packet is the same again.\<close>

lemma pk_inflate_built:
  assumes "built pk bs p" "ip_raw p = take (length (ip_raw p)) (pk_buffer pk')"
    "pk_ip pk' = fst (ip_headers_data p)" "pk_transport pk' = pk_transport pk"
    "unat n = length (ip_raw p)" "length (ip_raw p) \<le> length (pk_buffer pk')"
  shows "pk_inflate n pk' = Some p"
proof -
  have "ip_headers_data p = (pk_ip pk', Some (pk_transport pk'))"
    using assms(1,3,4) by (auto simp: built_def prod_eq_iff)
  from packet_new_eta [OF this] show ?thesis
    using assms by (simp add: pk_inflate_def slice_Some)
qed

subsection \<open>A new packetizer\<close>

lemma take_drop_splice:
  assumes "length ys = n" "a + n \<le> length xs"
  shows "take n (drop a (take a xs @ ys @ drop (a + n) xs)) = ys"
  using assms by simp

lemma packetizer_new_ok:
  assumes ip: "ih_bound ih" "length (ih_raw ih) = unat (ih_header_length ih)" "20 \<le> length (ih_raw ih)"
    and t: "transport_header_ok (t_data_clone th) (t_raw th)"
  obtains pk where "packetizer_new ih th = Some pk" "pk_wf pk"
    "pk_transport_index pk = unat (ih_header_length ih)"
    "pk_payload_index pk = unat (ih_header_length ih) + unat (t_header_length th)"
    "hd_source (pk_ip pk) = ih_destination ih" "hd_destination (pk_ip pk) = ih_source ih"
    "hd_protocol (pk_ip pk) = ih_protocol ih" "hd_is_v6 (pk_ip pk) = hd_is_v6 (ih_data_clone ih)"
    "td_source_port (pk_transport pk) = t_destination_port th"
    "td_destination_port (pk_transport pk) = t_source_port th"
    "td_is_udp (pk_transport pk) = td_is_udp (t_data_clone th)"
proof -
  let ?ti = "unat (ih_header_length ih)" and ?tl = "unat (t_header_length th)"
  let ?b0 = "replicate MAX_PACKET_LENGTH (0 :: byte)"
  let ?b1 = "ih_raw ih @ drop ?ti ?b0"
  let ?b2 = "take ?ti ?b1 @ t_raw th @ drop (?ti + ?tl) ?b1"
  let ?pk = "\<lparr>pk_buffer = ?b2, pk_transport_index = ?ti, pk_payload_index = ?ti + ?tl,
    pk_ip = ih_data_clone ih, pk_transport = t_data_clone th\<rparr>"
  have "?ti < 256" "?tl < 256" by simp_all
  then have lt: "?ti \<le> 65536" "?tl \<le> 65536 - ?ti" "?ti + ?tl \<le> 65536" by linarith+
  have tl: "length (t_raw th) = ?tl"
    using transport_header_ok_length [OF t] by (simp add: t_header_length_def)
  have max: "MAX_PACKET_LENGTH = 65536" by (simp add: MAX_PACKET_LENGTH_def)
  have c: "copy_from_slice 0 ?ti (ih_raw ih) ?b0 = Some ?b1"
    "copy_from_slice ?ti (?ti + ?tl) (t_raw th) ?b1 = Some ?b2"
    using lt tl ip(2) by (simp_all add: copy_from_slice_def splice_Some max)
  have wf: "pk_wf ?pk"
    using ip t tl lt
    by (simp add: pk_wf_def ih_bound_def ih_header_length_def [symmetric]
      t_header_length_def [symmetric] max)
  have tk: "take ?ti ?b2 = ih_raw ih" "take ?tl (drop ?ti ?b2) = t_raw th"
    using ip(2) tl by simp_all
  have ihb: "ih_bind (ih_raw ih) (ih_data_clone ih) = ih"
    by (cases ih) (simp_all add: ipv4_bind_def ipv6_bind_def)
  have tb: "td_bind (t_raw th) (t_data_clone th) = th"
    by (cases th) (simp_all add: tcp_bind_def udp_bind_def)
  obtain ih' where i: "ih_swap_source_and_destination ih = Some ih'" "ih_bound ih'"
    "length (ih_raw ih') = ?ti"
    "hd_source (ih_data_clone ih') = ih_destination ih"
    "hd_destination (ih_data_clone ih') = ih_source ih"
    "hd_protocol (ih_data_clone ih') = ih_protocol ih"
    "hd_header_length (ih_data_clone ih') = hd_header_length (ih_data_clone ih)"
    "hd_is_v6 (ih_data_clone ih') = hd_is_v6 (ih_data_clone ih)"
    using ih_swap_ok [OF ip(1)] ip(2) by (auto simp: ih_source_def ih_destination_def ih_protocol_def)
  obtain pk1 where 1: "pk_edit_ip ih_swap_source_and_destination ?pk = Some pk1" "pk_wf pk1"
    "pk_same_shape ?pk pk1" "pk_ip pk1 = ih_data_clone ih'" "pk_transport pk1 = t_data_clone th"
    "drop ?ti (pk_buffer pk1) = drop ?ti ?b2"
    using pk_edit_ip_ok [OF wf, of ih_swap_source_and_destination ih'] i tk ihb by auto
  obtain th' where h: "t_swap_source_and_destination th = Some th'"
    "transport_header_ok (t_data_clone th') (t_raw th')" "length (t_raw th') = ?tl"
    "td_source_port (t_data_clone th') = t_destination_port th"
    "td_destination_port (t_data_clone th') = t_source_port th"
    "td_header_length (t_data_clone th') = td_header_length (t_data_clone th)"
    "td_is_udp (t_data_clone th') = td_is_udp (t_data_clone th)"
    using t_swap_ok [OF t] tl by (auto simp: t_source_port_def t_destination_port_def)
  have s1: "pk_transport_index pk1 = ?ti" "pk_payload_index pk1 = ?ti + ?tl"
    using 1(3) by (simp_all add: pk_same_shape_def)
  obtain pk2 where 2: "pk_edit_transport t_swap_source_and_destination pk1 = Some pk2" "pk_wf pk2"
    "pk_same_shape pk1 pk2" "pk_ip pk2 = pk_ip pk1" "pk_transport pk2 = t_data_clone th'"
    using pk_edit_transport_ok [OF 1(2), of t_swap_source_and_destination th'] h 1(5,6) s1 tk(2) tb
    by (auto simp: t_header_length_def [symmetric])
  have "packetizer_new ih th = Some pk2"
    using c 1(1) 2(1) by (simp add: packetizer_new_def Let_def)
  then show ?thesis
    using that 2 1(4) i h s1 by (simp add: pk_same_shape_def)
qed

end
