(* ===== verification/Tcp_Connection.thy ===== *)
theory Tcp_Connection
  imports Connection Packetizer
begin

text \<open>
  \<open>relay/tcp_connection.rs\<close>: the relay plays the server of each TCP connection of the device.
  The record \<open>tcb\<close> is the control block; every handler is one definition on the connection and
  the shared buffer towards the device. \<open>random()\<close> is an argument, the socket a scripted stream,
  the result of \<open>TcpStream::connect\<close> a parameter, and logging is left out.
  \<open>remove_from_router\<close> does nothing when called from \<open>poll_self\<close>: the router is polling, so the
  client is borrowed and the call returns at once (the router removes closed connections itself).
\<close>

definition MTU :: u16 where
  "MTU = 1500"

definition MAX_PAYLOAD_LENGTH :: u16 where
  "MAX_PAYLOAD_LENGTH = MTU - 20 - 20"

definition MAX_PACKETS_PER_POLL :: nat where
  "MAX_PACKETS_PER_POLL = 32"

datatype tcp_state =
    Init | SynSent | SynReceived | Established | LastAck | Closing | FinWait1 | FinWait2

fun is_connected :: "tcp_state \<Rightarrow> bool" where
  "is_connected Init = False"
| "is_connected SynSent = False"
| "is_connected SynReceived = False"
| "is_connected _ = True"

fun is_closed_state :: "tcp_state \<Rightarrow> bool" where
  "is_closed_state FinWait1 = True"
| "is_closed_state FinWait2 = True"
| "is_closed_state Closing = True"
| "is_closed_state LastAck = True"
| "is_closed_state _ = False"

record tcb =
  tcb_state :: tcp_state
  syn_sequence_number :: u32
  sequence_number :: u32
  acknowledgement_number :: u32
  their_acknowledgement_number :: u32
  fin_sequence_number :: "u32 option"
  fin_received :: bool
  client_window :: u16

definition tcb_new :: tcb where
  "tcb_new = \<lparr>tcb_state = Init, syn_sequence_number = 0, sequence_number = 0,
     acknowledgement_number = 0, their_acknowledgement_number = 0, fin_sequence_number = None,
     fin_received = False, client_window = 0\<rparr>"

definition remaining_client_window :: "tcb \<Rightarrow> u16" where
  "remaining_client_window t =
     (if client_window t = 0 then 0
      else let remaining =
          their_acknowledgement_number t + ucast (client_window t) - sequence_number t
        in if remaining \<le> ucast (client_window t) then ucast remaining else 0)"

record tcp_connection =
  tc_id :: connection_id
  tc_stream :: stream
  tc_client_to_network :: stream_buffer
  tc_network_to_client :: packetizer
  tc_packet_for_client_length :: "u16 option"
  tc_closed :: bool
  tc_tcb :: tcb
  tc_bytes_sent :: u64
  tc_bytes_received :: u64

text \<open>A connection together with the shared buffer it writes to.\<close>

type_synonym tcp_cfg = "tcp_connection \<times> stream_buffer"

text \<open>\<open>self.tcb.field = v\<close>.\<close>

abbreviation tcb_update :: "(tcb \<Rightarrow> tcb) \<Rightarrow> tcp_connection \<Rightarrow> tcp_connection" where
  "tcb_update f c \<equiv> c\<lparr>tc_tcb := f (tc_tcb c)\<rparr>"

definition tc_close :: "tcp_connection \<Rightarrow> tcp_connection" where
  "tc_close c = c\<lparr>tc_closed := True\<rparr>"

definition advertised_window :: "tcp_connection \<Rightarrow> u16" where
  "advertised_window c = of_nat (min (sb_remaining (tc_client_to_network c)) 65535)"

definition tc_may_read :: "tcp_connection \<Rightarrow> bool" where
  "tc_may_read c \<longleftrightarrow>
     is_connected (tcb_state (tc_tcb c)) \<and> \<not> is_closed_state (tcb_state (tc_tcb c)) \<and>
     tc_packet_for_client_length c = None \<and> 0 < remaining_client_window (tc_tcb c)"

definition tc_may_write :: "tcp_connection \<Rightarrow> bool" where
  "tc_may_write c \<longleftrightarrow> \<not> sb_is_empty (tc_client_to_network c)"

subsection \<open>Creation\<close>

text \<open>Headers that are not TCP panic.\<close>

fun tcp_header_of_transport :: "transport_header \<Rightarrow> tcp_header option" where
  "tcp_header_of_transport (TTcp h) = Some h"
| "tcp_header_of_transport (TUdp h) = None"

definition tcp_header_of_packet :: "ip_packet \<Rightarrow> tcp_header option" where
  "tcp_header_of_packet ip_packet = do {
     t \<leftarrow> ip_transport_header ip_packet;
     case t of Some (TTcp tcp_header) \<Rightarrow> Some tcp_header | _ \<Rightarrow> None
   }"

text \<open>\<open>stream\<close> is what \<open>create_stream\<close> answered (\<open>Socks5\<close> models it).\<close>

definition tcp_create ::
  "connection_id \<Rightarrow> stream io_result \<Rightarrow> ip_header \<Rightarrow> transport_header \<Rightarrow>
   tcp_connection io_result option" where
  "tcp_create cid stream ip_header transport_header =
     (case stream of
        Inl e \<Rightarrow> Some (Inl e)
      | Inr s \<Rightarrow> do {
          tcp_header \<leftarrow> tcp_header_of_transport transport_header;
          raw20 \<leftarrow> slice 0 20 (th_raw tcp_header);
          shrinked \<leftarrow> tcp_shrink_options (tcp_bind raw20 (th_data tcp_header));
          packetizer \<leftarrow> packetizer_new ip_header (TTcp shrinked);
          Some (Inr \<lparr>tc_id = cid, tc_stream = s,
                     tc_client_to_network = sb_new (32 * MAX_PACKET_LENGTH),
                     tc_network_to_client = packetizer,
                     tc_packet_for_client_length = None, tc_closed = False,
                     tc_tcb = tcb_new, tc_bytes_sent = 0, tc_bytes_received = 0\<rparr>)
        })"

subsection \<open>Packets to the client\<close>

definition update_tcp_header ::
  "tcb \<Rightarrow> u16 \<Rightarrow> u16 \<Rightarrow> transport_header \<Rightarrow> transport_header option" where
  "update_tcp_header t flags window h = do {
     h0 \<leftarrow> tcp_header_of_transport h;
     h1 \<leftarrow> tcp_set_sequence_number (sequence_number t) h0;
     h2 \<leftarrow> tcp_set_acknowledgement_number (acknowledgement_number t) h1;
     h3 \<leftarrow> tcp_set_flags flags h2;
     h4 \<leftarrow> tcp_set_window window h3;
     Some (TTcp h4)
   }"

definition update_headers :: "tcb \<Rightarrow> u16 \<Rightarrow> u16 \<Rightarrow> packetizer \<Rightarrow> packetizer option" where
  "update_headers t flags window pk = pk_edit_transport (update_tcp_header t flags window) pk"

definition create_empty_response_packet ::
  "tcb \<Rightarrow> u16 \<Rightarrow> u16 \<Rightarrow> packetizer \<Rightarrow> (ip_packet \<times> packetizer) option" where
  "create_empty_response_packet t flags window pk = do {
     pk1 \<leftarrow> update_headers t flags window pk;
     packetize_empty_payload pk1
   }"

text \<open>\<open>reply_empty_packet_to_client\<close> goes through the channel, which ends in the same buffer; both
  drop the packet when the buffer is full.\<close>

definition send_empty_packet_to_client :: "u16 \<Rightarrow> tcp_cfg \<Rightarrow> tcp_cfg option" where
  "send_empty_packet_to_client flags = (\<lambda>(c, b). do {
     let window = advertised_window c;
     (ip_packet, pk) \<leftarrow>
       create_empty_response_packet (tc_tcb c) flags window (tc_network_to_client c);
     (_, b') \<leftarrow> send_to_client ip_packet b;
     Some (c\<lparr>tc_network_to_client := pk\<rparr>, b')
   })"

definition reply_empty_packet_to_client :: "u16 \<Rightarrow> tcp_cfg \<Rightarrow> tcp_cfg option" where
  "reply_empty_packet_to_client flags = (\<lambda>(c, b). do {
     let window = advertised_window c;
     (ip_packet, pk) \<leftarrow>
       create_empty_response_packet (tc_tcb c) flags window (tc_network_to_client c);
     (_, b') \<leftarrow> send_to_client ip_packet b;
     Some (c\<lparr>tc_network_to_client := pk\<rparr>, b')
   })"

text \<open>Retry of the deferred packet.\<close>

definition flush_pending_packet :: "tcp_cfg \<Rightarrow> (unit io_result \<times> tcp_cfg) option" where
  "flush_pending_packet = (\<lambda>(c, b).
     case tc_packet_for_client_length c of
       None \<Rightarrow> Some (Inr (), c, b)
     | Some len \<Rightarrow> do {
         ip_packet \<leftarrow> pk_inflate len (tc_network_to_client c);
         (r, b') \<leftarrow> send_to_client ip_packet b;
         case r of
           Inr _ \<Rightarrow> Some (Inr (),
             tcb_update (\<lambda>t. t\<lparr>sequence_number := sequence_number t + ucast len\<rparr>) c
               \<lparr>tc_packet_for_client_length := None\<rparr>, b')
         | Inl e \<Rightarrow> Some (Inl e, c, b')
       })"

subsection \<open>Packets from the client\<close>

definition handle_first_packet :: "u32 \<Rightarrow> tcp_header_data \<Rightarrow> tcp_cfg \<Rightarrow> tcp_cfg option" where
  "handle_first_packet random h = (\<lambda>(c, b).
     if is_syn h then
       (let their_sequence_number = tcp_sequence_number h in
        Some (tcb_update (\<lambda>t. t\<lparr>acknowledgement_number := their_sequence_number + 1,
                syn_sequence_number := their_sequence_number,
                sequence_number := random,
                client_window := tcp_window h,
                tcb_state := SynSent\<rparr>) c, b))
     else do {
       (c', b') \<leftarrow> reply_empty_packet_to_client FLAG_RST
         (tcb_update (\<lambda>t. t\<lparr>sequence_number := tcp_acknowledgement_number h\<rparr>) c, b);
       Some (tc_close c', b')
     })"

definition handle_duplicate_syn :: "tcp_header_data \<Rightarrow> tcp_cfg \<Rightarrow> tcp_cfg option" where
  "handle_duplicate_syn h = (\<lambda>(c, b).
     let their_sequence_number = tcp_sequence_number h in
     if tcb_state (tc_tcb c) = SynSent then
       Some (tcb_update (\<lambda>t. t\<lparr>syn_sequence_number := their_sequence_number,
               acknowledgement_number := their_sequence_number + 1\<rparr>) c, b)
     else if their_sequence_number \<noteq> syn_sequence_number (tc_tcb c) then do {
       (c', b') \<leftarrow> reply_empty_packet_to_client FLAG_RST (c, b);
       Some (tc_close c', b')
     } else Some (c, b))"

definition do_handle_fin :: "tcp_cfg \<Rightarrow> tcp_cfg option" where
  "do_handle_fin = (\<lambda>(c0, b).
     let c = tcb_update (\<lambda>t. t\<lparr>acknowledgement_number := acknowledgement_number t + 1\<rparr>) c0;
         state = tcb_state (tc_tcb c)
     in if state = Established then do {
          (c', b') \<leftarrow> send_empty_packet_to_client (FLAG_FIN OR FLAG_ACK) (c, b);
          Some (tcb_update (\<lambda>t. t\<lparr>fin_sequence_number := Some (sequence_number t),
                  sequence_number := sequence_number t + 1, tcb_state := LastAck\<rparr>) c', b')
        } else if state = FinWait1 then do {
          (c', b') \<leftarrow> send_empty_packet_to_client FLAG_ACK (c, b);
          Some (tcb_update (\<lambda>t. t\<lparr>tcb_state := Closing\<rparr>) c', b')
        } else if state = FinWait2 then do {
          (c', b') \<leftarrow> send_empty_packet_to_client FLAG_ACK (c, b);
          Some (tc_close c', b')
        } else Some (c, b))"

definition handle_fin :: "tcp_cfg \<Rightarrow> tcp_cfg option" where
  "handle_fin = (\<lambda>(c0, b).
     let c = tcb_update (\<lambda>t. t\<lparr>fin_received := True\<rparr>) c0
     in if sb_is_empty (tc_client_to_network c) then do_handle_fin (c, b) else Some (c, b))"

definition handle_fin_ack :: "tcp_cfg \<Rightarrow> tcp_cfg" where
  "handle_fin_ack = (\<lambda>(c, b).
     let state = tcb_state (tc_tcb c)
     in if state = LastAck \<or> state = Closing then (tc_close c, b)
        else if state = FinWait1 then (tcb_update (\<lambda>t. t\<lparr>tcb_state := FinWait2\<rparr>) c, b)
        else (c, b))"

definition handle_ack :: "ip_packet \<Rightarrow> tcp_cfg \<Rightarrow> tcp_cfg option" where
  "handle_ack ip_packet = (\<lambda>(c, b).
     if tcb_state (tc_tcb c) = SynReceived then
       Some (tcb_update (\<lambda>t. t\<lparr>tcb_state := Established\<rparr>) c, b)
     else do {
       payload_opt \<leftarrow> ip_payload ip_packet;
       case payload_opt of
         None \<Rightarrow> Some (c, b)
       | Some payload \<Rightarrow>
           if payload = [] then Some (c, b)
           else if sb_remaining (tc_client_to_network c) < length payload then
             send_empty_packet_to_client FLAG_ACK (c, b)
           else do {
             c2n \<leftarrow> sb_read_from payload (tc_client_to_network c);
             let c1 = tcb_update (\<lambda>t. t\<lparr>acknowledgement_number :=
                 acknowledgement_number t + of_nat (length payload)\<rparr>) c
               \<lparr>tc_client_to_network := c2n\<rparr>;
             send_empty_packet_to_client FLAG_ACK (c1, b)
           }
     })"

text \<open>\<open>handle_packet\<close> from the check of the sequence number on; \<open>diff < 0\<close> is on \<open>i32\<close>.\<close>

definition handle_fin_ack_number :: "tcp_header_data \<Rightarrow> tcp_cfg \<Rightarrow> tcp_cfg" where
  "handle_fin_ack_number h cfg =
     (case fin_sequence_number (tc_tcb (fst cfg)) of
        Some fin \<Rightarrow> if tcp_acknowledgement_number h = fin + 1 then handle_fin_ack cfg else cfg
      | None \<Rightarrow> cfg)"

definition handle_expected_packet ::
  "tcp_header_data \<Rightarrow> ip_packet \<Rightarrow> tcp_cfg \<Rightarrow> tcp_cfg option" where
  "handle_expected_packet h ip_packet = (\<lambda>(c0, b).
     let c = tcb_update (\<lambda>t. t\<lparr>client_window := tcp_window h,
       their_acknowledgement_number := tcp_acknowledgement_number h\<rparr>) c0
     in if is_rst h then Some (tc_close c, b)
        else do {
          cfg1 \<leftarrow> (if is_ack h then handle_ack ip_packet (c, b) else Some (c, b));
          cfg2 \<leftarrow> (if is_fin h then handle_fin cfg1 else Some cfg1);
          Some (handle_fin_ack_number h cfg2)
        })"

definition handle_packet :: "u32 \<Rightarrow> ip_packet \<Rightarrow> tcp_cfg \<Rightarrow> tcp_cfg option" where
  "handle_packet random ip_packet cfg = do {
     tcp_header \<leftarrow> tcp_header_of_packet ip_packet;
     let h = th_data tcp_header;
     let t = tc_tcb (fst cfg);
     if tcb_state t = Init then handle_first_packet random h cfg
     else if is_syn h then handle_duplicate_syn h cfg
     else if tcp_sequence_number h \<noteq> acknowledgement_number t then
       (if sint (tcp_sequence_number h - acknowledgement_number t) < 0
        then send_empty_packet_to_client FLAG_ACK cfg
        else Some cfg)
     else handle_expected_packet h ip_packet cfg
   }"

subsection \<open>Polling\<close>

definition tc_process_send :: "tcp_cfg \<Rightarrow> (unit io_result \<times> tcp_cfg) option" where
  "tc_process_send = (\<lambda>(c, b). do {
     (r, c2n, stream') \<leftarrow> sb_write_to (tc_client_to_network c) (tc_stream c);
     let c1 = c\<lparr>tc_client_to_network := c2n, tc_stream := stream'\<rparr>;
     case r of
       Inr w \<Rightarrow>
         (if w \<noteq> 0 then do {
            let c2 = c1\<lparr>tc_bytes_sent := tc_bytes_sent c1 + of_nat w\<rparr>;
            cfg \<leftarrow> (if fin_received (tc_tcb c2) \<and> sb_is_empty (tc_client_to_network c2)
              then do_handle_fin (c2, b)
              else send_empty_packet_to_client FLAG_ACK (c2, b));
            Some (Inr (), cfg)
          } else Some (Inr (), tc_close c1, b))
     | Inl e \<Rightarrow>
         (if e = WouldBlock then Some (Inl e, c1, b)
          else do {
            (c2, b') \<leftarrow> send_empty_packet_to_client FLAG_RST (c1, b);
            Some (Inr (), tc_close c2, b')
          })
   })"

definition tc_eof :: "tcp_cfg \<Rightarrow> tcp_cfg option" where
  "tc_eof = (\<lambda>(c, b). do {
     let c1 = tcb_update (\<lambda>t. t\<lparr>acknowledgement_number := acknowledgement_number t + 1\<rparr>) c;
     (c2, b') \<leftarrow> send_empty_packet_to_client (FLAG_FIN OR FLAG_ACK) (c1, b);
     Some (tcb_update (\<lambda>t. t\<lparr>fin_sequence_number := Some (sequence_number t),
             sequence_number := sequence_number t + 1, tcb_state := FinWait1\<rparr>) c2, b')
   })"

text \<open>The body of the loop of \<open>process_receive\<close>. The first component says whether to go on
  (\<open>Inl\<close>) or to \<open>break\<close> (\<open>Inr\<close>), with \<open>made_progress\<close>.\<close>

definition tc_receive_one :: "bool \<Rightarrow> tcp_cfg \<Rightarrow> ((bool + bool) \<times> tcp_cfg) option" where
  "tc_receive_one made_progress = (\<lambda>(c, b).
     if tc_packet_for_client_length c \<noteq> None then Some (Inr made_progress, c, b)
     else if remaining_client_window (tc_tcb c) = 0 then Some (Inr made_progress, c, b)
     else do {
       let max_payload_length =
         Some (unat (min (remaining_client_window (tc_tcb c)) MAX_PAYLOAD_LENGTH));
       pk \<leftarrow> update_headers (tc_tcb c) (FLAG_ACK OR FLAG_PSH) (advertised_window c)
         (tc_network_to_client c);
       (r, stream', pk') \<leftarrow> packetize_read (tc_stream c) max_payload_length pk;
       let c1 = c\<lparr>tc_network_to_client := pk', tc_stream := stream'\<rparr>;
       case r of
         Inr (Some ip_packet) \<Rightarrow> do {
           payload_opt \<leftarrow> ip_payload ip_packet;
           let len = (case payload_opt of Some p \<Rightarrow> length p | None \<Rightarrow> 0);
           let c2 = c1\<lparr>tc_bytes_received := tc_bytes_received c1 + of_nat len\<rparr>;
           (sent_r, b') \<leftarrow> send_to_client ip_packet b;
           case sent_r of
             Inr _ \<Rightarrow> do {
               payload \<leftarrow> payload_opt;
               Some (Inl True, tcb_update (\<lambda>t. t\<lparr>sequence_number :=
                 sequence_number t + of_nat (length payload)\<rparr>) c2, b')
             }
           | Inl _ \<Rightarrow> Some (Inr made_progress,
               c2\<lparr>tc_packet_for_client_length := Some (ip_length ip_packet)\<rparr>, b')
         }
       | Inr None \<Rightarrow> do { cfg \<leftarrow> tc_eof (c1, b); Some (Inr True, cfg) }
       | Inl e \<Rightarrow>
           if e = WouldBlock then Some (Inr made_progress, c1, b)
           else do {
             (c2, b') \<leftarrow> send_empty_packet_to_client FLAG_RST (c1, b);
             Some (Inr True, tc_close c2, b')
           }
     })"

fun tc_receive_loop :: "nat \<Rightarrow> bool \<Rightarrow> tcp_cfg \<Rightarrow> (bool \<times> tcp_cfg) option" where
  "tc_receive_loop 0 made_progress cfg = Some (made_progress, cfg)"
| "tc_receive_loop (Suc n) made_progress cfg = do {
     (r, cfg') \<leftarrow> tc_receive_one made_progress cfg;
     case r of
       Inl made_progress' \<Rightarrow> tc_receive_loop n made_progress' cfg'
     | Inr made_progress' \<Rightarrow> Some (made_progress', cfg')
   }"

definition tc_process_receive :: "tcp_cfg \<Rightarrow> (unit io_result \<times> tcp_cfg) option" where
  "tc_process_receive cfg = do {
     (made_progress, cfg') \<leftarrow> tc_receive_loop MAX_PACKETS_PER_POLL False cfg;
     Some (if made_progress then Inr () else Inl WouldBlock, cfg')
   }"

definition tc_process_connect :: "tcp_cfg \<Rightarrow> tcp_cfg option" where
  "tc_process_connect = (\<lambda>(c, b). do {
     (c', b') \<leftarrow> send_empty_packet_to_client (FLAG_SYN OR FLAG_ACK)
       (tcb_update (\<lambda>t. t\<lparr>tcb_state := SynReceived\<rparr>) c, b);
     Some (tcb_update (\<lambda>t. t\<lparr>sequence_number := sequence_number t + 1\<rparr>) c', b')
   })"

text \<open>The phases of \<open>poll_self\<close>. A phase ends the poll with a result (\<open>Inl\<close>) or passes
  \<open>made_progress\<close> on (\<open>Inr\<close>).\<close>

definition tc_poll_pending :: "tcp_cfg \<Rightarrow> ((unit io_result + bool) \<times> tcp_cfg) option" where
  "tc_poll_pending cfg =
     (if tc_packet_for_client_length (fst cfg) = None then Some (Inr False, cfg)
      else do {
        (r, cfg') \<leftarrow> flush_pending_packet cfg;
        Some (case r of Inr _ \<Rightarrow> Inr True | Inl e \<Rightarrow> Inl (Inl e), cfg')
      })"

definition tc_poll_fail :: "tcp_cfg \<Rightarrow> ((unit io_result + bool) \<times> tcp_cfg) option" where
  "tc_poll_fail cfg = do {
     (c, b) \<leftarrow> send_empty_packet_to_client FLAG_RST cfg;
     Some (Inl (Inr ()), tc_close c, b)
   }"

definition tc_poll_write :: "bool \<Rightarrow> tcp_cfg \<Rightarrow> ((unit io_result + bool) \<times> tcp_cfg) option" where
  "tc_poll_write made_progress cfg =
     (if tc_may_write (fst cfg) then do {
        (r, cfg') \<leftarrow> tc_process_send cfg;
        case r of
          Inr _ \<Rightarrow> Some (Inr True, cfg')
        | Inl e \<Rightarrow>
            if e = WouldBlock then Some (Inr made_progress, cfg') else tc_poll_fail cfg'
      } else Some (Inr made_progress, cfg))"

definition tc_poll_read :: "bool \<Rightarrow> tcp_cfg \<Rightarrow> ((unit io_result + bool) \<times> tcp_cfg) option" where
  "tc_poll_read made_progress cfg =
     (if \<not> tc_closed (fst cfg) \<and> tc_may_read (fst cfg) then do {
        (r, cfg') \<leftarrow> tc_process_receive cfg;
        case r of
          Inr _ \<Rightarrow> Some (Inr True, cfg')
        | Inl e \<Rightarrow>
            if e = WouldBlock then Some (Inr made_progress, cfg') else tc_poll_fail cfg'
      } else Some (Inr made_progress, cfg))"

definition tc_poll_connect :: "bool \<Rightarrow> tcp_cfg \<Rightarrow> ((unit io_result + bool) \<times> tcp_cfg) option" where
  "tc_poll_connect made_progress = (\<lambda>(c, b).
     if tcb_state (tc_tcb c) = SynSent then
       (case stream_write [] (tc_stream c) of
          (Inr _, s) \<Rightarrow> do {
            cfg \<leftarrow> tc_process_connect (c\<lparr>tc_stream := s\<rparr>, b);
            Some (Inr True, cfg)
          }
        | (Inl e, s) \<Rightarrow>
            if e = WouldBlock then Some (Inr made_progress, c\<lparr>tc_stream := s\<rparr>, b)
            else Some (Inl (Inr ()), tc_close (c\<lparr>tc_stream := s\<rparr>), b))
     else Some (Inr made_progress, c, b))"

text \<open>\<open>phase\<close> runs the next phase unless the poll has ended.\<close>

definition phase ::
  "(bool \<Rightarrow> 's \<Rightarrow> (('r + bool) \<times> 's) option) \<Rightarrow> (('r + bool) \<times> 's) \<Rightarrow> (('r + bool) \<times> 's) option" where
  "phase f st = (case st of (Inl r, s) \<Rightarrow> Some (Inl r, s) | (Inr made_progress, s) \<Rightarrow> f made_progress s)"

definition tcp_poll :: "tcp_cfg \<Rightarrow> (unit io_result \<times> tcp_cfg) option" where
  "tcp_poll cfg =
     (if tc_closed (fst cfg) then Some (Inr (), cfg)
      else do {
        st1 \<leftarrow> tc_poll_pending cfg;
        st2 \<leftarrow> phase tc_poll_write st1;
        st3 \<leftarrow> phase tc_poll_read st2;
        st4 \<leftarrow> phase tc_poll_connect st3;
        case st4 of
          (Inl r, cfg') \<Rightarrow> Some (r, cfg')
        | (Inr made_progress, cfg') \<Rightarrow>
            Some (if made_progress then Inr () else Inl WouldBlock, cfg')
      })"

end
