(* ===== verification/Byte_Buffer.thy ===== *)
theory Byte_Buffer
  imports Io
begin

text \<open>
  \<open>relay/byte_buffer.rs\<close>: a flat buffer filled at \<open>head\<close> from a reader and consumed from the
  front by a memmove. Its contents are the first \<open>head\<close> bytes.
\<close>

record byte_buffer =
  bb_buf :: "byte list"
  bb_head :: nat

definition bb_new :: "nat \<Rightarrow> byte_buffer" where
  "bb_new len = \<lparr>bb_buf = replicate len 0, bb_head = 0\<rparr>"

text \<open>\<open>read_from\<close> reads into \<open>buf[head..]\<close>; the result says whether anything was read.\<close>

definition bb_read_from :: "stream \<Rightarrow> byte_buffer \<Rightarrow> (bool io_result \<times> stream \<times> byte_buffer) option" where
  "bb_read_from source b = do {
     target \<leftarrow> slice (bb_head b) (length (bb_buf b)) (bb_buf b);
     let (res, source') = stream_read (length target) source;
     case res of
       Inl e \<Rightarrow> Some (Inl e, source', b)
     | Inr bs \<Rightarrow> do {
         buf' \<leftarrow> splice (bb_head b) bs (bb_buf b);
         Some (Inr (0 < length bs), source',
               \<lparr>bb_buf = buf', bb_head = bb_head b + length bs\<rparr>)
       }
   }"

definition bb_peek :: "byte_buffer \<Rightarrow> byte list option" where
  "bb_peek b = slice 0 (bb_head b) (bb_buf b)"

text \<open>\<open>consume\<close> asserts \<open>head >= length\<close> and moves \<open>[length..head]\<close> to the front.\<close>

definition bb_consume :: "nat \<Rightarrow> byte_buffer \<Rightarrow> byte_buffer option" where
  "bb_consume len b =
     (if bb_head b < len then None
      else let new_head = bb_head b - len in
        if 0 < new_head
        then do {
          src \<leftarrow> slice len (len + new_head) (bb_buf b);
          buf' \<leftarrow> splice 0 src (bb_buf b);
          Some \<lparr>bb_buf = buf', bb_head = new_head\<rparr>
        }
        else Some (b\<lparr>bb_head := new_head\<rparr>))"

definition bb_wf :: "byte_buffer \<Rightarrow> bool" where
  "bb_wf b \<longleftrightarrow> bb_head b \<le> length (bb_buf b)"

definition bb_content :: "byte_buffer \<Rightarrow> byte list" where
  "bb_content b = take (bb_head b) (bb_buf b)"

definition bb_capacity :: "byte_buffer \<Rightarrow> nat" where
  "bb_capacity b = length (bb_buf b)"

lemma bb_wf_new [wf_intros, simp]: "bb_wf (bb_new n)"
  by (simp add: bb_wf_def bb_new_def)

lemma bb_content_new [simp]: "bb_content (bb_new n) = []"
  by (simp add: bb_content_def bb_new_def)

lemma bb_capacity_new [simp]: "bb_capacity (bb_new n) = n"
  by (simp add: bb_capacity_def bb_new_def)

lemma length_bb_content: "bb_wf b \<Longrightarrow> length (bb_content b) = bb_head b"
  by (simp add: bb_wf_def bb_content_def)

lemma bb_peek_content: "bb_wf b \<Longrightarrow> bb_peek b = Some (bb_content b)"
  by (simp add: bb_wf_def bb_content_def bb_peek_def slice_simps)

text \<open>Reading appends what the reader returns, whatever it returns, and never panics.\<close>

lemma bb_read_from_ok:
  assumes "bb_wf b" and "stream_read (bb_capacity b - bb_head b) source = (Inr bs, source')"
  shows "\<exists>b'. bb_read_from source b = Some (Inr (bs \<noteq> []), source', b') \<and> bb_wf b' \<and>
    bb_content b' = bb_content b @ bs \<and> bb_capacity b' = bb_capacity b"
  using assms stream_read_le [OF assms(2)]
  by (auto simp: bb_read_from_def bb_wf_def bb_content_def bb_capacity_def slice_simps)

lemma bb_read_from_error:
  assumes "bb_wf b" and "stream_read (bb_capacity b - bb_head b) source = (Inl e, source')"
  shows "bb_read_from source b = Some (Inl e, source', b)"
  using assms by (simp add: bb_read_from_def bb_wf_def bb_capacity_def slice_simps)

text \<open>Consuming drops a prefix; asking for more than there is panics.\<close>

lemma bb_consume_ok:
  assumes "bb_wf b" and "n \<le> length (bb_content b)"
  shows "\<exists>b'. bb_consume n b = Some b' \<and> bb_wf b' \<and>
    bb_content b' = drop n (bb_content b) \<and> bb_capacity b' = bb_capacity b"
  using assms length_bb_content [OF assms(1)]
  by (cases "n = bb_head b")
    (auto simp: bb_consume_def bb_wf_def bb_content_def bb_capacity_def slice_simps
      drop_take Let_def)

lemma bb_consume_panic: "bb_head b < n \<Longrightarrow> bb_consume n b = None"
  by (simp add: bb_consume_def)

end
