(* ===== verification/Ip_Packet_Buffer.thy ===== *)
theory Ip_Packet_Buffer
  imports Byte_Buffer Ip_Packet
begin

text \<open>
  \<open>relay/ip_packet_buffer.rs\<close>: cuts the byte stream of a client into IP packets by the length in
  the packet's own header. What the client's loop relies on is stated in \<open>Framing\<close>.
\<close>

record ip_packet_buffer =
  pb_buf :: byte_buffer

definition pb_new :: ip_packet_buffer where
  "pb_new = \<lparr>pb_buf = bb_new MAX_PACKET_LENGTH\<rparr>"

definition pb_read_from ::
  "stream \<Rightarrow> ip_packet_buffer \<Rightarrow> (bool io_result \<times> stream \<times> ip_packet_buffer) option" where
  "pb_read_from source b = do {
     (r, source', buf') \<leftarrow> bb_read_from source (pb_buf b);
     Some (r, source', b\<lparr>pb_buf := buf'\<rparr>)
   }"

text \<open>The outer option is the panic. \<open>payload_length + 40\<close> wraps.\<close>

definition available_packet_info :: "ip_packet_buffer \<Rightarrow> (byte \<times> u16) option option" where
  "available_packet_info b = do {
     data \<leftarrow> bb_peek (pb_buf b);
     if length data < 4 then Some None else do {
       b0 \<leftarrow> index 0 data;
       let version = drop_bit 4 b0;
       if version = 4 then do {
         len \<leftarrow> read_u16_at 2 data;
         Some (if unat len \<le> length data then Some (4, len) else None)
       } else if version = 6 then
         (if length data < 6 then Some None else do {
            payload_length \<leftarrow> read_u16_at 4 data;
            let total_length = payload_length + 40;
            Some (if unat total_length \<le> length data then Some (6, total_length) else None)
          })
       else Some None
     }
   }"

definition as_ip_packet :: "ip_packet_buffer \<Rightarrow> ip_packet option option" where
  "as_ip_packet b = do {
     info \<leftarrow> available_packet_info b;
     if info \<noteq> None then do { data \<leftarrow> bb_peek (pb_buf b); ip_packet_parse data }
     else Some None
   }"

definition pb_next :: "ip_packet_buffer \<Rightarrow> ip_packet_buffer option" where
  "pb_next b = do {
     info \<leftarrow> available_packet_info b;
     case info of
       Some (_, len) \<Rightarrow> do {
         buf' \<leftarrow> bb_consume (unat len) (pb_buf b);
         Some (b\<lparr>pb_buf := buf'\<rparr>)
       }
     | None \<Rightarrow> Some b
   }"

definition pb_skip_malformed :: "ip_packet_buffer \<Rightarrow> (bool \<times> ip_packet_buffer) option" where
  "pb_skip_malformed b = do {
     data \<leftarrow> bb_peek (pb_buf b);
     if data = [] then Some (False, b) else do {
       b0 \<leftarrow> index 0 data;
       let version = drop_bit 4 b0;
       if version = 4 \<or> version = 6 then Some (False, b) else do {
         buf' \<leftarrow> bb_consume 1 (pb_buf b);
         Some (True, b\<lparr>pb_buf := buf'\<rparr>)
       }
     }
   }"

subsection \<open>Frames\<close>

text \<open>A frame is a packet whose header tells its real length.\<close>

definition is_frame :: "byte list \<Rightarrow> bool" where
  "is_frame p \<longleftrightarrow>
     (20 \<le> length p \<and> drop_bit 4 (p ! 0) = 4 \<and>
        unat (u16_of_bytes (p ! 2) (p ! 3)) = length p) \<or>
     (40 \<le> length p \<and> drop_bit 4 (p ! 0) = 6 \<and>
        unat (u16_of_bytes (p ! 4) (p ! 5)) + 40 = length p \<and> length p < 65536)"

definition pb_wf :: "ip_packet_buffer \<Rightarrow> bool" where
  "pb_wf b \<longleftrightarrow> bb_wf (pb_buf b)"

definition pb_content :: "ip_packet_buffer \<Rightarrow> byte list" where
  "pb_content b = bb_content (pb_buf b)"

lemma is_frame_cases:
  assumes "is_frame p"
  obtains (v4) "20 \<le> length p" "drop_bit 4 (p ! 0) = 4"
      "unat (u16_of_bytes (p ! 2) (p ! 3)) = length p"
    | (v6) "40 \<le> length p" "drop_bit 4 (p ! 0) = 6" "drop_bit 4 (p ! 0) \<noteq> 4"
      "unat (u16_of_bytes (p ! 4) (p ! 5)) + 40 = length p" "length p < 65536"
  using assms by (auto simp: is_frame_def)

lemma frame_length_word:
  assumes "unat (w :: u16) + 40 = n" "n < 65536"
  shows "unat (w + 40) = n"
  using assms by (simp add: unat_word_ariths)

lemma available_frame:
  assumes wf: "pb_wf b" and c: "pb_content b = p @ rest" and p: "is_frame p"
  shows "\<exists>v len. available_packet_info b = Some (Some (v, len)) \<and> unat len = length p"
  using p
proof (cases rule: is_frame_cases)
  case v4
  then have "p \<noteq> []" by auto
  then show ?thesis
    using v4 wf c by (simp add: available_packet_info_def pb_wf_def pb_content_def bb_peek_content
      slice_simps nth_append)
next
  case v6
  then have "p \<noteq> []" by auto
  then show ?thesis
    using v6 wf c frame_length_word [OF v6(4,5)]
    by (simp add: available_packet_info_def pb_wf_def pb_content_def bb_peek_content
      slice_simps nth_append)
qed

lemma available_partial_frame:
  assumes wf: "pb_wf b" and c: "pb_content b = take k p" and p: "is_frame p" and k: "k < length p"
  shows "available_packet_info b = Some None"
  using p
proof (cases rule: is_frame_cases)
  case v4
  then show ?thesis
    using wf c k by (auto simp: available_packet_info_def pb_wf_def pb_content_def bb_peek_content
      slice_simps min_def)
next
  case v6
  then show ?thesis
    using wf c k frame_length_word [OF v6(4,5)]
    by (auto simp: available_packet_info_def pb_wf_def pb_content_def bb_peek_content
      slice_simps min_def)
qed

end
