(* ===== verification/Tcp_Invariants.thy ===== *)
theory Tcp_Invariants
  imports Tcp_Connection Ip_Packet_Buffer
begin

text \<open>
  What holds of \<open>Tcp_Connection\<close>: its well-formedness is kept by every handler and no handler
  panics; what reaches the shared buffer are whole packets that a receiver accepts; the sequence
  and acknowledgement numbers follow the bytes.
\<close>

subsection \<open>Packets the connection builds\<close>

definition tcp_pk_wf :: "packetizer \<Rightarrow> bool" where
  "tcp_pk_wf pk \<longleftrightarrow> pk_wf pk \<and> \<not> td_is_udp (pk_transport pk)"

text \<open>The nine bits of the header.\<close>

definition flags_ok :: "u16 \<Rightarrow> bool" where
  "flags_ok flags \<longleftrightarrow> flags AND 0x1FF = flags"

lemma flags_ok_simps [simp]:
  "flags_ok FLAG_ACK" "flags_ok FLAG_RST" "flags_ok (FLAG_FIN OR FLAG_ACK)"
  "flags_ok (FLAG_SYN OR FLAG_ACK)" "flags_ok (FLAG_ACK OR FLAG_PSH)"
  by (simp_all add: flags_ok_def flag_defs)

definition tcp_data_with :: "tcb \<Rightarrow> u16 \<Rightarrow> u16 \<Rightarrow> tcp_header_data \<Rightarrow> tcp_header_data" where
  "tcp_data_with t flags window d = d
     \<lparr>tcp_sequence_number := sequence_number t,
      tcp_acknowledgement_number := acknowledgement_number t,
      tcp_flags := flags, tcp_window := window\<rparr>"

lemma update_tcp_header_ok:
  assumes ok: "transport_header_ok (TdTcp (th_data h)) (th_raw h)" and fl: "flags_ok flags"
  obtains h' where "update_tcp_header t flags window (TTcp h) = Some (TTcp h')"
    "transport_header_ok (TdTcp (th_data h')) (th_raw h')" "length (th_raw h') = length (th_raw h)"
    "th_data h' = tcp_data_with t flags window (th_data h)"
proof -
  have b: "tcp_parse (th_raw h) = Some (th_data h)" using ok by simp
  obtain h1 where 1: "tcp_set_sequence_number (sequence_number t) h = Some h1"
    "tcp_parse (th_raw h1) = Some (th_data h1)" "length (th_raw h1) = length (th_raw h)"
    "th_data h1 = (th_data h)\<lparr>tcp_sequence_number := sequence_number t\<rparr>"
    by (rule tcp_seq.setE [OF b TrueI])
  obtain h2 where 2: "tcp_set_acknowledgement_number (acknowledgement_number t) h1 = Some h2"
    "tcp_parse (th_raw h2) = Some (th_data h2)" "length (th_raw h2) = length (th_raw h1)"
    "th_data h2 = (th_data h1)\<lparr>tcp_acknowledgement_number := acknowledgement_number t\<rparr>"
    by (rule tcp_ack.setE [OF 1(2) TrueI])
  obtain h3 where 3: "tcp_set_flags flags h2 = Some h3"
    "tcp_parse (th_raw h3) = Some (th_data h3)" "length (th_raw h3) = length (th_raw h2)"
    "th_data h3 = (th_data h2)\<lparr>tcp_flags := flags\<rparr>"
    by (rule tcp_fl.setE [OF 2(2) fl [unfolded flags_ok_def]])
  obtain h4 where 4: "tcp_set_window window h3 = Some h4"
    "tcp_parse (th_raw h4) = Some (th_data h4)" "length (th_raw h4) = length (th_raw h3)"
    "th_data h4 = (th_data h3)\<lparr>tcp_window := window\<rparr>"
    by (rule tcp_win.setE [OF 3(2) TrueI])
  show ?thesis
    using that [of h4] 1 2 3 4 ok by (simp add: update_tcp_header_def tcp_data_with_def)
qed

lemma update_headers_ok:
  assumes wf: "tcp_pk_wf pk" and fl: "flags_ok flags" and d: "pk_transport pk = TdTcp d"
  obtains pk' where "update_headers t flags window pk = Some pk'" "tcp_pk_wf pk'"
    "pk_same_shape pk pk'" "pk_ip pk' = pk_ip pk"
    "pk_transport pk' = TdTcp (tcp_data_with t flags window d)"
proof -
  have pw: "pk_wf pk" using wf by (simp add: tcp_pk_wf_def)
  let ?b = "take (unat (td_header_length (pk_transport pk)))
      (drop (pk_transport_index pk) (pk_buffer pk))"
  have "transport_header_ok (TdTcp (th_data (tcp_bind ?b d))) (th_raw (tcp_bind ?b d))"
    using pk_wf_headers(3) [OF pw] d by simp
  from update_tcp_header_ok [OF this fl, of t window] obtain h' where
    h': "update_tcp_header t flags window (TTcp (tcp_bind ?b d)) = Some (TTcp h')"
    "transport_header_ok (TdTcp (th_data h')) (th_raw h')"
    "length (th_raw h') = length (th_raw (tcp_bind ?b d))"
    "th_data h' = tcp_data_with t flags window (th_data (tcp_bind ?b d))"
    by blast
  have "length ?b = unat (td_header_length (pk_transport pk))"
    using transport_header_ok_length [OF pk_wf_headers(3) [OF pw]] .
  then obtain pk' where "pk_edit_transport (update_tcp_header t flags window) pk = Some pk'"
      "pk_wf pk'" "pk_same_shape pk pk'" "pk_ip pk' = pk_ip pk" "pk_transport pk' = TdTcp (th_data h')"
    using pk_edit_transport_ok [OF pw, of "update_tcp_header t flags window" "TTcp h'"] h' d
    by (auto simp: tcp_data_with_def)
  then show ?thesis
    using that [of pk'] h'(4) by (simp add: update_headers_def tcp_pk_wf_def)
qed

text \<open>\<open>p\<close> is the packet of connection \<open>pk\<close> for this control block, flags, window and payload.\<close>

definition tcp_reply ::
  "packetizer \<Rightarrow> tcb \<Rightarrow> u16 \<Rightarrow> u16 \<Rightarrow> byte list \<Rightarrow> ip_packet \<Rightarrow> bool" where
  "tcp_reply pk t flags window payload p \<longleftrightarrow>
     packet_wf p \<and> receiver_accepts p \<and> ip_payload p = Some (Some payload) \<and>
     length (ip_raw p) = pk_payload_index pk + length payload \<and>
     same_flow (pk_ip pk) (fst (ip_headers_data p)) \<and>
     (case pk_transport pk of
        TdTcp d \<Rightarrow> snd (ip_headers_data p) = Some (TdTcp (tcp_data_with t flags window d))
      | TdUdp _ \<Rightarrow> False)"

text \<open>The packetizer after it built \<open>p\<close>.\<close>

definition pk_after :: "packetizer \<Rightarrow> ip_packet \<Rightarrow> packetizer \<Rightarrow> bool" where
  "pk_after pk p pk' \<longleftrightarrow>
     tcp_pk_wf pk' \<and> pk_same_shape pk pk' \<and> same_flow (pk_ip pk) (pk_ip pk') \<and>
     ip_headers_data p = (pk_ip pk', Some (pk_transport pk')) \<and>
     ip_raw p = take (length (ip_raw p)) (pk_buffer pk')"

lemma tcp_pk_wf_TdTcp:
  assumes "tcp_pk_wf pk"
  obtains d where "pk_transport pk = TdTcp d"
  using assms by (cases "pk_transport pk") (auto simp: tcp_pk_wf_def)

lemma create_empty_response_packet_ok:
  assumes wf: "tcp_pk_wf pk" and fl: "flags_ok flags"
  obtains p pk' where "create_empty_response_packet t flags window pk = Some (p, pk')"
    "tcp_reply pk t flags window [] p" "pk_after pk p pk'"
proof -
  obtain d where d: "pk_transport pk = TdTcp d" by (rule tcp_pk_wf_TdTcp [OF wf])
  obtain pk1 where 1: "update_headers t flags window pk = Some pk1" "tcp_pk_wf pk1"
    "pk_same_shape pk pk1" "pk_ip pk1 = pk_ip pk"
    "pk_transport pk1 = TdTcp (tcp_data_with t flags window d)"
    by (rule update_headers_ok [OF wf fl d])
  have w1: "pk_wf pk1" using 1(2) by (simp add: tcp_pk_wf_def)
  have "pk_payload_index pk1 + unat (0 :: u16) < 65536" using pk_wf_bounds(2) [OF w1] by simp
  then obtain p pk2 where 2: "pk_build 0 pk1 = Some (p, pk2)"
    "built pk1 (take (unat (0 :: u16)) (drop (pk_payload_index pk1) (pk_buffer pk1))) p"
    "pk_wf pk2" "pk_same_shape pk1 pk2" "pk_transport pk2 = pk_transport pk1"
    "pk_ip pk2 = fst (ip_headers_data p)" "ip_raw p = take (length (ip_raw p)) (pk_buffer pk2)"
    by (rule pk_build_ok [OF w1])
  show ?thesis
  proof (rule that)
    show "create_empty_response_packet t flags window pk = Some (p, pk2)"
      using 1(1) 2(1) by (simp add: create_empty_response_packet_def packetize_empty_payload_def)
    show "tcp_reply pk t flags window [] p"
      using 2(2) 1(3-5) d by (simp add: tcp_reply_def built_def pk_same_shape_def)
    show "pk_after pk p pk2"
      using 1 2(2-7) by (auto simp: pk_after_def tcp_pk_wf_def built_def pk_same_shape_def prod_eq_iff)
  qed
qed

subsection \<open>The invariant of a connection\<close>

definition tc_wf :: "tcp_connection \<Rightarrow> bool" where
  "tc_wf c \<longleftrightarrow> sb_wf (tc_client_to_network c) \<and> tcp_pk_wf (tc_network_to_client c)"

text \<open>The shared buffer must hold at least one packet of any length.\<close>

definition out_wf :: "stream_buffer \<Rightarrow> bool" where
  "out_wf b \<longleftrightarrow> sb_wf b \<and> 65535 \<le> sb_capacity b"

definition cfg_wf :: "tcp_cfg \<Rightarrow> bool" where
  "cfg_wf cfg \<longleftrightarrow> tc_wf (fst cfg) \<and> out_wf (snd cfg)"

text \<open>Offering \<open>p\<close>: it is appended whole if it fits, else dropped.\<close>

definition offered :: "ip_packet \<Rightarrow> stream_buffer \<Rightarrow> stream_buffer \<Rightarrow> bool" where
  "offered p b b' \<longleftrightarrow>
     (if length (ip_raw p) \<le> sb_remaining b then appended (ip_raw p) b b' else b' = b)"

lemma send_to_client_offered:
  assumes "out_wf b" "packet_wf p"
  obtains r b' where "send_to_client p b = Some (r, b')" "offered p b b'" "out_wf b'"
    "r = (if length (ip_raw p) \<le> sb_remaining b then Inr () else Inl WouldBlock)"
  using send_to_client_ok [of b p] assms by (auto simp: offered_def out_wf_def appended_def)

lemma send_empty_ok:
  assumes wf: "cfg_wf (c, b)" and fl: "flags_ok flags"
  obtains p pk' b' where
    "send_empty_packet_to_client flags (c, b) = Some (c\<lparr>tc_network_to_client := pk'\<rparr>, b')"
    "reply_empty_packet_to_client flags (c, b) = Some (c\<lparr>tc_network_to_client := pk'\<rparr>, b')"
    "tcp_reply (tc_network_to_client c) (tc_tcb c) flags (advertised_window c) [] p"
    "pk_after (tc_network_to_client c) p pk'" "offered p b b'"
    "cfg_wf (c\<lparr>tc_network_to_client := pk'\<rparr>, b')"
proof -
  have w: "tcp_pk_wf (tc_network_to_client c)" "out_wf b" "sb_wf (tc_client_to_network c)"
    using wf by (simp_all add: cfg_wf_def tc_wf_def)
  obtain p pk' where p: "create_empty_response_packet (tc_tcb c) flags (advertised_window c)
      (tc_network_to_client c) = Some (p, pk')"
    "tcp_reply (tc_network_to_client c) (tc_tcb c) flags (advertised_window c) [] p"
    "pk_after (tc_network_to_client c) p pk'"
    by (rule create_empty_response_packet_ok [OF w(1) fl])
  have "packet_wf p" using p(2) by (simp add: tcp_reply_def)
  then obtain r b' where b': "send_to_client p b = Some (r, b')" "offered p b b'" "out_wf b'"
    by (rule send_to_client_offered [OF w(2)])
  show ?thesis
    using that [of pk' b' p] p b' w
    by (simp add: send_empty_packet_to_client_def reply_empty_packet_to_client_def
      cfg_wf_def tc_wf_def pk_after_def)
qed

subsection \<open>No handler panics, and the buffer receives only whole, valid packets\<close>

definition good_packet :: "ip_packet \<Rightarrow> bool" where
  "good_packet p \<longleftrightarrow> packet_wf p \<and> receiver_accepts p"

definition emits :: "ip_packet list \<Rightarrow> stream_buffer \<Rightarrow> stream_buffer \<Rightarrow> bool" where
  "emits ps b b' \<longleftrightarrow> list_all good_packet ps \<and> sb_capacity b' = sb_capacity b \<and>
     sb_tail b' = sb_tail b \<and>
     sb_content b' = sb_content b @ concat (map ip_raw ps)"

definition grows :: "stream_buffer \<Rightarrow> stream_buffer \<Rightarrow> bool" where
  "grows b b' \<longleftrightarrow> (\<exists>ps. emits ps b b')"

lemma grows_refl [simp]: "grows b b"
  unfolding grows_def emits_def by (rule exI [of _ "[]"]) simp

lemma grows_trans: "grows b b1 \<Longrightarrow> grows b1 b2 \<Longrightarrow> grows b b2"
  unfolding grows_def emits_def
  by (metis (no_types, lifting) append_assoc concat_append list_all_append map_append)

lemma offered_grows:
  assumes "offered p b b'" "good_packet p"
  shows "grows b b'"
proof (cases "length (ip_raw p) \<le> sb_remaining b")
  case True
  then have "emits [p] b b'" using assms by (simp add: offered_def appended_def emits_def)
  then show ?thesis by (auto simp: grows_def)
qed (use assms in \<open>simp add: offered_def\<close>)

lemma tcp_reply_good: "tcp_reply pk t flags window payload p \<Longrightarrow> good_packet p"
  by (simp add: tcp_reply_def good_packet_def)

text \<open>The configurations a handler works on: with \<open>idle\<close>, no packet is deferred.\<close>

definition cfg_inv :: "bool \<Rightarrow> tcp_cfg \<Rightarrow> bool" where
  "cfg_inv idle cfg \<longleftrightarrow> cfg_wf cfg \<and> (idle \<longrightarrow> tc_packet_for_client_length (fst cfg) = None)"

definition step_ok :: "bool \<Rightarrow> stream_buffer \<Rightarrow> tcp_cfg option \<Rightarrow> bool" where
  "step_ok k b m \<longleftrightarrow>
     (case m of None \<Rightarrow> False | Some cfg' \<Rightarrow> cfg_inv k cfg' \<and> grows b (snd cfg'))"

lemma step_ok_Some [simp]: "step_ok k b (Some cfg') \<longleftrightarrow> cfg_inv k cfg' \<and> grows b (snd cfg')"
  by (simp add: step_ok_def)

lemma step_okE:
  assumes "step_ok k b m"
  obtains c' b' where "m = Some (c', b')" "cfg_inv k (c', b')" "grows b b'"
  using assms by (auto simp: step_ok_def split: option.splits)

lemma step_ok_bind:
  assumes "step_ok k b m" "\<And>c' b'. cfg_inv k (c', b') \<Longrightarrow> step_ok k b' (f (c', b'))"
  shows "step_ok k b (m \<bind> f)"
  using assms by (cases m) (fastforce simp: step_ok_def intro: grows_trans split: option.splits)+

lemma cfg_inv_frame [simp]:
  "cfg_inv k (c\<lparr>tc_tcb := t\<rparr>, b) = cfg_inv k (c, b)"
  "cfg_inv k (c\<lparr>tc_closed := x\<rparr>, b) = cfg_inv k (c, b)"
  "cfg_inv k (c\<lparr>tc_stream := s\<rparr>, b) = cfg_inv k (c, b)"
  "cfg_inv k (c\<lparr>tc_bytes_sent := n\<rparr>, b) = cfg_inv k (c, b)"
  "cfg_inv k (c\<lparr>tc_bytes_received := n'\<rparr>, b) = cfg_inv k (c, b)"
  "cfg_inv k (tc_close c, b) = cfg_inv k (c, b)"
  by (simp_all add: cfg_inv_def cfg_wf_def tc_wf_def tc_close_def)

lemma send_empty_step:
  assumes wf: "cfg_inv k (c, b)" and fl: "flags_ok flags"
  shows "step_ok k b (send_empty_packet_to_client flags (c, b))"
    "step_ok k b (reply_empty_packet_to_client flags (c, b))"
proof -
  have w: "cfg_wf (c, b)" using wf by (simp add: cfg_inv_def)
  show "step_ok k b (send_empty_packet_to_client flags (c, b))"
    "step_ok k b (reply_empty_packet_to_client flags (c, b))"
    by (rule send_empty_ok [OF w fl];
        use wf in \<open>auto simp: cfg_inv_def dest: offered_grows tcp_reply_good\<close>)+
qed

lemma handle_first_packet_step:
  assumes "cfg_inv k (c, b)"
  shows "step_ok k b (handle_first_packet r h (c, b))"
  using assms by (auto simp: handle_first_packet_def Let_def intro!: step_ok_bind send_empty_step)

lemma handle_duplicate_syn_step:
  assumes "cfg_inv k (c, b)"
  shows "step_ok k b (handle_duplicate_syn h (c, b))"
  using assms by (auto simp: handle_duplicate_syn_def Let_def intro!: step_ok_bind send_empty_step)

lemma do_handle_fin_step:
  assumes "cfg_inv k (c, b)"
  shows "step_ok k b (do_handle_fin (c, b))"
  using assms by (auto simp: do_handle_fin_def Let_def intro!: step_ok_bind send_empty_step)

lemma handle_fin_step:
  assumes "cfg_inv k (c, b)"
  shows "step_ok k b (handle_fin (c, b))"
  using assms by (auto simp: handle_fin_def Let_def intro!: do_handle_fin_step)

lemma handle_fin_ack_step:
  assumes "cfg_inv k (c, b)"
  shows "cfg_inv k (handle_fin_ack_number h (c, b))" "snd (handle_fin_ack_number h (c, b)) = b"
  using assms by (auto simp: handle_fin_ack_number_def handle_fin_ack_def Let_def split: option.splits)

lemma sb_read_from_wf:
  assumes "cfg_inv k (c, b)" "length payload \<le> sb_remaining (tc_client_to_network c)"
  obtains c2n where "sb_read_from payload (tc_client_to_network c) = Some c2n"
    "sb_content c2n = sb_content (tc_client_to_network c) @ payload"
    "cfg_inv k (c\<lparr>tc_tcb := t, tc_client_to_network := c2n\<rparr>, b)"
  using sb_read_from_ok [of "tc_client_to_network c" payload] assms
  by (auto simp: cfg_wf_def tc_wf_def cfg_inv_def)

lemma handle_ack_step:
  assumes wf: "cfg_inv k (c, b)" and p: "ip_payload p = Some pl"
  shows "step_ok k b (handle_ack p (c, b))"
proof (cases "tcb_state (tc_tcb c) = SynReceived \<or> pl = None \<or> pl = Some [] \<or>
    sb_remaining (tc_client_to_network c) < length (the pl)")
  case True
  then show ?thesis
    using wf p by (cases pl) (auto simp: handle_ack_def intro: send_empty_step)
next
  case False
  then obtain payload where pl: "pl = Some payload" "payload \<noteq> []"
      "length payload \<le> sb_remaining (tc_client_to_network c)" by (cases pl) auto
  obtain c2n where "sb_read_from payload (tc_client_to_network c) = Some c2n"
    "cfg_inv k (tcb_update (\<lambda>t. t\<lparr>acknowledgement_number :=
      acknowledgement_number t + of_nat (length payload)\<rparr>) c\<lparr>tc_client_to_network := c2n\<rparr>, b)"
    by (rule sb_read_from_wf [OF wf pl(3)])
  then show ?thesis
    using False p pl by (auto simp: handle_ack_def intro!: send_empty_step)
qed

lemma handle_expected_packet_step:
  assumes wf: "cfg_inv k (c, b)" and p: "ip_payload p = Some pl"
  shows "step_ok k b (handle_expected_packet h p (c, b))"
proof -
  let ?c = "tcb_update (\<lambda>t. t\<lparr>client_window := tcp_window h,
       their_acknowledgement_number := tcp_acknowledgement_number h\<rparr>) c"
  have c: "cfg_inv k (?c, b)" using wf by simp
  have "step_ok k b (do {
      cfg1 \<leftarrow> (if is_ack h then handle_ack p (?c, b) else Some (?c, b));
      cfg2 \<leftarrow> (if is_fin h then handle_fin cfg1 else Some cfg1);
      Some (handle_fin_ack_number h cfg2) })"
  proof (intro step_ok_bind)
    show "step_ok k b (if is_ack h then handle_ack p (?c, b) else Some (?c, b))"
      using handle_ack_step [OF c p] c by simp
    show "step_ok k b' (if is_fin h then handle_fin (c', b') else Some (c', b'))"
      if "cfg_inv k (c', b')" for c' b' using handle_fin_step [OF that] that by simp
    show "step_ok k b' (Some (handle_fin_ack_number h (c', b')))"
      if "cfg_inv k (c', b')" for c' b'
      using handle_fin_ack_step [OF that, of h] by simp
  qed
  then show ?thesis using c by (simp add: handle_expected_packet_def Let_def)
qed

text \<open>The packets the router passes to a TCP connection.\<close>

definition tcp_packet :: "tcp_header_data \<Rightarrow> byte list \<Rightarrow> ip_packet \<Rightarrow> bool" where
  "tcp_packet h payload p \<longleftrightarrow>
     packet_wf p \<and> snd (ip_headers_data p) = Some (TdTcp h) \<and> ip_payload p = Some (Some payload)"

lemma packet_wf_transport_header:
  assumes "packet_wf p" "snd (ip_headers_data p) = Some td"
  obtains raw where "ip_transport_header p = Some (Some (td_bind raw td))"
    "ip_payload p = Some (Some (drop (length raw) (drop (unat (hd_header_length (fst (ip_headers_data p))))
       (ip_raw p))))" "transport_header_ok td raw"
proof -
  obtain d where d: "ip_headers_data p = (d, Some td)" using assms(2) by (metis prod.collapse)
  let ?hl = "unat (hd_header_length d)" and ?tl = "unat (td_header_length td)"
  let ?raw = "take ?tl (drop ?hl (ip_raw p))"
  have p: "p = packet_new (ip_raw p) d td" using packet_new_eta [OF d] by simp
  have wf: "packet_wf (packet_new (ip_raw p) d td)" using assms(1) p by simp
  then have b: "?hl \<le> length (ip_raw p)" "?tl \<le> length (ip_raw p) - ?hl" "transport_header_ok td ?raw"
    by (simp_all add: packet_wf_new Let_def segment_wf_split)
  then have b2: "?hl + ?tl \<le> length (ip_raw p)" by linarith
  have t: "ip_transport_header (packet_new (ip_raw p) d td) = Some (Some (td_bind ?raw td))"
    using b2 by (cases d) (simp_all add: ipv4_packet_new_def ipv6_packet_new_def
      p4_transport_header_def p6_transport_header_def slice_Some)
  have pl: "ip_payload (packet_new (ip_raw p) d td) = Some (Some (drop ?tl (drop ?hl (ip_raw p))))"
    using ip_payload_new [OF b2] by (simp add: add.commute)
  show ?thesis
    using that [of ?raw] t pl b d p by (simp add: min_absorb2 min_absorb1)
qed

lemma tcp_header_of_packet_ok:
  assumes "tcp_packet h payload p"
  obtains raw where "tcp_header_of_packet p = Some (tcp_bind raw h)"
proof -
  have "packet_wf p" "snd (ip_headers_data p) = Some (TdTcp h)"
    using assms by (simp_all add: tcp_packet_def)
  then obtain raw where "ip_transport_header p = Some (Some (td_bind raw (TdTcp h)))"
    by (rule packet_wf_transport_header)
  then show ?thesis by (intro that [of raw]) (simp add: tcp_header_of_packet_def)
qed

lemma handle_packet_eq:
  assumes "tcp_packet h payload p"
  shows "handle_packet random p cfg =
    (let t = tc_tcb (fst cfg) in
     if tcb_state t = Init then handle_first_packet random h cfg
     else if is_syn h then handle_duplicate_syn h cfg
     else if tcp_sequence_number h \<noteq> acknowledgement_number t then
       (if sint (tcp_sequence_number h - acknowledgement_number t) < 0
        then send_empty_packet_to_client FLAG_ACK cfg else Some cfg)
     else handle_expected_packet h p cfg)"
proof -
  obtain raw where "tcp_header_of_packet p = Some (tcp_bind raw h)"
    by (rule tcp_header_of_packet_ok [OF assms])
  then show ?thesis by (simp add: handle_packet_def Let_def)
qed

lemma handle_packet_step:
  assumes "cfg_inv k (c, b)" "tcp_packet h payload p"
  shows "step_ok k b (handle_packet random p (c, b))"
  using assms(1) handle_expected_packet_step [of k c b p "Some payload" h] assms(2)
  by (auto simp: handle_packet_eq [OF assms(2)] Let_def tcp_packet_def
    intro!: handle_first_packet_step handle_duplicate_syn_step send_empty_step)

subsection \<open>Polling\<close>

text \<open>A deferred packet is intact when \<open>inflate\<close> gives it back.\<close>

definition pending_ok :: "tcp_connection \<Rightarrow> bool" where
  "pending_ok c \<longleftrightarrow>
     (case tc_packet_for_client_length c of
        None \<Rightarrow> True
      | Some n \<Rightarrow> (case pk_inflate n (tc_network_to_client c) of
          None \<Rightarrow> False | Some p \<Rightarrow> good_packet p \<and> unat n = length (ip_raw p)))"

definition cfg_good :: "tcp_cfg \<Rightarrow> bool" where
  "cfg_good cfg \<longleftrightarrow> cfg_wf cfg \<and> pending_ok (fst cfg)"

lemma cfg_inv_good: "cfg_inv True cfg \<Longrightarrow> cfg_good cfg"
  by (simp add: cfg_inv_def cfg_good_def pending_ok_def)

definition result_ok :: "(tcp_cfg \<Rightarrow> bool) \<Rightarrow> stream_buffer \<Rightarrow> ('r \<times> tcp_cfg) option \<Rightarrow> bool" where
  "result_ok I b m \<longleftrightarrow>
     (case m of None \<Rightarrow> False | Some (_, cfg') \<Rightarrow> I cfg' \<and> grows b (snd cfg'))"

lemma result_ok_Some [simp]: "result_ok I b (Some (r, cfg')) \<longleftrightarrow> I cfg' \<and> grows b (snd cfg')"
  by (simp add: result_ok_def)

lemma result_ok_bind:
  assumes "result_ok J b m" "\<And>r c' b'. J (c', b') \<Longrightarrow> result_ok I b' (f (r, c', b'))"
  shows "result_ok I b (m \<bind> f)"
  using assms by (cases m) (fastforce simp: result_ok_def intro: grows_trans split: option.splits)+

lemma step_ok_bind_result:
  assumes "step_ok k b m" "\<And>c' b'. cfg_inv k (c', b') \<Longrightarrow> result_ok I b' (f (c', b'))"
  shows "result_ok I b (m \<bind> f)"
  using assms
  by (cases m) (fastforce simp: step_ok_def result_ok_def intro: grows_trans split: option.splits)+

lemma send_empty_result:
  assumes "cfg_inv k (c, b)" "flags_ok flags"
    "\<And>c' b'. cfg_inv k (c', b') \<Longrightarrow> result_ok I b' (f (c', b'))"
  shows "result_ok I b (send_empty_packet_to_client flags (c, b) \<bind> f)"
  using step_ok_bind_result [OF send_empty_step(1)] assms by blast

lemma tc_process_send_ok:
  assumes wf: "cfg_inv True (c, b)"
  shows "result_ok (cfg_inv True) b (tc_process_send (c, b))"
proof -
  obtain r c2n s' where w: "sb_write_to (tc_client_to_network c) (tc_stream c) = Some (r, c2n, s')"
    "sb_wf c2n"
    using sb_write_to_ok [of "tc_client_to_network c" "tc_stream c"] wf
    by (auto simp: cfg_inv_def cfg_wf_def tc_wf_def)
  let ?c = "c\<lparr>tc_client_to_network := c2n, tc_stream := s'\<rparr>"
  have c: "cfg_inv True (?c, b)" using wf w(2) by (simp add: cfg_inv_def cfg_wf_def tc_wf_def)
  show ?thesis
  proof (cases r)
    case (Inl e)
    then show ?thesis
      using c w(1) by (auto simp: tc_process_send_def Let_def intro!: send_empty_result)
  next
    case (Inr n)
    let ?c2 = "?c\<lparr>tc_bytes_sent := tc_bytes_sent ?c + of_nat n\<rparr>"
    have "cfg_inv True (?c2, b)" using c by simp
    then have "step_ok True b
        (if fin_received (tc_tcb ?c2) \<and> sb_is_empty (tc_client_to_network ?c2)
         then do_handle_fin (?c2, b) else send_empty_packet_to_client FLAG_ACK (?c2, b))"
      using do_handle_fin_step send_empty_step(1) by (simp only: flags_ok_simps split: if_split) simp
    from step_ok_bind_result [OF this, of "cfg_inv True" "\<lambda>cfg. Some (Inr (), cfg)"] show ?thesis
      using Inr c w(1) by (auto simp: tc_process_send_def Let_def)
  qed
qed

lemma tc_eof_step:
  assumes "cfg_inv k (c, b)"
  shows "step_ok k b (tc_eof (c, b))"
  using assms by (auto simp: tc_eof_def intro!: step_ok_bind send_empty_step)

lemma tc_process_connect_step:
  assumes "cfg_inv k (c, b)"
  shows "step_ok k b (tc_process_connect (c, b))"
  using assms by (auto simp: tc_process_connect_def intro!: step_ok_bind send_empty_step)

text \<open>One round of the receive loop. A chunk that arrives is sent or deferred, whole, in a packet
  that \<open>inflate\<close> can give back.\<close>

definition chunk_limit :: "tcb \<Rightarrow> nat" where
  "chunk_limit t = unat (min (remaining_client_window t) MAX_PAYLOAD_LENGTH)"

lemma chunk_limit_le: "chunk_limit t \<le> 1460" "chunk_limit t \<le> unat (remaining_client_window t)"
proof -
  have "unat MAX_PAYLOAD_LENGTH = 1460" by (simp add: MAX_PAYLOAD_LENGTH_def MTU_def)
  then show "chunk_limit t \<le> 1460" "chunk_limit t \<le> unat (remaining_client_window t)"
    by (auto simp: chunk_limit_def min_def word_le_nat_alt not_le)
qed

definition receive_headers :: "tcp_connection \<Rightarrow> packetizer option" where
  "receive_headers c =
     update_headers (tc_tcb c) (FLAG_ACK OR FLAG_PSH) (advertised_window c) (tc_network_to_client c)"

text \<open>The packet for a chunk: its headers, and the packetizer after it.\<close>

definition chunk_packet :: "tcp_connection \<Rightarrow> byte list \<Rightarrow> ip_packet \<Rightarrow> packetizer \<Rightarrow> bool" where
  "chunk_packet c bs p pk' \<longleftrightarrow>
     tcp_reply (tc_network_to_client c) (tc_tcb c) (FLAG_ACK OR FLAG_PSH) (advertised_window c) bs p \<and>
     pk_after (tc_network_to_client c) p pk' \<and> pk_inflate (ip_length p) pk' = Some p"

lemma packetize_read_ok:
  assumes wf: "tcp_pk_wf (tc_network_to_client c)"
    and m: "m = Some (chunk_limit (tc_tcb c))"
  obtains pk r s' pk' where "receive_headers c = Some pk"
    "packetize_read s m pk = Some (r, s', pk')" "tcp_pk_wf pk'"
    "(case r of Inr (Some p) \<Rightarrow> \<exists>bs. chunk_packet c bs p pk' \<and> bs \<noteq> [] \<and>
        length bs \<le> chunk_limit (tc_tcb c) \<and>
        read_adapter_recv m (MAX_PACKET_LENGTH - pk_payload_index pk) s = (Inr bs, s')
      | Inr None \<Rightarrow> read_adapter_recv m (MAX_PACKET_LENGTH - pk_payload_index pk) s = (Inr [], s')
      | Inl e \<Rightarrow> read_adapter_recv m (MAX_PACKET_LENGTH - pk_payload_index pk) s = (Inl e, s'))"
proof -
  let ?pk0 = "tc_network_to_client c"
  obtain d where d: "pk_transport ?pk0 = TdTcp d" by (rule tcp_pk_wf_TdTcp [OF wf])
  have fl: "flags_ok (FLAG_ACK OR FLAG_PSH)" by simp
  obtain pk where 1: "receive_headers c = Some pk" "tcp_pk_wf pk" "pk_same_shape ?pk0 pk"
    "pk_ip pk = pk_ip ?pk0"
    "pk_transport pk = TdTcp (tcp_data_with (tc_tcb c) (FLAG_ACK OR FLAG_PSH) (advertised_window c) d)"
    unfolding receive_headers_def by (rule update_headers_ok [OF wf fl d])
  have w: "pk_wf pk" using 1(2) by (simp add: tcp_pk_wf_def)
  note b = pk_wf_bounds [OF w]
  obtain res s' where rd: "read_adapter_recv m (MAX_PACKET_LENGTH - pk_payload_index pk) s = (res, s')"
    by fastforce
  have len: "length (pk_buffer pk) = MAX_PACKET_LENGTH" "\<not> MAX_PACKET_LENGTH < pk_payload_index pk"
    using b by (simp_all add: MAX_PACKET_LENGTH_def)
  show ?thesis
  proof (cases "\<exists>bs. res = Inr bs \<and> bs \<noteq> []")
    case False
    then show ?thesis
      using that [OF 1(1), of "case res of Inl e \<Rightarrow> Inl e | Inr _ \<Rightarrow> Inr None" s' pk] 1(2) rd len
      by (cases res) (simp_all add: packetize_read_def)
  next
    case True
    then obtain bs where bs: "res = Inr bs" "bs \<noteq> []" by blast
    then have le: "length bs \<le> chunk_limit (tc_tcb c)"
      using read_adapter_recv_le rd m by blast
    then have "pk_payload_index pk + length bs < MAX_PACKET_LENGTH"
      using chunk_limit_le(1) [of "tc_tcb c"] b(2) by (simp add: MAX_PACKET_LENGTH_def)
    then obtain p pk' where 2:
      "(do { pk1 \<leftarrow> pk_store_payload bs pk; pk_build (of_nat (length bs)) pk1 }) = Some (p, pk')"
      "built pk bs p" "pk_wf pk'" "pk_same_shape pk pk'" "pk_transport pk' = pk_transport pk"
      "pk_ip pk' = fst (ip_headers_data p)" "ip_raw p = take (length (ip_raw p)) (pk_buffer pk')"
      by (rule pk_store_and_build_ok [OF w])
    then have run: "packetize_read s m pk = Some (Inr (Some p), s', pk')"
      using rd bs len by (auto simp: packetize_read_def split: Option.bind_splits)
    have t: "tcp_reply ?pk0 (tc_tcb c) (FLAG_ACK OR FLAG_PSH) (advertised_window c) bs p"
      using 2(2) 1(3-5) d by (simp add: tcp_reply_def built_def pk_same_shape_def)
    have a: "pk_after ?pk0 p pk'"
      using 1 2(2-7) by (auto simp: pk_after_def tcp_pk_wf_def built_def pk_same_shape_def prod_eq_iff)
    have l: "unat (ip_length p) = length (ip_raw p)" using 2(2) packet_wf_length by (simp add: built_def)
    have "length (ip_raw p) \<le> length (pk_buffer pk')"
      using 2(7) by (metis length_take min.cobounded1)
    from pk_inflate_built [OF 2(2) 2(7) 2(6) 2(5) l this]
    have "chunk_packet c bs p pk'" using t a by (simp add: chunk_packet_def)
    then show ?thesis
      using that [OF 1(1) run] a bs rd le by (auto simp: pk_after_def)
  qed
qed

text \<open>The connection after a chunk of \<open>n\<close> bytes was read into packetizer \<open>pk\<close>.\<close>

definition after_read :: "packetizer \<Rightarrow> stream \<Rightarrow> nat \<Rightarrow> tcp_connection \<Rightarrow> tcp_connection" where
  "after_read pk s n c = c\<lparr>tc_network_to_client := pk, tc_stream := s,
     tc_bytes_received := tc_bytes_received c + of_nat n\<rparr>"

lemma tc_receive_one_data:
  assumes wf: "cfg_inv True (c, b)" and w: "remaining_client_window (tc_tcb c) \<noteq> 0"
    and h: "receive_headers c = Some pk"
    and r: "packetize_read (tc_stream c) (Some (chunk_limit (tc_tcb c))) pk =
      Some (Inr (Some p), s', pk')"
    and p: "chunk_packet c bs p pk'"
  defines "c1 \<equiv> after_read pk' s' (length bs) c"
  shows "length (ip_raw p) \<le> sb_remaining b \<Longrightarrow> \<exists>b'. tc_receive_one made (c, b) = Some (Inl True,
      tcb_update (\<lambda>t. t\<lparr>sequence_number := sequence_number t + of_nat (length bs)\<rparr>) c1, b') \<and>
      appended (ip_raw p) b b' \<and> out_wf b'"
    and "sb_remaining b < length (ip_raw p) \<Longrightarrow> tc_receive_one made (c, b) =
      Some (Inr made, c1\<lparr>tc_packet_for_client_length := Some (ip_length p)\<rparr>, b)"
proof -
  have b: "out_wf b" "tc_packet_for_client_length c = None"
    using wf by (simp_all add: cfg_inv_def cfg_wf_def)
  have pw: "packet_wf p" "ip_payload p = Some (Some bs)"
    using p by (simp_all add: chunk_packet_def tcp_reply_def)
  obtain r b' where st: "send_to_client p b = Some (r, b')" "offered p b b'" "out_wf b'"
    "r = (if length (ip_raw p) \<le> sb_remaining b then Inr () else Inl WouldBlock)"
    by (rule send_to_client_offered [OF b(1) pw(1)])
  note run = b(2) w h [unfolded receive_headers_def] r [unfolded chunk_limit_def] pw(2) st(1)
  show "\<exists>b'. tc_receive_one made (c, b) = Some (Inl True,
      tcb_update (\<lambda>t. t\<lparr>sequence_number := sequence_number t + of_nat (length bs)\<rparr>) c1, b') \<and>
      appended (ip_raw p) b b' \<and> out_wf b'" if "length (ip_raw p) \<le> sb_remaining b"
    using that st(2-4) by (simp add: tc_receive_one_def run c1_def after_read_def offered_def Let_def)
  show "tc_receive_one made (c, b) =
      Some (Inr made, c1\<lparr>tc_packet_for_client_length := Some (ip_length p)\<rparr>, b)"
    if "sb_remaining b < length (ip_raw p)"
    using that st(2-4) by (simp add: tc_receive_one_def run c1_def after_read_def offered_def Let_def)
qed

definition round_ok :: "stream_buffer \<Rightarrow> ((bool + bool) \<times> tcp_cfg) option \<Rightarrow> bool" where
  "round_ok b m \<longleftrightarrow>
     (case m of None \<Rightarrow> False
      | Some (Inl _, cfg') \<Rightarrow> cfg_inv True cfg' \<and> grows b (snd cfg')
      | Some (Inr _, cfg') \<Rightarrow> cfg_good cfg' \<and> grows b (snd cfg'))"

lemma round_ok_Some [simp]:
  "round_ok b (Some (Inl x, cfg')) \<longleftrightarrow> cfg_inv True cfg' \<and> grows b (snd cfg')"
  "round_ok b (Some (Inr x, cfg')) \<longleftrightarrow> cfg_good cfg' \<and> grows b (snd cfg')"
  by (simp_all add: round_ok_def)

lemma appended_grows: "appended (ip_raw p) b b' \<Longrightarrow> good_packet p \<Longrightarrow> grows b b'"
  unfolding grows_def by (rule exI [of _ "[p]"]) (simp add: appended_def emits_def)

lemma tc_receive_one_ok:
  assumes wf: "cfg_inv True (c, b)"
  shows "round_ok b (tc_receive_one made (c, b))"
proof (cases "remaining_client_window (tc_tcb c) = 0")
  case True
  have "tc_packet_for_client_length c = None" using wf by (simp add: cfg_inv_def)
  then show ?thesis using True wf cfg_inv_good by (simp add: tc_receive_one_def)
next
  case False
  have w: "tcp_pk_wf (tc_network_to_client c)" "sb_wf (tc_client_to_network c)" "out_wf b"
    and idle: "tc_packet_for_client_length c = None"
    using wf by (simp_all add: cfg_inv_def cfg_wf_def tc_wf_def)
  obtain pk r s' pk' where h: "receive_headers c = Some pk"
    and r: "packetize_read (tc_stream c) (Some (chunk_limit (tc_tcb c))) pk = Some (r, s', pk')"
    and pk': "tcp_pk_wf pk'"
    and c: "case r of Inr (Some p) \<Rightarrow> \<exists>bs. chunk_packet c bs p pk' \<and> bs \<noteq> [] \<and>
        length bs \<le> chunk_limit (tc_tcb c) \<and>
        read_adapter_recv (Some (chunk_limit (tc_tcb c))) (MAX_PACKET_LENGTH - pk_payload_index pk)
          (tc_stream c) = (Inr bs, s')
      | Inr None \<Rightarrow> read_adapter_recv (Some (chunk_limit (tc_tcb c)))
          (MAX_PACKET_LENGTH - pk_payload_index pk) (tc_stream c) = (Inr [], s')
      | Inl e \<Rightarrow> read_adapter_recv (Some (chunk_limit (tc_tcb c)))
          (MAX_PACKET_LENGTH - pk_payload_index pk) (tc_stream c) = (Inl e, s')"
    by (rule packetize_read_ok [OF w(1) refl])
  let ?c = "c\<lparr>tc_network_to_client := pk', tc_stream := s'\<rparr>"
  have c1: "cfg_inv True (?c, b)" using pk' w idle by (simp add: cfg_inv_def cfg_wf_def tc_wf_def)
  note run = tc_receive_one_def h [unfolded receive_headers_def] r [unfolded chunk_limit_def]
    idle False Let_def
  consider (error) e where "r = Inl e" | (eof) "r = Inr None" | (data) p where "r = Inr (Some p)"
    by (cases r) auto
  then show ?thesis
  proof cases
    case error
    have "step_ok True b (send_empty_packet_to_client FLAG_RST (?c, b))"
      by (rule send_empty_step [OF c1]) simp
    then show ?thesis
      using error c1 cfg_inv_good by (auto simp: run elim!: step_okE)
  next
    case eof
    then show ?thesis
      using tc_eof_step [OF c1] cfg_inv_good by (auto simp: run elim!: step_okE)
  next
    case data
    then obtain bs where p: "chunk_packet c bs p pk'" using c by auto
    then have gp: "good_packet p" using tcp_reply_good by (auto simp: chunk_packet_def)
    note one = tc_receive_one_data [OF wf False h r [unfolded data] p, of made]
    show ?thesis
    proof (cases "length (ip_raw p) \<le> sb_remaining b")
      case True
      then show ?thesis
        using one(1) pk' w idle appended_grows [OF _ gp]
        by (auto simp: after_read_def cfg_inv_def cfg_wf_def tc_wf_def)
    next
      case False
      have "unat (ip_length p) = length (ip_raw p)"
        using gp packet_wf_length by (simp add: good_packet_def)
      then have "pending_ok (after_read pk' s' (length bs) c
          \<lparr>tc_packet_for_client_length := Some (ip_length p)\<rparr>)"
        using p gp by (simp add: pending_ok_def chunk_packet_def after_read_def)
      then show ?thesis
        using one(2) False pk' w
        by (auto simp: after_read_def cfg_good_def cfg_wf_def tc_wf_def)
    qed
  qed
qed

lemma tc_receive_loop_ok:
  "cfg_inv True (c, b) \<Longrightarrow> result_ok cfg_good b (tc_receive_loop n made (c, b))"
proof (induction n arbitrary: made c b)
  case 0
  then show ?case using cfg_inv_good by simp
next
  case (Suc n)
  from tc_receive_one_ok [OF Suc.prems, of made] obtain r c' b' where
    r: "tc_receive_one made (c, b) = Some (r, c', b')" and ok: "round_ok b (Some (r, c', b'))"
    by (auto simp: round_ok_def split: option.splits)
  show ?case
  proof (cases r)
    case (Inl made')
    then have "cfg_inv True (c', b')" "grows b b'" using ok by simp_all
    then show ?thesis
      using Suc.IH [of c' b' made'] r Inl
      by (auto simp: result_ok_def intro: grows_trans split: option.splits)
  qed (use r ok in simp)
qed

lemma tc_process_receive_ok:
  assumes "cfg_inv True (c, b)"
  shows "result_ok cfg_good b (tc_process_receive (c, b))"
  using tc_receive_loop_ok [OF assms] unfolding tc_process_receive_def
  by (rule result_ok_bind) (simp split: prod.split)

lemma tc_process_receive_WouldBlock:
  "tc_process_receive cfg = Some (Inl e, cfg') \<Longrightarrow> e = WouldBlock"
  by (auto simp: tc_process_receive_def split: Option.bind_splits if_splits)

text \<open>Writing never ends the poll by itself, nor does reading: their errors are handled inside.\<close>

lemma tc_process_send_WouldBlock:
  "tc_process_send cfg = Some (Inl e, cfg') \<Longrightarrow> e = WouldBlock"
  by (cases cfg) (auto simp: tc_process_send_def Let_def split: Option.bind_splits if_splits sum.splits)

lemma tc_poll_pending_ok:
  assumes good: "cfg_good (c, b)"
  obtains r c' b' where "tc_poll_pending (c, b) = Some (r, c', b')" "cfg_good (c', b')" "grows b b'"
    "\<And>m. r = Inr m \<Longrightarrow> cfg_inv True (c', b')"
proof (cases "tc_packet_for_client_length c")
  case None
  then show ?thesis
    using that [of "Inr False" c b] good by (simp add: tc_poll_pending_def cfg_good_def cfg_inv_def)
next
  case (Some n)
  have w: "cfg_wf (c, b)" and "pending_ok c" using good by (simp_all add: cfg_good_def)
  then obtain p where p: "pk_inflate n (tc_network_to_client c) = Some p" "good_packet p"
    using Some by (auto simp: pending_ok_def split: option.splits)
  have ob: "out_wf b" and pw: "packet_wf p"
    using w p(2) by (simp_all add: cfg_wf_def good_packet_def)
  obtain r b' where st: "send_to_client p b = Some (r, b')" "offered p b b'" "out_wf b'"
    "r = (if length (ip_raw p) \<le> sb_remaining b then Inr () else Inl WouldBlock)"
    by (rule send_to_client_offered [OF ob pw])
  show ?thesis
  proof (cases "length (ip_raw p) \<le> sb_remaining b")
    case True
    let ?c = "tcb_update (\<lambda>t. t\<lparr>sequence_number := sequence_number t + ucast n\<rparr>) c
        \<lparr>tc_packet_for_client_length := None\<rparr>"
    have i: "cfg_inv True (?c, b')" using w st(3) by (simp add: cfg_inv_def cfg_wf_def tc_wf_def)
    then show ?thesis
      using that [of "Inr True" ?c b'] Some p(1) st True offered_grows [OF st(2) p(2)]
      by (simp add: tc_poll_pending_def flush_pending_packet_def cfg_inv_good)
  next
    case False
    then have "b' = b" using st(2) by (simp add: offered_def)
    then show ?thesis
      using that [of "Inl (Inl WouldBlock)" c b] Some p(1) st False good
      by (simp add: tc_poll_pending_def flush_pending_packet_def)
  qed
qed

lemma tc_poll_write_ok:
  assumes wf: "cfg_inv True (c, b)"
  shows "result_ok (cfg_inv True) b (tc_poll_write m (c, b)) \<and>
    (\<forall>r cfg'. tc_poll_write m (c, b) \<noteq> Some (Inl r, cfg'))"
  using tc_process_send_ok [OF wf] wf tc_process_send_WouldBlock [of "(c, b)"]
  by (auto simp: tc_poll_write_def result_ok_def split: option.splits sum.splits if_splits
    Option.bind_splits)

lemma tc_poll_read_ok:
  assumes wf: "cfg_inv True (c, b)"
  shows "result_ok cfg_good b (tc_poll_read m (c, b)) \<and>
    (\<forall>r cfg'. tc_poll_read m (c, b) \<noteq> Some (Inl r, cfg'))"
  using tc_process_receive_ok [OF wf] cfg_inv_good [OF wf]
    tc_process_receive_WouldBlock [of "(c, b)"]
  by (auto simp: tc_poll_read_def result_ok_def split: option.splits sum.splits if_splits
    Option.bind_splits)

end
