(* ===== verification/Tcp_States.thy ===== *)
theory Tcp_States
  imports Tcp_Invariants
begin

text \<open>
  The state machine of \<open>Tcp_Connection\<close>: the transitions a handler or a poll can take, and the
  poll as a whole, which never panics and keeps the invariants.
\<close>

subsection \<open>The state machine\<close>

inductive tcp_edge :: "tcp_state \<Rightarrow> tcp_state \<Rightarrow> bool" where
  syn: "tcp_edge Init SynSent"
| connect: "tcp_edge SynSent SynReceived"
| ack: "tcp_edge SynReceived Established"
| client_fin: "tcp_edge Established LastAck"
| network_eof: "tcp_edge Established FinWait1"
| both_fin: "tcp_edge FinWait1 Closing"
| fin_ack: "tcp_edge FinWait1 FinWait2"

inductive_simps tcp_edge_simps [simp]:
  "tcp_edge Init s" "tcp_edge SynSent s" "tcp_edge SynReceived s" "tcp_edge Established s"
  "tcp_edge LastAck s" "tcp_edge Closing s" "tcp_edge FinWait1 s" "tcp_edge FinWait2 s"

text \<open>The edges only lead forward: reachability orders the states, and a connection changes its state at
  most five times.\<close>

fun tcp_rank :: "tcp_state \<Rightarrow> nat" where
  "tcp_rank Init = 0"
| "tcp_rank SynSent = 1"
| "tcp_rank SynReceived = 2"
| "tcp_rank Established = 3"
| "tcp_rank LastAck = 4"
| "tcp_rank FinWait1 = 4"
| "tcp_rank Closing = 5"
| "tcp_rank FinWait2 = 5"

lemma tcp_rank_le: "tcp_rank s \<le> 5"
  by (cases s) simp_all

lemma tcp_edge_rank: "tcp_edge s s' \<Longrightarrow> tcp_rank s' = Suc (tcp_rank s)"
  by (cases s) auto

lemma tcp_edges_rank: "(tcp_edge ^^ n) s s' \<Longrightarrow> tcp_rank s' = tcp_rank s + n"
  by (induction n arbitrary: s') (auto dest: tcp_edge_rank)

instantiation tcp_state :: order
begin

definition less_eq_tcp_state :: "tcp_state \<Rightarrow> tcp_state \<Rightarrow> bool" where
  "s \<le> s' \<longleftrightarrow> tcp_edge\<^sup>*\<^sup>* s s'"

definition less_tcp_state :: "tcp_state \<Rightarrow> tcp_state \<Rightarrow> bool" where
  "s < s' \<longleftrightarrow> tcp_edge\<^sup>*\<^sup>* s s' \<and> \<not> tcp_edge\<^sup>*\<^sup>* s' s"

instance
proof
  fix s s' :: tcp_state
  assume "s \<le> s'" "s' \<le> s"
  then obtain m n where "(tcp_edge ^^ m) s s'" "(tcp_edge ^^ n) s' s"
    by (auto simp: less_eq_tcp_state_def rtranclp_power)
  with tcp_edges_rank [of m s s'] tcp_edges_rank [of n s' s] show "s = s'" by simp
qed (auto simp: less_eq_tcp_state_def less_tcp_state_def)

end

lemma tcp_state_less: "s \<le> s' \<Longrightarrow> s = s' \<or> tcp_rank s < tcp_rank (s' :: tcp_state)"
  using tcp_edges_rank by (fastforce simp: less_eq_tcp_state_def rtranclp_power)

text \<open>What a step may do to a connection: follow edges, and close for good.\<close>

definition evolves :: "tcp_connection \<Rightarrow> tcp_connection \<Rightarrow> bool" where
  "evolves c c' \<longleftrightarrow> tcp_edge\<^sup>*\<^sup>* (tcb_state (tc_tcb c)) (tcb_state (tc_tcb c')) \<and>
     (tc_closed c \<longrightarrow> tc_closed c') \<and> tc_id c' = tc_id c"

lemma evolves_refl [simp]: "evolves c c"
  by (simp add: evolves_def)

lemma evolves_trans: "evolves c c1 \<Longrightarrow> evolves c1 c2 \<Longrightarrow> evolves c c2"
  by (auto simp: evolves_def)

lemma evolves_same:
  "tcb_state (tc_tcb c') = tcb_state (tc_tcb c) \<Longrightarrow> tc_closed c' = tc_closed c \<or> tc_closed c' \<Longrightarrow>
   tc_id c' = tc_id c \<Longrightarrow> evolves c c'"
  by (auto simp: evolves_def)

lemma send_empty_D:
  "send_empty_packet_to_client flags (c, b) = Some (c', b') \<Longrightarrow>
   \<exists>pk. c' = c\<lparr>tc_network_to_client := pk\<rparr>"
  by (auto simp: send_empty_packet_to_client_def split: Option.bind_splits)

lemma reply_empty_D:
  "reply_empty_packet_to_client flags (c, b) = Some (c', b') \<Longrightarrow>
   \<exists>pk. c' = c\<lparr>tc_network_to_client := pk\<rparr>"
  by (auto simp: reply_empty_packet_to_client_def split: Option.bind_splits)

text \<open>The edges taken, for \<open>auto\<close>.\<close>

lemma edge_reach [intro]: "tcp_edge s s' \<Longrightarrow> tcp_edge\<^sup>*\<^sup>* s s'"
  by (rule r_into_rtranclp)

lemma edge_reach_simps [simp]:
  "tcp_edge\<^sup>*\<^sup>* Init SynSent" "tcp_edge\<^sup>*\<^sup>* SynSent SynReceived"
  "tcp_edge\<^sup>*\<^sup>* SynReceived Established" "tcp_edge\<^sup>*\<^sup>* Established LastAck"
  "tcp_edge\<^sup>*\<^sup>* Established FinWait1" "tcp_edge\<^sup>*\<^sup>* FinWait1 Closing"
  "tcp_edge\<^sup>*\<^sup>* FinWait1 FinWait2"
  by (rule edge_reach, simp)+

lemma do_handle_fin_evolves:
  "do_handle_fin (c, b) = Some (c', b') \<Longrightarrow> evolves c c'"
  by (auto simp: do_handle_fin_def Let_def evolves_def tc_close_def split: Option.bind_splits if_splits
    dest!: send_empty_D)

lemma handle_fin_evolves:
  assumes "handle_fin (c, b) = Some (c', b')"
  shows "evolves c c'"
proof -
  let ?c = "tcb_update (\<lambda>t. t\<lparr>fin_received := True\<rparr>) c"
  have "evolves c ?c" by (rule evolves_same) simp_all
  then show ?thesis
    using assms do_handle_fin_evolves [of ?c b c' b'] evolves_trans [of c ?c c']
    by (auto simp: handle_fin_def Let_def split: if_splits)
qed

lemma handle_ack_evolves:
  "handle_ack p (c, b) = Some (c', b') \<Longrightarrow> evolves c c'"
  by (auto simp: handle_ack_def Let_def evolves_def split: Option.bind_splits if_splits option.splits
    dest!: send_empty_D)

lemma handle_fin_ack_evolves: "evolves c (fst (handle_fin_ack_number h (c, b)))"
  by (auto simp: handle_fin_ack_number_def handle_fin_ack_def Let_def evolves_def tc_close_def
    split: option.splits)

lemma handle_expected_packet_evolves:
  assumes "handle_expected_packet h p (c, b) = Some (c', b')"
  shows "evolves c c'"
proof -
  let ?c = "tcb_update (\<lambda>t. t\<lparr>client_window := tcp_window h,
       their_acknowledgement_number := tcp_acknowledgement_number h\<rparr>) c"
  have 0: "evolves c ?c" by (rule evolves_same) simp_all
  show ?thesis
  proof (cases "is_rst h")
    case True
    then have "c' = tc_close ?c" using assms by (simp add: handle_expected_packet_def Let_def)
    then show ?thesis by (simp add: evolves_def tc_close_def)
  next
    case False
    then obtain c1 b1 c2 b2 where
      1: "(if is_ack h then handle_ack p (?c, b) else Some (?c, b)) = Some (c1, b1)" and
      2: "(if is_fin h then handle_fin (c1, b1) else Some (c1, b1)) = Some (c2, b2)" and
      3: "(c', b') = handle_fin_ack_number h (c2, b2)"
      using assms by (auto simp: handle_expected_packet_def Let_def split: Option.bind_splits)
    have "evolves ?c c1" using 1 handle_ack_evolves by (auto split: if_splits)
    moreover have "evolves c1 c2" using 2 handle_fin_evolves by (auto split: if_splits)
    moreover have "evolves c2 c'" using 3 handle_fin_ack_evolves by (metis fst_conv)
    ultimately show ?thesis using 0 evolves_trans by meson
  qed
qed

lemma send_empty_evolves:
  "send_empty_packet_to_client flags (c, b) = Some (c', b') \<Longrightarrow> evolves c c'"
  by (auto dest!: send_empty_D intro: evolves_same)

lemma handle_first_packet_evolves:
  "handle_first_packet r h (c, b) = Some (c', b') \<Longrightarrow> tcb_state (tc_tcb c) = Init \<Longrightarrow> evolves c c'"
  by (auto simp: handle_first_packet_def Let_def evolves_def tc_close_def
    split: Option.bind_splits if_splits dest!: reply_empty_D)

lemma handle_duplicate_syn_evolves:
  "handle_duplicate_syn h (c, b) = Some (c', b') \<Longrightarrow> evolves c c'"
  by (auto simp: handle_duplicate_syn_def Let_def evolves_def tc_close_def
    split: Option.bind_splits if_splits dest!: reply_empty_D)

lemma handle_packet_evolves:
  assumes "handle_packet random p (c, b) = Some (c', b')"
  shows "evolves c c'"
  using assms handle_first_packet_evolves handle_duplicate_syn_evolves send_empty_evolves
    handle_expected_packet_evolves
  by (auto simp: handle_packet_def Let_def split: Option.bind_splits if_splits)

lemma flush_pending_D:
  "flush_pending_packet (c, b) = Some (r, c', b') \<Longrightarrow>
   tcb_state (tc_tcb c') = tcb_state (tc_tcb c) \<and> tc_closed c' = tc_closed c \<and> tc_id c' = tc_id c"
  by (auto simp: flush_pending_packet_def split: Option.bind_splits option.splits sum.splits)

lemma tc_process_send_evolves:
  assumes "tc_process_send (c, b) = Some (r, c', b')"
  shows "evolves c c'"
proof -
  obtain res c2n s where w: "sb_write_to (tc_client_to_network c) (tc_stream c) = Some (res, c2n, s)"
    using assms by (auto simp: tc_process_send_def split: Option.bind_splits)
  let ?c = "c\<lparr>tc_client_to_network := c2n, tc_stream := s\<rparr>"
  have 0: "evolves c (?c\<lparr>tc_bytes_sent := n\<rparr>)" "evolves c ?c" for n
    by (rule evolves_same; simp)+
  have 1: "evolves c c1" if "send_empty_packet_to_client f (?c, b) = Some (c1, b1)" for f c1 b1
    using evolves_trans [OF 0(2) send_empty_evolves [OF that]] .
  have 2: "evolves c c1"
    if "send_empty_packet_to_client f (?c\<lparr>tc_bytes_sent := n\<rparr>, b) = Some (c1, b1)" for f n c1 b1
    using evolves_trans [OF 0(1) send_empty_evolves [OF that]] .
  have 4: "evolves c c1" if "do_handle_fin (?c\<lparr>tc_bytes_sent := n\<rparr>, b) = Some (c1, b1)" for n c1 b1
    using evolves_trans [OF 0(1) do_handle_fin_evolves [OF that]] .
  have 3: "evolves c (tc_close c1)" if "evolves c c1" for c1
    using that by (simp add: evolves_def tc_close_def)
  show ?thesis
    using assms w 0(2)
    by (auto simp: tc_process_send_def Let_def split: Option.bind_splits if_splits sum.splits
      dest: 1 2 4 intro: 3)
qed

lemma tc_eof_evolves:
  "tc_eof (c, b) = Some (c', b') \<Longrightarrow> tcb_state (tc_tcb c) = Established \<Longrightarrow>
   evolves c c' \<and> tcb_state (tc_tcb c') = FinWait1"
  by (auto simp: tc_eof_def Let_def evolves_def split: Option.bind_splits dest!: send_empty_D)

lemma tc_receive_one_evolves:
  assumes "tc_receive_one m (c, b) = Some (r, c', b')" "tcb_state (tc_tcb c) = Established"
  shows "evolves c c'" "tcb_state (tc_tcb c') \<in> {Established, FinWait1}"
    "\<And>m'. r = Inl m' \<Longrightarrow> tcb_state (tc_tcb c') = Established"
proof -
  have "evolves c c' \<and> tcb_state (tc_tcb c') \<in> {Established, FinWait1} \<and>
      (\<forall>m'. r = Inl m' \<longrightarrow> tcb_state (tc_tcb c') = Established)"
  proof (cases "tc_packet_for_client_length c \<noteq> None \<or> remaining_client_window (tc_tcb c) = 0")
    case True
    then have "tc_receive_one m (c, b) = Some (Inr m, c, b)" by (auto simp: tc_receive_one_def)
    then show ?thesis using assms by auto
  next
    case False
    obtain pk where pk: "update_headers (tc_tcb c) (FLAG_ACK OR FLAG_PSH) (advertised_window c)
        (tc_network_to_client c) = Some pk"
      using assms(1) False by (auto simp: tc_receive_one_def split: Option.bind_splits)
    obtain res s' pk' where rd: "packetize_read (tc_stream c)
        (Some (unat (min (remaining_client_window (tc_tcb c)) MAX_PAYLOAD_LENGTH))) pk =
        Some (res, s', pk')"
      using assms(1) False pk by (auto simp: tc_receive_one_def split: Option.bind_splits)
    let ?c = "c\<lparr>tc_network_to_client := pk', tc_stream := s'\<rparr>"
    have 0: "evolves c ?c" by (rule evolves_same) simp_all
    have idle: "tc_packet_for_client_length c = None" "remaining_client_window (tc_tcb c) \<noteq> 0"
      using False by simp_all
    note run = tc_receive_one_def idle pk rd Let_def
    consider (err) e where "res = Inl e" | (eof) "res = Inr None" | (data) p where "res = Inr (Some p)"
      by (cases res) auto
    then show ?thesis
    proof cases
      case err
      then show ?thesis
        using assms
        by (auto simp: run evolves_def tc_close_def split: Option.bind_splits if_splits
          dest!: send_empty_D)
    next
      case eof
      then have "r = Inr True" "tc_eof (?c, b) = Some (c', b')"
        using assms(1) by (auto simp: run split: Option.bind_splits)
      then show ?thesis
        using tc_eof_evolves [of ?c b c' b'] assms(2) evolves_trans [OF 0] by auto
    next
      case data
      then show ?thesis
        using assms
        by (auto simp: run evolves_def split: Option.bind_splits sum.splits)
    qed
  qed
  then show "evolves c c'" "tcb_state (tc_tcb c') \<in> {Established, FinWait1}"
    "\<And>m'. r = Inl m' \<Longrightarrow> tcb_state (tc_tcb c') = Established" by blast+
qed

lemma tc_receive_loop_evolves:
  "tc_receive_loop n m (c, b) = Some (m', c', b') \<Longrightarrow> tcb_state (tc_tcb c) = Established \<Longrightarrow>
   evolves c c' \<and> tcb_state (tc_tcb c') \<in> {Established, FinWait1}"
proof (induction n arbitrary: m c b)
  case (Suc n)
  then obtain r c1 b1 where 1: "tc_receive_one m (c, b) = Some (r, c1, b1)"
    by (auto split: Option.bind_splits)
  note e = tc_receive_one_evolves [OF 1 Suc.prems(2)]
  show ?case
  proof (cases r)
    case (Inl m1)
    then have "tc_receive_loop n m1 (c1, b1) = Some (m', c', b')" using Suc.prems(1) 1 by simp
    from Suc.IH [OF this e(3) [OF Inl]] show ?thesis using evolves_trans [OF e(1)] by blast
  qed (use Suc.prems(1) 1 e(1,2) in auto)
qed auto

lemma is_reading_state:
  "is_connected s \<and> \<not> is_closed_state s \<longleftrightarrow> s = Established"
  by (cases s) auto

lemma tc_poll_read_evolves:
  assumes "tc_poll_read m (c, b) = Some (r, c', b')"
  shows "evolves c c' \<and> (c' = c \<and> b' = b \<or> tcb_state (tc_tcb c') \<in> {Established, FinWait1})"
proof (cases "\<not> tc_closed c \<and> tc_may_read c")
  case True
  then have est: "tcb_state (tc_tcb c) = Established"
    using is_reading_state by (auto simp: tc_may_read_def)
  obtain res c1 b1 where 1: "tc_process_receive (c, b) = Some (res, c1, b1)"
    using assms True by (auto simp: tc_poll_read_def split: Option.bind_splits)
  then obtain m1 where "tc_receive_loop MAX_PACKETS_PER_POLL False (c, b) = Some (m1, c1, b1)"
    by (auto simp: tc_process_receive_def split: Option.bind_splits)
  from tc_receive_loop_evolves [OF this est]
  have e: "evolves c c1" "tcb_state (tc_tcb c1) \<in> {Established, FinWait1}" by simp_all
  have "c' = c1"
    using assms True 1 tc_process_receive_WouldBlock
    by (auto simp: tc_poll_read_def split: sum.splits if_splits)
  then show ?thesis using e by simp
qed (use assms in \<open>auto simp: tc_poll_read_def split: if_splits\<close>)

lemma tc_poll_connect_evolves:
  "tc_poll_connect m (c, b) = Some (r, c', b') \<Longrightarrow> evolves c c'"
  by (auto simp: tc_poll_connect_def tc_process_connect_def Let_def evolves_def tc_close_def
    split: Option.bind_splits if_splits sum.splits prod.splits dest!: send_empty_D)

lemma tc_poll_write_evolves:
  assumes "tc_poll_write m (c, b) = Some (r, c', b')"
  shows "evolves c c'"
  using assms tc_process_send_evolves [of c b] tc_process_send_WouldBlock [of "(c, b)"]
  by (auto simp: tc_poll_write_def split: Option.bind_splits if_splits sum.splits)

subsection \<open>A whole poll\<close>

lemma tc_poll_connect_ok:
  assumes wf: "cfg_inv True (c, b)"
  shows "result_ok cfg_good b (tc_poll_connect m (c, b))"
proof (cases "tcb_state (tc_tcb c) = SynSent")
  case True
  obtain r s where w: "stream_write [] (tc_stream c) = (r, s)" by fastforce
  have c: "cfg_inv True (c\<lparr>tc_stream := s\<rparr>, b)" using wf by simp
  show ?thesis
  proof (cases r)
    case (Inl e)
    then show ?thesis using True w c wf by (auto simp: tc_poll_connect_def intro!: cfg_inv_good)
  next
    case (Inr n)
    have "result_ok cfg_good b (tc_process_connect (c\<lparr>tc_stream := s\<rparr>, b) \<bind> (\<lambda>cfg. Some (Inr True, cfg)))"
      by (rule step_ok_bind_result [OF tc_process_connect_step [OF c]]) (simp add: cfg_inv_good)
    then show ?thesis using True w Inr by (simp add: tc_poll_connect_def)
  qed
qed (use wf cfg_inv_good in \<open>simp add: tc_poll_connect_def\<close>)

text \<open>The phases after the deferred packet, from a configuration without one.\<close>

definition poll_rest :: "(unit io_result + bool) \<times> tcp_cfg \<Rightarrow> ((unit io_result + bool) \<times> tcp_cfg) option" where
  "poll_rest st1 = do {
     st2 \<leftarrow> phase tc_poll_write st1;
     st3 \<leftarrow> phase tc_poll_read st2;
     phase tc_poll_connect st3
   }"

lemma tcp_poll_rest:
  "\<not> tc_closed (fst cfg) \<Longrightarrow> tcp_poll cfg = do {
     st1 \<leftarrow> tc_poll_pending cfg;
     st4 \<leftarrow> poll_rest st1;
     case st4 of (Inl r, cfg') \<Rightarrow> Some (r, cfg')
     | (Inr made_progress, cfg') \<Rightarrow> Some (if made_progress then Inr () else Inl WouldBlock, cfg')
   }"
  by (simp add: tcp_poll_def poll_rest_def)

lemma poll_rest_Inl [simp]: "poll_rest (Inl r, cfg) = Some (Inl r, cfg)"
  by (simp add: poll_rest_def phase_def)

lemma poll_rest_ok:
  assumes wf: "cfg_inv True (c, b)"
  shows "result_ok cfg_good b (poll_rest (Inr m, c, b))"
proof -
  from tc_poll_write_ok [OF wf, of m] obtain m2 c2 b2 where
    2: "tc_poll_write m (c, b) = Some (Inr m2, c2, b2)" "cfg_inv True (c2, b2)" "grows b b2"
    by (auto simp: result_ok_def split: option.splits sum.splits) (metis obj_sumE)
  from tc_poll_read_ok [OF 2(2), of m2] obtain m3 c3 b3 where
    3: "tc_poll_read m2 (c2, b2) = Some (Inr m3, c3, b3)" "cfg_good (c3, b3)" "grows b2 b3"
    by (auto simp: result_ok_def split: option.splits sum.splits) (metis obj_sumE)
  have "result_ok cfg_good b3 (tc_poll_connect m3 (c3, b3))"
  proof (cases "c3 = c2 \<and> b3 = b2")
    case True
    then show ?thesis using tc_poll_connect_ok [OF 2(2)] by simp
  next
    case False
    then have "tcb_state (tc_tcb c3) \<noteq> SynSent"
      using tc_poll_read_evolves [OF 3(1)] by auto
    then show ?thesis using 3(2) by (simp add: tc_poll_connect_def)
  qed
  then show ?thesis
    using 2 3 by (auto simp: poll_rest_def phase_def result_ok_def intro: grows_trans split: option.splits)
qed

lemma tcp_poll_good:
  assumes good: "cfg_good (c, b)"
  shows "result_ok cfg_good b (tcp_poll (c, b))"
proof (cases "tc_closed c")
  case False
  obtain r c1 b1 where 1: "tc_poll_pending (c, b) = Some (r, c1, b1)" "cfg_good (c1, b1)" "grows b b1"
    "\<And>m. r = Inr m \<Longrightarrow> cfg_inv True (c1, b1)"
    by (rule tc_poll_pending_ok [OF good]) blast
  have "result_ok cfg_good b1 (poll_rest (r, c1, b1))"
    using poll_rest_ok [OF 1(4)] 1(2) by (cases r) auto
  then have "result_ok cfg_good b (poll_rest (r, c1, b1))"
    using 1(3) by (auto simp: result_ok_def intro: grows_trans split: option.splits)
  then show ?thesis
    using 1(1) False by (auto simp: tcp_poll_rest result_ok_def split: option.splits sum.splits)
qed (use good in \<open>simp add: tcp_poll_def\<close>)

text \<open>Without the assumption on the deferred packet a poll still cannot panic.\<close>

lemma sb_read_from_total:
  assumes "sb_wf b" "length src \<le> sb_capacity b"
  shows "\<exists>b'. sb_read_from src b = Some b' \<and> sb_wf b' \<and> sb_capacity b' = sb_capacity b"
proof -
  have L: "length src \<le> length (sb_buf b)" "0 < length (sb_buf b)" "sb_head b < length (sb_buf b)"
    using assms by (auto simp: sb_wf_def sb_capacity_def)
  then have "\<exists>b'. sb_read_from src b = Some b'"
    by (cases "length src \<le> length (sb_buf b) - sb_head b")
      (simp_all add: sb_read_from_def Let_def splice_Some)
  then obtain b' where b': "sb_read_from src b = Some b'" ..
  moreover have "sb_capacity b' = sb_capacity b" using b' by (rule sb_capacity_read_from)
  moreover have "sb_wf b'"
  proof -
    have "sb_head b' = (sb_head b + length src) mod length (sb_buf b)" "sb_tail b' = sb_tail b"
      using b' by (auto simp: sb_read_from_def Let_def split: Option.bind_splits)
    moreover have "length (sb_buf b') = length (sb_buf b)"
      using b' by (auto simp: sb_read_from_def Let_def dest!: length_splice
        split: if_splits Option.bind_splits)
    ultimately show ?thesis using assms(1) L(2) by (simp add: sb_wf_def)
  qed
  ultimately show ?thesis by blast
qed

lemma tc_poll_pending_total:
  assumes wf: "cfg_wf (c, b)"
  obtains r c' b' where "tc_poll_pending (c, b) = Some (r, c', b')" "cfg_wf (c', b')"
    "\<And>m. r = Inr m \<Longrightarrow> cfg_inv True (c', b')"
proof (cases "tc_packet_for_client_length c")
  case None
  then show ?thesis
    using that [of "Inr False" c b] wf by (simp add: tc_poll_pending_def cfg_inv_def)
next
  case (Some n)
  let ?pk = "tc_network_to_client c"
  let ?p = "packet_new (take (unat n) (pk_buffer ?pk)) (pk_ip ?pk) (pk_transport ?pk)"
  have "length (pk_buffer ?pk) = 65536"
    using wf pk_wf_bounds(4) by (simp add: cfg_wf_def tc_wf_def tcp_pk_wf_def)
  moreover have lt: "unat n \<le> 65535" using unat_u16_less [of n] by linarith
  ultimately have inf: "pk_inflate n ?pk = Some ?p" and len: "length (ip_raw ?p) \<le> 65535"
    by (simp_all add: pk_inflate_def slice_Some)
  have b: "sb_wf b" "length (ip_raw ?p) \<le> sb_capacity b"
    using wf len by (simp_all add: cfg_wf_def out_wf_def)
  obtain b1 where "sb_read_from (ip_raw ?p) b = Some b1" "sb_wf b1" "sb_capacity b1 = sb_capacity b"
    using sb_read_from_total [OF b] by blast
  then obtain r b' where st: "send_to_client ?p b = Some (r, b')" "out_wf b'"
    using that wf
    by (cases "unat (ip_length ?p) \<le> sb_remaining b")
      (simp_all add: send_to_client_def cfg_wf_def out_wf_def)
  show ?thesis
  proof (cases r)
    case (Inl e)
    then show ?thesis
      using that [of "Inl (Inl e)" c b'] Some inf st wf
      by (simp add: tc_poll_pending_def flush_pending_packet_def cfg_wf_def)
  next
    case (Inr u)
    let ?c = "tcb_update (\<lambda>t. t\<lparr>sequence_number := sequence_number t + ucast n\<rparr>) c
        \<lparr>tc_packet_for_client_length := None\<rparr>"
    have i: "cfg_inv True (?c, b')" using wf st(2) by (simp add: cfg_inv_def cfg_wf_def tc_wf_def)
    then show ?thesis
      using that [of "Inr True" ?c b'] Some Inr inf st
      by (simp add: tc_poll_pending_def flush_pending_packet_def cfg_inv_def)
  qed
qed

lemma tcp_poll_total:
  assumes wf: "cfg_wf (c, b)"
  obtains r c' b' where "tcp_poll (c, b) = Some (r, c', b')" "cfg_wf (c', b')"
proof (cases "tc_closed c")
  case False
  obtain r c1 b1 where 1: "tc_poll_pending (c, b) = Some (r, c1, b1)" "cfg_wf (c1, b1)"
    "\<And>m. r = Inr m \<Longrightarrow> cfg_inv True (c1, b1)"
    by (rule tc_poll_pending_total [OF wf]) blast
  show ?thesis
  proof (cases r)
    case (Inl x)
    then show ?thesis using that 1(1,2) False by (simp add: tcp_poll_rest)
  next
    case (Inr m)
    from poll_rest_ok [OF 1(3) [OF Inr], of m] obtain r4 c4 b4 where
      "poll_rest (Inr m, c1, b1) = Some (r4, c4, b4)" "cfg_wf (c4, b4)"
      by (auto simp: result_ok_def cfg_good_def split: option.splits)
    then show ?thesis
      using that 1(1) Inr False by (cases r4) (simp_all add: tcp_poll_rest)
  qed
qed (use that wf in \<open>simp add: tcp_poll_def\<close>)

lemma tcp_poll_evolves:
  assumes "tcp_poll (c, b) = Some (r, c', b')"
  shows "evolves c c'"
proof (cases "tc_closed c")
  case False
  obtain r1 c1 b1 where 1: "tc_poll_pending (c, b) = Some (r1, c1, b1)"
    using assms False by (auto simp: tcp_poll_rest split: Option.bind_splits)
  have e1: "evolves c c1"
    using 1 flush_pending_D [of c b] by (auto simp: tc_poll_pending_def intro!: evolves_same
      split: if_splits Option.bind_splits sum.splits)
  show ?thesis
  proof (cases r1)
    case (Inl x)
    then show ?thesis using assms 1 False e1 by (simp add: tcp_poll_rest)
  next
    case (Inr m)
    obtain r4 c4 b4 where 4: "poll_rest (Inr m, c1, b1) = Some (r4, c4, b4)" "c' = c4"
      using assms 1 False Inr
      by (auto simp: tcp_poll_rest split: Option.bind_splits sum.splits)
    obtain r2 c2 b2 where 2: "tc_poll_write m (c1, b1) = Some (r2, c2, b2)"
      using 4(1) by (auto simp: poll_rest_def phase_def split: Option.bind_splits)
    obtain r3 c3 b3 where 3: "phase tc_poll_read (r2, c2, b2) = Some (r3, c3, b3)"
      using 4(1) 2 by (auto simp: poll_rest_def phase_def [of tc_poll_write] split: Option.bind_splits)
    have p4: "phase tc_poll_connect (r3, c3, b3) = Some (r4, c4, b4)"
      using 4(1) 2 3 by (simp add: poll_rest_def phase_def [of tc_poll_write])
    have "evolves c1 c2" by (rule tc_poll_write_evolves [OF 2])
    moreover have "evolves c2 c3"
      using 3 tc_poll_read_evolves by (cases r2) (auto simp: phase_def)
    moreover have "evolves c3 c4"
      using p4 tc_poll_connect_evolves by (cases r3) (auto simp: phase_def)
    ultimately show ?thesis using e1 4(2) evolves_trans by meson
  qed
qed (use assms in \<open>simp add: tcp_poll_def\<close>)

end
