(* ===== verification/Tcp_Numbers.thy ===== *)
theory Tcp_Numbers
  imports Tcp_States
begin

text \<open>
  The sequence space of \<open>Tcp_Connection\<close>: the handshake, in-order delivery of what the client
  sends, the client's window, and what goes wrong at the end of the network's stream and with
  deferred packets.
\<close>

subsection \<open>The handshake\<close>

lemma handle_syn:
  assumes "tcp_packet h payload p" "tcb_state (tc_tcb c) = Init" "is_syn h"
  shows "handle_packet random p (c, b) =
    Some (tcb_update (\<lambda>t. t\<lparr>acknowledgement_number := tcp_sequence_number h + 1,
      syn_sequence_number := tcp_sequence_number h, sequence_number := random,
      client_window := tcp_window h, tcb_state := SynSent\<rparr>) c, b)"
  using assms by (simp add: handle_packet_eq [OF assms(1)] handle_first_packet_def Let_def)

lemma poll_connect:
  assumes wf: "cfg_inv True (c, b)" and st: "tcb_state (tc_tcb c) = SynSent" "\<not> tc_closed c"
    and e: "sb_is_empty (tc_client_to_network c)"
    and s: "stream_write [] (tc_stream c) = (Inr n, s')"
  obtains p pk' b' where
    "tcp_poll (c, b) = Some (Inr (), tcb_update (\<lambda>t. t\<lparr>tcb_state := SynReceived,
       sequence_number := sequence_number t + 1\<rparr>) c
       \<lparr>tc_network_to_client := pk', tc_stream := s'\<rparr>, b')"
    "tcp_reply (tc_network_to_client c) (tc_tcb c) (FLAG_SYN OR FLAG_ACK) (advertised_window c) [] p"
    "offered p b b'" "tcp_pk_wf pk'" "out_wf b'"
proof -
  let ?c = "tcb_update (\<lambda>t. t\<lparr>tcb_state := SynReceived\<rparr>) (c\<lparr>tc_stream := s'\<rparr>)"
  have w: "cfg_wf (?c, b)" using wf by (simp add: cfg_inv_def cfg_wf_def tc_wf_def)
  have fl: "flags_ok (FLAG_SYN OR FLAG_ACK)" by simp
  obtain p pk' b' where p:
    "send_empty_packet_to_client (FLAG_SYN OR FLAG_ACK) (?c, b) =
      Some (?c\<lparr>tc_network_to_client := pk'\<rparr>, b')"
    "tcp_reply (tc_network_to_client ?c) (tc_tcb ?c) (FLAG_SYN OR FLAG_ACK) (advertised_window ?c) [] p"
    "pk_after (tc_network_to_client ?c) p pk'" "offered p b b'"
    "cfg_wf (?c\<lparr>tc_network_to_client := pk'\<rparr>, b')"
    by (rule send_empty_ok [OF w fl])
  have "advertised_window ?c = advertised_window c" by (simp add: advertised_window_def)
  moreover have "tcp_data_with (tc_tcb ?c) f x d = tcp_data_with (tc_tcb c) f x d" for f x d
    by (simp add: tcp_data_with_def)
  ultimately have r: "tcp_reply (tc_network_to_client c) (tc_tcb c) (FLAG_SYN OR FLAG_ACK)
      (advertised_window c) [] p"
    using p(2) by (simp add: tcp_reply_def split: transport_header_data.splits)
  have idle: "tc_packet_for_client_length c = None" using wf by (simp add: cfg_inv_def)
  have "tcp_poll (c, b) = Some (Inr (), tcb_update (\<lambda>t. t\<lparr>tcb_state := SynReceived,
       sequence_number := sequence_number t + 1\<rparr>) c
       \<lparr>tc_network_to_client := pk', tc_stream := s'\<rparr>, b')"
    using st e s idle p(1)
    by (simp add: tcp_poll_def tc_poll_pending_def phase_def tc_poll_write_def tc_may_write_def
      tc_poll_read_def tc_may_read_def tc_poll_connect_def tc_process_connect_def)
  then show ?thesis
    using that r p(3-5) by (simp add: pk_after_def cfg_wf_def)
qed

lemma handle_handshake_ack:
  assumes "tcp_packet h payload p" "tcb_state (tc_tcb c) = SynReceived"
    "fin_sequence_number (tc_tcb c) = None"
    "tcp_sequence_number h = acknowledgement_number (tc_tcb c)"
    "is_ack h" "\<not> is_syn h" "\<not> is_rst h" "\<not> is_fin h"
  shows "handle_packet random p (c, b) =
    Some (tcb_update (\<lambda>t. t\<lparr>client_window := tcp_window h,
      their_acknowledgement_number := tcp_acknowledgement_number h, tcb_state := Established\<rparr>) c, b)"
  using assms by (simp add: handle_packet_eq [OF assms(1)] handle_expected_packet_def handle_ack_def
    handle_fin_ack_number_def Let_def)

subsection \<open>In-order delivery\<close>

text \<open>What the client's bytes have become: sent to the network, or waiting in the buffer.\<close>

definition delivered :: "tcp_connection \<Rightarrow> byte list" where
  "delivered c = sent_bytes (tc_stream c) @ sb_content (tc_client_to_network c)"

text \<open>Neither side has ended its stream.\<close>

definition quiet :: "tcp_connection \<Rightarrow> bool" where
  "quiet c \<longleftrightarrow> fin_sequence_number (tc_tcb c) = None \<and> \<not> fin_received (tc_tcb c)"

text \<open>\<open>took c c' a\<close>: the bytes \<open>a\<close> were added, and acknowledged as long as no side has ended.\<close>

definition took :: "tcp_connection \<Rightarrow> tcp_connection \<Rightarrow> byte list \<Rightarrow> bool" where
  "took c c' a \<longleftrightarrow> delivered c' = delivered c @ a \<and>
     (quiet c' \<longrightarrow> quiet c \<and> acknowledgement_number (tc_tcb c') =
        acknowledgement_number (tc_tcb c) + of_nat (length a))"

lemma took_refl [simp]: "took c c []"
  by (simp add: took_def)

lemma took_trans: "took c c1 [] \<Longrightarrow> took c1 c2 a \<Longrightarrow> took c c2 a"
  by (auto simp: took_def)

lemma send_empty_took:
  "send_empty_packet_to_client flags (c, b) = Some (c', b') \<Longrightarrow> took c c' []"
  by (auto simp: took_def quiet_def delivered_def dest!: send_empty_D)

lemma handle_ack_took:
  assumes wf: "tc_wf c" and p: "ip_payload p = Some (Some payload)"
    and h: "handle_ack p (c, b) = Some (c', b')"
  shows "took c c' [] \<or> took c c' payload"
proof (cases "tcb_state (tc_tcb c) = SynReceived \<or> payload = [] \<or>
    sb_remaining (tc_client_to_network c) < length payload")
  case True
  then show ?thesis
    using h p by (auto simp: handle_ack_def took_def quiet_def delivered_def split: if_splits dest!: send_empty_D)
next
  case False
  then obtain c2n where c2n: "sb_read_from payload (tc_client_to_network c) = Some c2n"
    "sb_content c2n = sb_content (tc_client_to_network c) @ payload"
    using sb_read_from_ok [of "tc_client_to_network c" payload] wf by (auto simp: tc_wf_def)
  then show ?thesis
    using False h p by (auto simp: handle_ack_def took_def quiet_def delivered_def Let_def dest!: send_empty_D)
qed

text \<open>In-order data of an established connection, for which there is room.\<close>

lemma handle_data:
  assumes wf: "cfg_wf (c, b)" and p: "tcp_packet h payload p" and c: "tcb_state (tc_tcb c) = Established" "quiet c"
    and h: "tcp_sequence_number h = acknowledgement_number (tc_tcb c)"
      "is_ack h" "\<not> is_syn h" "\<not> is_rst h" "\<not> is_fin h"
    and payload: "payload \<noteq> []" "length payload \<le> sb_remaining (tc_client_to_network c)"
  obtains c' b' where "handle_packet random p (c, b) = Some (c', b')" "quiet c'"
    "delivered c' = delivered c @ payload"
    "acknowledgement_number (tc_tcb c') = acknowledgement_number (tc_tcb c) + of_nat (length payload)"
    "tcb_state (tc_tcb c') = Established"
proof -
  obtain c2n where c2n: "sb_read_from payload (tc_client_to_network c) = Some c2n" "sb_wf c2n"
    "sb_content c2n = sb_content (tc_client_to_network c) @ payload"
    using sb_read_from_ok [of "tc_client_to_network c" payload] wf payload(2)
    by (auto simp: cfg_wf_def tc_wf_def)
  define c1 where "c1 = tcb_update (\<lambda>t. t\<lparr>client_window := tcp_window h,
      their_acknowledgement_number := tcp_acknowledgement_number h,
      acknowledgement_number := acknowledgement_number t + of_nat (length payload)\<rparr>) c
    \<lparr>tc_client_to_network := c2n\<rparr>"
  have w: "cfg_wf (c1, b)" using wf c2n(2) by (simp add: c1_def cfg_wf_def tc_wf_def)
  obtain pk' b' where s: "send_empty_packet_to_client FLAG_ACK (c1, b) = Some (c1\<lparr>tc_network_to_client := pk'\<rparr>, b')"
    by (rule send_empty_ok [OF w, of FLAG_ACK]) simp_all
  have "handle_packet random p (c, b) = Some (c1\<lparr>tc_network_to_client := pk'\<rparr>, b')"
    using s c h payload c2n(1) p
    by (simp add: handle_packet_eq [OF p] handle_expected_packet_def handle_ack_def handle_fin_ack_number_def
      quiet_def tcp_packet_def Let_def c1_def not_less)
  then show ?thesis
    using that c c2n(3) by (simp add: c1_def quiet_def delivered_def)
qed

text \<open>Whatever packet arrives, only the expected one adds bytes.\<close>

lemma do_handle_fin_took:
  assumes "do_handle_fin (c, b) = Some (c', b')" "fin_received (tc_tcb c)"
  shows "took c c' []" "fin_received (tc_tcb c')"
  using assms by (auto simp: do_handle_fin_def took_def quiet_def delivered_def Let_def tc_close_def
    split: Option.bind_splits if_splits dest!: send_empty_D)

lemma handle_fin_took:
  assumes "handle_fin (c, b) = Some (c', b')"
  shows "took c c' []"
proof -
  let ?c = "tcb_update (\<lambda>t. t\<lparr>fin_received := True\<rparr>) c"
  have "took c ?c []" by (simp add: took_def quiet_def delivered_def)
  then show ?thesis
    using assms do_handle_fin_took(1) [of ?c b c' b'] took_trans
    by (auto simp: handle_fin_def Let_def split: if_splits)
qed

lemma handle_fin_ack_took:
  assumes "handle_fin_ack_number h (c, b) = (c', b')"
  shows "took c c' []"
  using assms by (auto simp: handle_fin_ack_number_def handle_fin_ack_def took_def quiet_def
    delivered_def tc_close_def Let_def split: option.splits if_splits)

lemma handle_expected_packet_took:
  assumes wf: "tc_wf c" and p: "ip_payload p = Some (Some payload)"
    and h: "handle_expected_packet h p (c, b) = Some (c', b')"
  shows "took c c' [] \<or> took c c' payload"
proof -
  let ?c = "tcb_update (\<lambda>t. t\<lparr>client_window := tcp_window h,
       their_acknowledgement_number := tcp_acknowledgement_number h\<rparr>) c"
  have same: "took c d a \<longleftrightarrow> took ?c d a" for d a by (simp add: took_def quiet_def delivered_def)
  show ?thesis
  proof (cases "is_rst h")
    case True
    then show ?thesis
      using h by (auto simp: handle_expected_packet_def Let_def tc_close_def took_def quiet_def
        delivered_def)
  next
    case False
    then obtain c1 b1 c2 b2 where
      1: "(if is_ack h then handle_ack p (?c, b) else Some (?c, b)) = Some (c1, b1)" and
      2: "(if is_fin h then handle_fin (c1, b1) else Some (c1, b1)) = Some (c2, b2)" and
      3: "handle_fin_ack_number h (c2, b2) = (c', b')"
      using h by (auto simp: handle_expected_packet_def Let_def split: Option.bind_splits)
    have "tc_wf ?c" using wf by (simp add: tc_wf_def)
    then have t1: "took c c1 [] \<or> took c c1 payload"
      using 1 handle_ack_took [of ?c p payload b c1 b1] p same took_refl [of ?c]
      by (auto split: if_splits)
    have "took c1 c2 []" using 2 handle_fin_took by (auto split: if_splits)
    moreover have "took c2 c' []" by (rule handle_fin_ack_took [OF 3])
    moreover have "took c d' a" if "took c d a" "took d d' []" for d d' a
      using that by (auto simp: took_def)
    ultimately show ?thesis using t1 by blast
  qed
qed

lemma handle_packet_took:
  assumes wf: "tc_wf c" and p: "tcp_packet h payload p" and i: "tcb_state (tc_tcb c) \<noteq> Init"
    and h: "handle_packet random p (c, b) = Some (c', b')"
    and syn: "is_syn h \<Longrightarrow> tcb_state (tc_tcb c) = SynSent \<Longrightarrow>
      tcp_sequence_number h + 1 = acknowledgement_number (tc_tcb c)"
  shows "took c c' [] \<or>
    (took c c' payload \<and> \<not> is_syn h \<and> tcp_sequence_number h = acknowledgement_number (tc_tcb c))"
proof (cases "is_syn h")
  case True
  then show ?thesis
    using h i syn by (auto simp: handle_packet_eq [OF p] handle_duplicate_syn_def Let_def took_def quiet_def
      delivered_def tc_close_def split: if_splits Option.bind_splits dest!: reply_empty_D)
next
  case False
  then show ?thesis
    using h i handle_expected_packet_took [OF wf, of p payload h b c' b'] p
    by (auto simp: handle_packet_eq [OF p] Let_def tcp_packet_def split: if_splits
      dest!: send_empty_took)
qed

text \<open>Polling moves bytes from the buffer to the socket, and adds none.\<close>

lemma stream_write_Nil: "stream_write [] s = (r, s') \<Longrightarrow> sent_bytes s' = sent_bytes s"
  by (cases r) (auto dest: stream_write_sent stream_write_error_sent)

lemma tc_process_send_took:
  assumes wf: "tc_wf c" and p: "tc_process_send (c, b) = Some (r, c', b')"
  shows "took c c' []"
proof -
  obtain res c2n s where w: "sb_write_to (tc_client_to_network c) (tc_stream c) = Some (res, c2n, s)"
    "sent_bytes s @ sb_content c2n = delivered c"
    using sb_write_to_ok [of "tc_client_to_network c" "tc_stream c"] wf
    by (auto simp: tc_wf_def delivered_def)
  let ?c = "c\<lparr>tc_client_to_network := c2n, tc_stream := s\<rparr>"
  have 0: "took c ?c []" "took c (?c\<lparr>tc_bytes_sent := n\<rparr>) []" for n
    using w(2) by (simp_all add: took_def quiet_def delivered_def)
  have 1: "took c c1 []"
    if "send_empty_packet_to_client f (?c\<lparr>tc_bytes_sent := n\<rparr>, b) = Some (c1, b1)" for f n c1 b1
    using took_trans [OF 0(2) send_empty_took [OF that]] .
  have 2: "took c c1 []" if "do_handle_fin (?c\<lparr>tc_bytes_sent := n\<rparr>, b) = Some (c1, b1)"
    "fin_received (tc_tcb c)" for n c1 b1
    using took_trans [OF 0(2) do_handle_fin_took(1) [OF that(1)]] that(2) by simp
  have 3: "took c c1 []" if "send_empty_packet_to_client f (?c, b) = Some (c1, b1)" for f c1 b1
    using took_trans [OF 0(1) send_empty_took [OF that]] .
  have 4: "took c (tc_close c1) []" if "took c c1 []" for c1
    using that by (simp add: took_def quiet_def delivered_def tc_close_def)
  show ?thesis
    using p w(1) 0(1)
    by (auto simp: tc_process_send_def Let_def split: Option.bind_splits if_splits sum.splits
      intro: 4 dest: 1 2 3)
qed

lemma tc_receive_one_took:
  assumes "tc_receive_one m (c, b) = Some (r, c', b')"
  shows "took c c' []"
proof (cases "tc_packet_for_client_length c \<noteq> None \<or> remaining_client_window (tc_tcb c) = 0")
  case True
  then have "tc_receive_one m (c, b) = Some (Inr m, c, b)" by (auto simp: tc_receive_one_def)
  then show ?thesis using assms by simp
next
  case False
  then have idle: "tc_packet_for_client_length c = None" "remaining_client_window (tc_tcb c) \<noteq> 0"
    by simp_all
  obtain pk where pk: "update_headers (tc_tcb c) (FLAG_ACK OR FLAG_PSH) (advertised_window c)
      (tc_network_to_client c) = Some pk"
    using assms idle by (auto simp: tc_receive_one_def split: Option.bind_splits)
  obtain res s' pk' where rd: "packetize_read (tc_stream c)
      (Some (unat (min (remaining_client_window (tc_tcb c)) MAX_PAYLOAD_LENGTH))) pk =
      Some (res, s', pk')"
    using assms idle pk by (auto simp: tc_receive_one_def split: Option.bind_splits)
  have s': "sent s' = sent (tc_stream c)"
    using rd by (auto simp: packetize_read_def split: if_splits prod.splits sum.splits
      Option.bind_splits dest!: read_adapter_recv_sent)
  let ?c = "c\<lparr>tc_network_to_client := pk', tc_stream := s'\<rparr>"
  have 0: "took c ?c []" using s' by (simp add: took_def quiet_def delivered_def)
  have 3: "took c c1 []" if "send_empty_packet_to_client f (?c, b) = Some (c1, b1)" for f c1 b1
    using took_trans [OF 0 send_empty_took [OF that]] .
  have 4: "took c (tc_close c1) []" if "took c c1 []" for c1
    using that by (simp add: took_def quiet_def delivered_def tc_close_def)
  note run = tc_receive_one_def idle pk rd Let_def
  consider (err) e where "res = Inl e" | (eof) "res = Inr None" | (data) p where "res = Inr (Some p)"
    by (cases res) auto
  then show ?thesis
  proof cases
    case err
    then show ?thesis
      using assms 0 by (auto simp: run split: Option.bind_splits if_splits intro: 4 dest: 3)
  next
    case eof
    then show ?thesis
      using assms s'
      by (auto simp: run tc_eof_def took_def quiet_def delivered_def
        split: Option.bind_splits dest!: send_empty_D)
  next
    case data
    then show ?thesis
      using assms s'
      by (auto simp: run took_def quiet_def delivered_def split: Option.bind_splits sum.splits)
  qed
qed

lemma tc_receive_loop_took:
  "tc_receive_loop n m (c, b) = Some (m', c', b') \<Longrightarrow> took c c' []"
proof (induction n arbitrary: m c b)
  case (Suc n)
  then obtain r c1 b1 where 1: "tc_receive_one m (c, b) = Some (r, c1, b1)"
    by (auto split: Option.bind_splits)
  show ?case
    using Suc.prems 1 Suc.IH [of _ c1 b1] took_trans [OF tc_receive_one_took [OF 1]]
      tc_receive_one_took [OF 1]
    by (cases r) auto
qed simp

lemma tc_poll_pending_took:
  assumes "tc_poll_pending (c, b) = Some (r, c', b')"
  shows "took c c' []" "tc_wf c' = tc_wf c"
  using assms by (auto simp: tc_poll_pending_def flush_pending_packet_def took_def quiet_def
    delivered_def tc_wf_def split: Option.bind_splits if_splits option.splits sum.splits)

lemma tc_process_connect_took:
  "tc_process_connect (c, b) = Some (c', b') \<Longrightarrow> took c c' []"
  by (auto simp: tc_process_connect_def took_def quiet_def delivered_def
    split: Option.bind_splits dest!: send_empty_D)

lemma tc_poll_connect_took:
  assumes "tc_poll_connect m (c, b) = Some (r, c', b')"
  shows "took c c' []"
proof -
  obtain res s where w: "stream_write [] (tc_stream c) = (res, s)" by fastforce
  have 0: "took c (c\<lparr>tc_stream := s\<rparr>) []"
    using stream_write_Nil [OF w] by (simp add: took_def quiet_def delivered_def)
  have 1: "took c (tc_close (c\<lparr>tc_stream := s\<rparr>)) []"
    using 0 by (simp add: took_def quiet_def delivered_def tc_close_def)
  show ?thesis
  proof (cases "tcb_state (tc_tcb c) = SynSent")
    case True
    show ?thesis
    proof (cases res)
      case (Inl e)
      then have "c' = c\<lparr>tc_stream := s\<rparr> \<or> c' = tc_close (c\<lparr>tc_stream := s\<rparr>)"
        using assms True w by (auto simp: tc_poll_connect_def split: if_splits)
      then show ?thesis using 0 1 by blast
    next
      case (Inr n)
      then have "tc_process_connect (c\<lparr>tc_stream := s\<rparr>, b) = Some (c', b')"
        using assms True w by (auto simp: tc_poll_connect_def split: Option.bind_splits)
      then show ?thesis by (rule took_trans [OF 0 tc_process_connect_took])
    qed
  qed (use assms in \<open>simp add: tc_poll_connect_def\<close>)
qed

lemma phase_took:
  assumes "phase f (r, c, b) = Some (r', c', b')"
    "\<And>m. f m (c, b) = Some (r', c', b') \<Longrightarrow> took c c' []"
  shows "took c c' []"
  using assms by (cases r) (auto simp: phase_def)

lemma tc_poll_write_took:
  assumes "tc_wf c" "tc_poll_write m (c, b) = Some (r, c', b')"
  shows "took c c' []"
  using assms tc_process_send_took [OF assms(1)] tc_process_send_WouldBlock [of "(c, b)"]
  by (auto simp: tc_poll_write_def split: Option.bind_splits if_splits sum.splits)

lemma tc_poll_read_took:
  assumes "tc_poll_read m (c, b) = Some (r, c', b')"
  shows "took c c' []"
proof (cases "\<not> tc_closed c \<and> tc_may_read c")
  case True
  obtain res c1 b1 where 1: "tc_process_receive (c, b) = Some (res, c1, b1)"
    using assms True by (auto simp: tc_poll_read_def split: Option.bind_splits)
  then have "took c c1 []"
    using tc_receive_loop_took by (auto simp: tc_process_receive_def split: Option.bind_splits)
  moreover have "c' = c1"
    using assms True 1 tc_process_receive_WouldBlock
    by (auto simp: tc_poll_read_def split: sum.splits if_splits)
  ultimately show ?thesis by simp
qed (use assms in \<open>auto simp: tc_poll_read_def split: if_splits\<close>)

lemma tcp_poll_took:
  assumes wf: "tc_wf c" and p: "tcp_poll (c, b) = Some (r, c', b')"
  shows "took c c' []"
proof (cases "tc_closed c")
  case False
  then obtain st1 st2 st3 st4 where st: "tc_poll_pending (c, b) = Some st1"
    "phase tc_poll_write st1 = Some st2" "phase tc_poll_read st2 = Some st3"
    "phase tc_poll_connect st3 = Some st4" "(case st4 of (Inl r, cfg') \<Rightarrow> Some (r, cfg')
      | (Inr made_progress, cfg') \<Rightarrow> Some (if made_progress then Inr () else Inl WouldBlock, cfg')) =
      Some (r, c', b')"
    using p by (simp only: tcp_poll_def fst_conv if_False Option.bind_eq_Some_conv) blast
  obtain r1 c1 b1 r2 c2 b2 r3 c3 b3 r4 c4 b4 where
    eq: "st1 = (r1, c1, b1)" "st2 = (r2, c2, b2)" "st3 = (r3, c3, b3)" "st4 = (r4, c4, b4)"
    by (metis prod.exhaust)
  note 1 = st(1) [unfolded eq] and 2 = st(2) [unfolded eq] and 3 = st(3) [unfolded eq]
    and 4 = st(4) [unfolded eq]
  have c': "c' = c4" using st(5) eq(4) by (cases r4) auto
  have t1: "took c c1 []" and w1: "tc_wf c1" using tc_poll_pending_took [OF 1] wf by simp_all
  have t2: "took c1 c2 []" by (rule phase_took [OF 2 tc_poll_write_took [OF w1]])
  have t3: "took c2 c3 []" by (rule phase_took [OF 3 tc_poll_read_took])
  have t4: "took c3 c4 []" by (rule phase_took [OF 4 tc_poll_connect_took])
  show ?thesis unfolding c' by (rule took_trans [OF t1 took_trans [OF t2 took_trans [OF t3 t4]]])
qed (use p in \<open>simp add: tcp_poll_def\<close>)

subsection \<open>Reassembly\<close>

text \<open>The client's side: a stream \<open>D\<close> of less than 4 GiB, sent in segments that start where their
  sequence number says, in any order and any number of times; SYN segments carry \<open>isn\<close>.\<close>

definition client_segment :: "byte list \<Rightarrow> u32 \<Rightarrow> tcp_header_data \<Rightarrow> byte list \<Rightarrow> bool" where
  "client_segment D isn h payload \<longleftrightarrow>
     (if is_syn h then tcp_sequence_number h = isn
      else \<exists>k. tcp_sequence_number h = isn + 1 + of_nat k \<and> k + length payload \<le> length D \<and>
        payload = take (length payload) (drop k D))"

text \<open>A run of a connection: packets of the client, polls, and whatever the client's side of the
  shared buffer and the network's side of the socket do in between. Before the relay's SYN+ACK
  the client can only repeat its SYN.\<close>

inductive tcp_run :: "byte list \<Rightarrow> u32 \<Rightarrow> tcp_cfg \<Rightarrow> tcp_cfg \<Rightarrow> bool"
  for D :: "byte list" and isn :: u32 and start :: tcp_cfg where
  start: "tcp_run D isn start start"
| packet: "tcp_run D isn start cfg \<Longrightarrow> tcp_packet h payload p \<Longrightarrow> client_segment D isn h payload \<Longrightarrow>
    (tcb_state (tc_tcb (fst cfg)) = SynSent \<longrightarrow> is_syn h) \<Longrightarrow>
    handle_packet random p cfg = Some cfg' \<Longrightarrow> tcp_run D isn start cfg'"
| poll: "tcp_run D isn start cfg \<Longrightarrow> tcp_poll cfg = Some (r, cfg') \<Longrightarrow> tcp_run D isn start cfg'"
| env: "tcp_run D isn start (c, b) \<Longrightarrow> sent s = sent (tc_stream c) \<Longrightarrow> out_wf b' \<Longrightarrow>
    tcp_run D isn start (c\<lparr>tc_stream := s\<rparr>, b')"

definition prefix_inv :: "byte list \<Rightarrow> u32 \<Rightarrow> tcp_connection \<Rightarrow> bool" where
  "prefix_inv D isn c \<longleftrightarrow>
     tc_wf c \<and> tcb_state (tc_tcb c) \<noteq> Init \<and>
     (quiet c \<longrightarrow> (\<exists>n. n \<le> length D \<and> delivered c = take n D \<and>
        acknowledgement_number (tc_tcb c) = isn + 1 + of_nat n) \<and>
        (tcb_state (tc_tcb c) = SynSent \<longrightarrow> delivered c = []))"

lemma evolves_not_Init:
  assumes "evolves c c'" "tcb_state (tc_tcb c) \<noteq> Init"
  shows "tcb_state (tc_tcb c') \<noteq> Init"
    "tcb_state (tc_tcb c') = SynSent \<Longrightarrow> tcb_state (tc_tcb c) = SynSent"
proof -
  have "s' \<noteq> Init \<and> (s' = SynSent \<longrightarrow> s = SynSent)" if "tcp_edge\<^sup>*\<^sup>* s s'" "s \<noteq> Init" for s s'
    using that by (induction rule: rtranclp_induct) (auto elim: tcp_edge.cases)
  then show "tcb_state (tc_tcb c') \<noteq> Init"
    "tcb_state (tc_tcb c') = SynSent \<Longrightarrow> tcb_state (tc_tcb c) = SynSent"
    using assms by (auto simp: evolves_def)
qed

lemma of_nat_u32_inj:
  assumes "m < 4294967296" "n < 4294967296" "(of_nat m :: u32) = of_nat n"
  shows "m = n"
  using assms by (metis unat_of_nat_u32)

lemma prefix_inv_took_Nil:
  assumes "prefix_inv D isn c" "took c c' []" "evolves c c'" "tc_wf c'"
  shows "prefix_inv D isn c'"
  using assms evolves_not_Init [OF assms(3)]
  by (auto simp: prefix_inv_def took_def)

lemma prefix_inv_packet:
  assumes D: "length D < 4294967296" and inv: "prefix_inv D isn c"
    and p: "tcp_packet h payload p" and seg: "client_segment D isn h payload"
    and early: "tcb_state (tc_tcb c) = SynSent \<longrightarrow> is_syn h"
    and run: "handle_packet random p (c, b) = Some (c', b')" and wf': "tc_wf c'"
  shows "prefix_inv D isn c'"
proof -
  have wf: "tc_wf c" and i: "tcb_state (tc_tcb c) \<noteq> Init" using inv by (simp_all add: prefix_inv_def)
  have ev: "evolves c c'" by (rule handle_packet_evolves [OF run])
  note ev = ev evolves_not_Init [OF ev i]
  show ?thesis
  proof (cases "quiet c'")
    case False
    then show ?thesis using ev wf' by (simp add: prefix_inv_def)
  next
    case q': True
    have q: "quiet c"
    proof (cases "is_syn h \<and> tcb_state (tc_tcb c) = SynSent")
      case True
      then show ?thesis
        using run q' by (auto simp: handle_packet_eq [OF p] handle_duplicate_syn_def quiet_def Let_def)
    next
      case False
      then show ?thesis using handle_packet_took [OF wf p i run] q' by (auto simp: took_def)
    qed
    then obtain n where n: "n \<le> length D" "delivered c = take n D"
      "acknowledgement_number (tc_tcb c) = isn + 1 + of_nat n"
      and e: "tcb_state (tc_tcb c) = SynSent \<Longrightarrow> delivered c = []"
      using inv by (auto simp: prefix_inv_def)
    have syn: "tcp_sequence_number h + 1 = acknowledgement_number (tc_tcb c)"
      if "is_syn h" "tcb_state (tc_tcb c) = SynSent"
    proof -
      have "n = 0" using e [OF that(2)] n(1,2) by auto
      then show ?thesis using n(3) seg that(1) by (simp add: client_segment_def)
    qed
    from handle_packet_took [OF wf p i run syn] consider "took c c' []"
      | "took c c' payload" "\<not> is_syn h" "tcp_sequence_number h = acknowledgement_number (tc_tcb c)"
      by blast
    then show ?thesis
    proof cases
      case 1
      then show ?thesis by (rule prefix_inv_took_Nil [OF inv _ ev(1) wf'])
    next
      case 2
      then obtain k where k: "isn + 1 + of_nat k = isn + 1 + (of_nat n :: u32)"
        "k + length payload \<le> length D" "payload = take (length payload) (drop k D)"
        using seg n(3) by (auto simp: client_segment_def)
      then have "k = n" using of_nat_u32_inj [of k n] D n(1) by simp
      then have "delivered c @ payload = take (n + length payload) D"
        using n(2) k(3) take_add [of n "length payload" D] by simp
      moreover have "tcb_state (tc_tcb c') \<noteq> SynSent" using ev(3) early 2(2) by blast
      ultimately show ?thesis
        using 2(1) q' ev(2) wf' k(2) \<open>k = n\<close> n(3)
        by (auto simp: prefix_inv_def took_def intro!: exI [of _ "n + length payload"])
    qed
  qed
qed

lemma prefix_inv_stream:
  assumes "prefix_inv D isn c" "sent s = sent (tc_stream c)"
  shows "prefix_inv D isn (c\<lparr>tc_stream := s\<rparr>)"
proof -
  have "delivered (c\<lparr>tc_stream := s\<rparr>) = delivered c" "quiet (c\<lparr>tc_stream := s\<rparr>) = quiet c"
    "tc_wf (c\<lparr>tc_stream := s\<rparr>) = tc_wf c"
    using assms(2) by (simp_all add: delivered_def quiet_def tc_wf_def)
  then show ?thesis using assms(1) by (simp add: prefix_inv_def)
qed

lemma tcp_run_inv:
  assumes "tcp_run D isn start cfg" "cfg_wf start" "prefix_inv D isn (fst start)"
    "length D < 4294967296"
  shows "cfg_wf cfg \<and> prefix_inv D isn (fst cfg)"
  using assms
proof (induction rule: tcp_run.induct)
  case (packet cfg h payload p random cfg')
  obtain c b c' b' where eq: "cfg = (c, b)" "cfg' = (c', b')" by (cases cfg, cases cfg') blast
  have wf: "cfg_wf (c, b)" and inv: "prefix_inv D isn c" using packet eq by simp_all
  have run: "handle_packet random p (c, b) = Some (c', b')" using packet.hyps eq by simp
  have "cfg_inv False (c, b)" using wf by (simp add: cfg_inv_def)
  from handle_packet_step [OF this packet.hyps(2), of random] run have wf': "cfg_wf (c', b')"
    by (simp add: cfg_inv_def)
  then have "tc_wf c'" by (simp add: cfg_wf_def)
  from prefix_inv_packet [OF packet.prems(3) inv packet.hyps(2,3) _ run this]
  show ?case using packet.hyps(4) eq wf' by simp
next
  case (poll cfg r cfg')
  obtain c b c' b' where eq: "cfg = (c, b)" "cfg' = (c', b')" by (cases cfg, cases cfg') blast
  have wf: "cfg_wf (c, b)" and inv: "prefix_inv D isn c" using poll eq by simp_all
  have run: "tcp_poll (c, b) = Some (r, c', b')" using poll.hyps eq by simp
  obtain r2 c2 b2 where "tcp_poll (c, b) = Some (r2, c2, b2)" "cfg_wf (c2, b2)"
    by (rule tcp_poll_total [OF wf])
  then have wf': "cfg_wf (c', b')" using run by simp
  have "tc_wf c" "tc_wf c'" using wf wf' by (simp_all add: cfg_wf_def)
  then have "prefix_inv D isn c'"
    by (intro prefix_inv_took_Nil [OF inv tcp_poll_took [OF _ run] tcp_poll_evolves [OF run]])
  then show ?case using wf' eq by simp
next
  case (env c b s b')
  then have "cfg_wf (c, b)" and inv: "prefix_inv D isn c" by simp_all
  then have "cfg_wf (c\<lparr>tc_stream := s\<rparr>, b')" using env.hyps(3) by (simp add: cfg_wf_def tc_wf_def)
  then show ?case using prefix_inv_stream [OF inv env.hyps(2)] by simp
qed simp

subsection \<open>The client's window\<close>

text \<open>Bytes sent and not yet acknowledged, modulo \<open>2^32\<close>.\<close>

definition in_flight :: "tcb \<Rightarrow> nat" where
  "in_flight t = unat (sequence_number t - their_acknowledgement_number t)"

lemma remaining_window:
  assumes "in_flight t \<le> unat (client_window t)"
  shows "unat (remaining_client_window t) = unat (client_window t) - in_flight t"
proof -
  let ?w = "ucast (client_window t) :: u32"
  let ?x = "sequence_number t - their_acknowledgement_number t"
  have w: "unat ?w = unat (client_window t)" by (rule unat_ucast_u32_u16)
  have x: "?x \<le> ?w" using assms unfolding in_flight_def word_le_nat_alt w .
  have eq: "their_acknowledgement_number t + ?w - sequence_number t = ?w - ?x" by simp
  have u: "unat (?w - ?x) = unat (client_window t) - in_flight t"
    unfolding unat_sub [OF x] in_flight_def w ..
  have "?w - ?x \<le> ?w" using u unfolding word_le_nat_alt w by simp
  moreover have "unat (ucast (?w - ?x) :: u16) = unat (?w - ?x)"
  proof -
    have "unat (?w - ?x) \<le> unat (client_window t)" using u by simp
    also have "\<dots> < 65536" by simp
    finally show ?thesis by (simp add: unsigned_ucast_eq take_bit_nat_eq_self)
  qed
  ultimately show ?thesis
    unfolding remaining_client_window_def eq Let_def using u by (cases "client_window t = 0") simp_all
qed

lemma sent_chunk_in_window:
  assumes w: "in_flight t \<le> unat (client_window t)" and n: "n \<le> chunk_limit t"
  shows "in_flight (t\<lparr>sequence_number := sequence_number t + of_nat n\<rparr>) = in_flight t + n"
    and "in_flight t + n \<le> unat (client_window t)"
proof -
  have "n \<le> unat (client_window t) - in_flight t"
    using n chunk_limit_le(2) [of t] remaining_window [OF w] by linarith
  then show le: "in_flight t + n \<le> unat (client_window t)" using w by linarith
  have lt: "unat (client_window t) < 65536" by simp
  have eq: "sequence_number t + of_nat n - their_acknowledgement_number t =
      (sequence_number t - their_acknowledgement_number t) + of_nat n" by simp
  have un: "unat (of_nat n :: u32) = n" using le lt by (intro unat_of_nat_u32) linarith
  have "unat ((sequence_number t - their_acknowledgement_number t) + of_nat n) =
      in_flight t + n"
  proof -
    have "in_flight t + n < 4294967296" using le lt by linarith
    then show ?thesis by (simp add: in_flight_def unat_word_ariths un)
  qed
  then show "in_flight (t\<lparr>sequence_number := sequence_number t + of_nat n\<rparr>) = in_flight t + n"
    by (simp add: in_flight_def eq)
qed

text \<open>A FIN takes one number beyond the window.\<close>

definition window_ok :: "tcb \<Rightarrow> bool" where
  "window_ok t \<longleftrightarrow> (case fin_sequence_number t of
     None \<Rightarrow> in_flight t \<le> unat (client_window t)
   | Some _ \<Rightarrow> in_flight t \<le> unat (client_window t) + 1)"

lemma in_flight_fin:
  assumes "in_flight t \<le> unat (client_window t)"
  shows "in_flight (t\<lparr>sequence_number := sequence_number t + 1\<rparr>) = in_flight t + 1"
proof -
  have lt: "in_flight t + 1 < 4294967296"
    using assms unat_u16_less [of "client_window t"] by linarith
  have eq: "sequence_number t + 1 - their_acknowledgement_number t =
      (sequence_number t - their_acknowledgement_number t) + 1" by simp
  have "unat ((sequence_number t - their_acknowledgement_number t) + 1) = in_flight t + 1"
    using lt by (simp add: in_flight_def unat_word_ariths)
  then show ?thesis by (simp add: in_flight_def eq)
qed

lemma tc_receive_one_window:
  assumes wf: "cfg_inv True (c, b)" and fin: "fin_sequence_number (tc_tcb c) = None"
    and win: "in_flight (tc_tcb c) \<le> unat (client_window (tc_tcb c))"
    and run: "tc_receive_one m (c, b) = Some (r, c', b')"
  shows "window_ok (tc_tcb c') \<and> client_window (tc_tcb c') = client_window (tc_tcb c) \<and>
    (\<forall>m'. r = Inl m' \<longrightarrow> fin_sequence_number (tc_tcb c') = None)"
proof (cases "remaining_client_window (tc_tcb c) = 0")
  case True
  then show ?thesis
    using run wf fin win by (auto simp: tc_receive_one_def cfg_inv_def window_ok_def)
next
  case False
  have w: "tcp_pk_wf (tc_network_to_client c)" and idle: "tc_packet_for_client_length c = None"
    using wf by (simp_all add: cfg_inv_def cfg_wf_def tc_wf_def)
  obtain pk res s' pk' where h: "receive_headers c = Some pk"
    and rd: "packetize_read (tc_stream c) (Some (chunk_limit (tc_tcb c))) pk = Some (res, s', pk')"
    and c: "(case res of Inr (Some p) \<Rightarrow> \<exists>bs. chunk_packet c bs p pk' \<and> bs \<noteq> [] \<and>
        length bs \<le> chunk_limit (tc_tcb c) \<and>
        read_adapter_recv (Some (chunk_limit (tc_tcb c))) (MAX_PACKET_LENGTH - pk_payload_index pk)
          (tc_stream c) = (Inr bs, s')
      | Inr None \<Rightarrow> read_adapter_recv (Some (chunk_limit (tc_tcb c)))
          (MAX_PACKET_LENGTH - pk_payload_index pk) (tc_stream c) = (Inr [], s')
      | Inl e \<Rightarrow> read_adapter_recv (Some (chunk_limit (tc_tcb c)))
          (MAX_PACKET_LENGTH - pk_payload_index pk) (tc_stream c) = (Inl e, s'))"
    by (rule packetize_read_ok [OF w refl])
  note unfold = tc_receive_one_def h [unfolded receive_headers_def] rd [unfolded chunk_limit_def]
    idle False Let_def
  consider (err) e where "res = Inl e" | (eof) "res = Inr None" | (data) p where "res = Inr (Some p)"
    by (cases res) auto
  then show ?thesis
  proof cases
    case err
    then have "tc_tcb c' = tc_tcb c \<and> (\<exists>x. r = Inr x)"
      using run by (auto simp: unfold tc_close_def split: if_splits Option.bind_splits dest!: send_empty_D)
    then show ?thesis using fin win by (auto simp: window_ok_def)
  next
    case eof
    then have "tc_tcb c' = (tc_tcb c)\<lparr>acknowledgement_number := acknowledgement_number (tc_tcb c) + 1,
        fin_sequence_number := Some (sequence_number (tc_tcb c)),
        sequence_number := sequence_number (tc_tcb c) + 1, tcb_state := FinWait1\<rparr> \<and> (\<exists>x. r = Inr x)"
      using run by (auto simp: unfold tc_eof_def split: Option.bind_splits dest!: send_empty_D)
    then show ?thesis
      using in_flight_fin [OF win] win by (auto simp: window_ok_def in_flight_def)
  next
    case data
    then obtain bs where bs: "chunk_packet c bs p pk'" "length bs \<le> chunk_limit (tc_tcb c)"
      using c by auto
    note one = tc_receive_one_data [OF wf False h rd [unfolded data] bs(1), of m]
    show ?thesis
    proof (cases "length (ip_raw p) \<le> sb_remaining b")
      case True
      then have "tc_tcb c' = (tc_tcb c)\<lparr>sequence_number := sequence_number (tc_tcb c) +
          of_nat (length bs)\<rparr>"
        using one(1) run by (auto simp: after_read_def)
      then show ?thesis
        using sent_chunk_in_window [OF win bs(2)] fin by (simp add: window_ok_def)
    next
      case False
      then have "tc_tcb c' = tc_tcb c \<and> r = Inr m" using one(2) run by (auto simp: after_read_def)
      then show ?thesis using fin win by (simp add: window_ok_def)
    qed
  qed
qed

lemma tc_receive_loop_window:
  assumes "cfg_inv True (c, b)" "fin_sequence_number (tc_tcb c) = None"
    "in_flight (tc_tcb c) \<le> unat (client_window (tc_tcb c))"
    "tc_receive_loop n m (c, b) = Some (m', c', b')"
  shows "window_ok (tc_tcb c') \<and> client_window (tc_tcb c') = client_window (tc_tcb c)"
  using assms
proof (induction n arbitrary: m c b)
  case 0
  then show ?case by (simp add: window_ok_def)
next
  case (Suc n)
  then obtain r c1 b1 where 1: "tc_receive_one m (c, b) = Some (r, c1, b1)"
    by (auto split: Option.bind_splits)
  note w = tc_receive_one_window [OF Suc.prems(1-3) 1]
  show ?case
  proof (cases r)
    case (Inl m1)
    have i: "cfg_inv True (c1, b1)" using tc_receive_one_ok [OF Suc.prems(1), of m] 1 Inl by simp
    have f: "fin_sequence_number (tc_tcb c1) = None" using w Inl by simp
    then have l: "in_flight (tc_tcb c1) \<le> unat (client_window (tc_tcb c1))"
      using w by (auto simp: window_ok_def)
    have "tc_receive_loop n m1 (c1, b1) = Some (m', c', b')" using Suc.prems(4) 1 Inl by simp
    from Suc.IH [OF i f l this] w show ?thesis by metis
  qed (use Suc.prems(4) 1 w in simp)
qed

text \<open>A whole poll: what is written to the network moves no number, except that it may complete the
  client's end, which the relay's FIN answers; then nothing is read any more.\<close>

definition same_window :: "tcb \<Rightarrow> tcb \<Rightarrow> bool" where
  "same_window t t' \<longleftrightarrow> client_window t' = client_window t \<and> window_ok t' \<and>
     (fin_sequence_number t' = None \<or> is_closed_state (tcb_state t'))"

lemma same_numbers_window:
  assumes "sequence_number t' = sequence_number t" "client_window t' = client_window t"
    "their_acknowledgement_number t' = their_acknowledgement_number t"
    "fin_sequence_number t' = fin_sequence_number t"
    "fin_sequence_number t = None" "in_flight t \<le> unat (client_window t)"
  shows "same_window t t'"
  using assms by (simp add: same_window_def window_ok_def in_flight_def)

lemma do_handle_fin_window:
  assumes "do_handle_fin (c, b) = Some (c', b')" "fin_sequence_number (tc_tcb c) = None"
    "in_flight (tc_tcb c) \<le> unat (client_window (tc_tcb c))"
  shows "same_window (tc_tcb c) (tc_tcb c')"
proof (cases "tcb_state (tc_tcb c) = Established")
  case True
  then have "tc_tcb c' = (tc_tcb c)\<lparr>acknowledgement_number := acknowledgement_number (tc_tcb c) + 1,
      fin_sequence_number := Some (sequence_number (tc_tcb c)),
      sequence_number := sequence_number (tc_tcb c) + 1, tcb_state := LastAck\<rparr>"
    using assms(1) by (auto simp: do_handle_fin_def Let_def split: Option.bind_splits dest!: send_empty_D)
  then show ?thesis
    using in_flight_fin [OF assms(3)] assms(3) by (simp add: same_window_def window_ok_def in_flight_def)
next
  case False
  show ?thesis
    by (rule same_numbers_window)
      (use assms False in \<open>auto simp: do_handle_fin_def Let_def tc_close_def
        split: Option.bind_splits if_splits dest!: send_empty_D\<close>)
qed

lemma tc_process_send_window:
  assumes "tc_process_send (c, b) = Some (r, c', b')" "fin_sequence_number (tc_tcb c) = None"
    "in_flight (tc_tcb c) \<le> unat (client_window (tc_tcb c))"
  shows "same_window (tc_tcb c) (tc_tcb c')"
proof -
  obtain res c2n s where w: "sb_write_to (tc_client_to_network c) (tc_stream c) = Some (res, c2n, s)"
    using assms(1) by (auto simp: tc_process_send_def split: Option.bind_splits)
  have 0: "same_window (tc_tcb c) (tc_tcb c)" using same_numbers_window assms(2,3) by blast
  have fin: "same_window (tc_tcb c) (tc_tcb c1)"
    if "do_handle_fin (c0, b) = Some (c1, b1)" "tc_tcb c0 = tc_tcb c" for c0 c1 b1
    using do_handle_fin_window [OF that(1)] that(2) assms(2,3) by simp
  show ?thesis
    using assms(1) 0
    by (auto simp: tc_process_send_def w Let_def tc_close_def split: sum.splits Option.bind_splits if_splits
      dest!: send_empty_D elim!: fin)
qed

lemma synchronised:
  assumes "tcp_edge\<^sup>*\<^sup>* s s'" "s \<notin> {Init, SynSent}"
  shows "s' \<notin> {Init, SynSent}"
  using assms tcp_state_less [of s s'] by (cases s; cases s'; simp add: less_eq_tcp_state_def)

lemma tcp_poll_window:
  assumes wf: "cfg_inv True (c, b)" and fin: "fin_sequence_number (tc_tcb c) = None"
    and win: "in_flight (tc_tcb c) \<le> unat (client_window (tc_tcb c))"
    and st: "tcb_state (tc_tcb c) \<notin> {Init, SynSent}"
    and p: "tcp_poll (c, b) = Some (r, c', b')"
  shows "window_ok (tc_tcb c') \<and> client_window (tc_tcb c') = client_window (tc_tcb c)"
proof (cases "tc_closed c")
  case True
  then show ?thesis using p fin win by (auto simp: tcp_poll_def window_ok_def)
next
  case False
  have pend: "tc_poll_pending (c, b) = Some (Inr False, c, b)"
    using wf by (simp add: tc_poll_pending_def cfg_inv_def)
  obtain r1 c1 b1 where w0: "tc_poll_write False (c, b) = Some (r1, c1, b1)" "cfg_inv True (c1, b1)"
    using tc_poll_write_ok [OF wf, of False] by (auto simp: result_ok_def split: option.splits)
  obtain m1 where w: "tc_poll_write False (c, b) = Some (Inr m1, c1, b1)"
    using tc_poll_write_ok [OF wf, of False] w0(1) by (cases r1) auto
  have s1: "same_window (tc_tcb c) (tc_tcb c1)"
    using w tc_process_send_window [OF _ fin win] same_numbers_window [of "tc_tcb c" "tc_tcb c"] fin win
      tc_process_send_WouldBlock [of "(c, b)"]
    by (auto simp: tc_poll_write_def split: Option.bind_splits if_splits sum.splits)
  obtain r2 c2 b2 where rd0: "tc_poll_read m1 (c1, b1) = Some (r2, c2, b2)"
    using tc_poll_read_ok [OF w0(2), of m1] by (auto simp: result_ok_def split: option.splits)
  obtain m2 where rd: "tc_poll_read m1 (c1, b1) = Some (Inr m2, c2, b2)"
    using tc_poll_read_ok [OF w0(2), of m1] rd0 by (cases r2) auto
  have s2: "window_ok (tc_tcb c2) \<and> client_window (tc_tcb c2) = client_window (tc_tcb c1)"
  proof (cases "\<not> tc_closed c1 \<and> tc_may_read c1")
    case True
    then have f: "fin_sequence_number (tc_tcb c1) = None" using s1 by (auto simp: same_window_def tc_may_read_def)
    obtain res where "tc_process_receive (c1, b1) = Some (res, c2, b2)"
      using rd True tc_process_receive_WouldBlock [of "(c1, b1)"]
      by (auto simp: tc_poll_read_def split: Option.bind_splits sum.splits if_splits)
    then obtain m where "tc_receive_loop MAX_PACKETS_PER_POLL False (c1, b1) = Some (m, c2, b2)"
      by (auto simp: tc_process_receive_def split: Option.bind_splits)
    moreover have "in_flight (tc_tcb c1) \<le> unat (client_window (tc_tcb c1))"
      using s1 f by (auto simp: same_window_def window_ok_def)
    ultimately show ?thesis using tc_receive_loop_window [OF w0(2) f] by blast
  next
    case False
    then show ?thesis using rd s1 by (auto simp: tc_poll_read_def same_window_def)
  qed
  have "tcb_state (tc_tcb c2) \<noteq> SynSent"
    using tc_poll_read_evolves [OF rd] synchronised tc_poll_write_evolves [OF w] st
    by (auto simp: evolves_def)
  then have "c' = c2"
    using p False by (auto simp: tcp_poll_def pend phase_def w rd tc_poll_connect_def)
  then show ?thesis using s1 s2 by (simp add: same_window_def)
qed

subsection \<open>After the network's end of stream\<close>

text \<open>\<open>eof\<close> counts one byte of the client that never came. The next segment of a client that has
  only seen what came before (its number is the one acknowledged until then) is taken for a
  retransmission: its bytes are dropped.\<close>

lemma tc_eof_numbers:
  assumes "tc_eof (c, b) = Some (c', b')"
  shows "tc_tcb c' = (tc_tcb c)\<lparr>acknowledgement_number := acknowledgement_number (tc_tcb c) + 1,
      fin_sequence_number := Some (sequence_number (tc_tcb c)),
      sequence_number := sequence_number (tc_tcb c) + 1, tcb_state := FinWait1\<rparr>"
    "delivered c' = delivered c"
  using assms by (auto simp: tc_eof_def delivered_def split: Option.bind_splits dest!: send_empty_D)

lemma half_closed_segment_dropped:
  assumes eof: "tc_eof (c, b) = Some (c1, b1)" and p: "tcp_packet h payload p"
    and syn: "\<not> is_syn h" and seq: "tcp_sequence_number h = acknowledgement_number (tc_tcb c)"
    and run: "handle_packet random p (c1, b2) = Some (c2, b3)"
  shows "tc_tcb c2 = tc_tcb c1" "delivered c2 = delivered c1"
proof -
  note n = tc_eof_numbers [OF eof]
  have "acknowledgement_number (tc_tcb c) - (acknowledgement_number (tc_tcb c) + 1) = (-1 :: u32)"
    by simp
  then have "send_empty_packet_to_client FLAG_ACK (c1, b2) = Some (c2, b3)"
    using run n(1) seq syn by (simp add: handle_packet_eq [OF p] Let_def)
  then show "tc_tcb c2 = tc_tcb c1" "delivered c2 = delivered c1"
    by (auto simp: delivered_def dest!: send_empty_D)
qed

subsection \<open>Deferred packets\<close>

text \<open>A packet sent at once advances the sequence number by its payload
  (\<open>tc_receive_one_data\<close>); a deferred one by its whole length.\<close>

lemma deferred_flush_sequence:
  assumes inf: "pk_inflate len (tc_network_to_client c) = Some p"
    and len: "unat (ip_length p) = length (ip_raw p)" and fits: "length (ip_raw p) \<le> sb_remaining b"
    and b: "sb_wf b" and pend: "tc_packet_for_client_length c = Some len"
  obtains c' b' where "flush_pending_packet (c, b) = Some (Inr (), c', b')"
    "sequence_number (tc_tcb c') = sequence_number (tc_tcb c) + ucast len"
    "sb_content b' = sb_content b @ ip_raw p"
proof -
  obtain b' where b': "sb_read_from (ip_raw p) b = Some b'" "sb_content b' = sb_content b @ ip_raw p"
    using sb_read_from_ok [OF b fits] by blast
  have "send_to_client p b = Some (Inr (), b')"
    using b' fits len by (simp add: send_to_client_def)
  then show ?thesis
    using that b' inf pend by (simp add: flush_pending_packet_def)
qed

text \<open>The deferred packet lives in the packetizer's buffer. Any control packet built before it is
  flushed (an acknowledgement of a segment of the client is enough) overwrites its headers: what
  is then inflated announces the length of the control packet, but has the deferred length.\<close>

lemma ip_length_packet_new:
  "ip_headers_data p = (h, Some t) \<Longrightarrow> ip_length (packet_new raw h t) = ip_length p"
  by (cases p; cases h) (auto simp: p4_length_def p6_length_def ipv4_packet_new_def ipv6_packet_new_def)

lemma clobbered_deferred_packet:
  assumes wf: "cfg_wf (c, b)" and fl: "flags_ok flags"
    and n: "unat n \<le> MAX_PACKET_LENGTH"
    and run: "send_empty_packet_to_client flags (c, b) = Some (c', b')"
  obtains q where "pk_inflate n (tc_network_to_client c') = Some q"
    "unat (ip_length q) = pk_payload_index (tc_network_to_client c)" "length (ip_raw q) = unat n"
proof -
  obtain p pk' b2 where p:
    "send_empty_packet_to_client flags (c, b) = Some (c\<lparr>tc_network_to_client := pk'\<rparr>, b2)"
    "tcp_reply (tc_network_to_client c) (tc_tcb c) flags (advertised_window c) [] p"
    "pk_after (tc_network_to_client c) p pk'"
    by (rule send_empty_ok [OF wf fl])
  have c': "tc_network_to_client c' = pk'" using p(1) run by auto
  have pw: "pk_wf pk'" using p(3) by (simp add: pk_after_def tcp_pk_wf_def)
  then have len: "length (pk_buffer pk') = MAX_PACKET_LENGTH" by (simp add: pk_wf_def)
  let ?q = "packet_new (take (unat n) (pk_buffer pk')) (pk_ip pk') (pk_transport pk')"
  have "pk_inflate n pk' = Some ?q" using n len by (simp add: pk_inflate_def slice_Some)
  moreover have "unat (ip_length ?q) = pk_payload_index (tc_network_to_client c)"
    using ip_length_packet_new [of p "pk_ip pk'" "pk_transport pk'"] p(2,3) packet_wf_length [of p]
    by (simp add: tcp_reply_def pk_after_def)
  moreover have "length (ip_raw ?q) = unat n" using n len
    by (cases "pk_ip pk'") (simp_all add: ipv4_packet_new_def ipv6_packet_new_def)
  ultimately show ?thesis using that c' by simp
qed

end
