(* ===== verification/Icmp.thy ===== *)
theory Icmp
  imports Connection Ip_Packet_Buffer
begin

text \<open>
  \<open>relay/icmp_handler.rs\<close>: the synthetic Echo Reply, and the Port Unreachable that turns QUIC
  away. Both functions are compared with the messages RFC 792 asks for, and both are shown to give
  bytes that pass a receiver's checks.
\<close>

subsection \<open>The code\<close>

definition IPV4_HEADER_MIN_LEN :: nat where
  "IPV4_HEADER_MIN_LEN = 20"

definition ICMP_HEADER_LEN :: nat where
  "ICMP_HEADER_LEN = 8"

definition PROTOCOL_ICMP :: byte where
  "PROTOCOL_ICMP = 1"

definition ICMP_TYPE_ECHO_REQUEST :: byte where
  "ICMP_TYPE_ECHO_REQUEST = 8"

definition ICMP_TYPE_ECHO_REPLY :: byte where
  "ICMP_TYPE_ECHO_REPLY = 0"

text \<open>The loop of \<open>checksum\<close>, with \<open>i\<close> and \<open>sum\<close>.\<close>

function icmp_sum :: "byte list \<Rightarrow> nat \<Rightarrow> u32 \<Rightarrow> (nat \<times> u32) option" where
  "icmp_sum bs i acc =
     (if i + 1 < length bs then do {
        w \<leftarrow> read_u16_at i bs;
        icmp_sum bs (i + 2) (acc + ucast w)
      } else Some (i, acc))"
  by pat_completeness auto
termination by (relation "measure (\<lambda>(bs, i, acc). length bs - i)") auto

declare icmp_sum.simps [simp del]

definition icmp_checksum :: "byte list \<Rightarrow> u16 option" where
  "icmp_checksum bs = do {
     (i, acc) \<leftarrow> icmp_sum bs 0 0;
     acc' \<leftarrow> (if i < length bs
       then do { b \<leftarrow> index i bs; Some (acc + push_bit 8 (ucast b)) } else Some acc);
     Some (NOT (ucast (fold_carry acc')))
   }"

text \<open>From the copy of the request on.\<close>

definition echo_reply_bytes :: "nat \<Rightarrow> nat \<Rightarrow> byte list \<Rightarrow> byte list option" where
  "echo_reply_bytes ihl total_length request = do {
     reply0 \<leftarrow> slice 0 total_length request;
     reply1 \<leftarrow> for_each (\<lambda>i. swap_at (12 + i) (16 + i)) [0..<4] reply0;
     reply2 \<leftarrow> store ihl ICMP_TYPE_ECHO_REPLY reply1;
     reply3 \<leftarrow> store (ihl + 2) 0 reply2;
     reply4 \<leftarrow> store (ihl + 3) 0 reply3;
     icmp \<leftarrow> slice ihl total_length reply4;
     icmp_sum \<leftarrow> icmp_checksum icmp;
     reply5 \<leftarrow> write_u16_at (ihl + 2) icmp_sum reply4;
     reply6 \<leftarrow> store 10 0 reply5;
     reply7 \<leftarrow> store 11 0 reply6;
     header \<leftarrow> slice 0 ihl reply7;
     ip_sum \<leftarrow> icmp_checksum header;
     write_u16_at 10 ip_sum reply7
   }"

definition build_echo_reply :: "byte list \<Rightarrow> byte list option option" where
  "build_echo_reply request =
     (if length request < IPV4_HEADER_MIN_LEN + ICMP_HEADER_LEN then Some None
      else do {
        b0 \<leftarrow> index 0 request;
        if drop_bit 4 b0 \<noteq> 4 then Some None
        else let ihl = unat (b0 AND 0x0F) * 4 in
          if ihl < IPV4_HEADER_MIN_LEN \<or> length request < ihl + ICMP_HEADER_LEN then Some None
          else do {
            b9 \<leftarrow> index 9 request;
            t \<leftarrow> index ihl request;
            if b9 \<noteq> PROTOCOL_ICMP \<or> t \<noteq> ICMP_TYPE_ECHO_REQUEST then Some None
            else do {
              w \<leftarrow> read_u16_at 2 request;
              let total_length = unat w;
              if length request < total_length \<or> total_length < ihl + ICMP_HEADER_LEN then Some None
              else map_option Some (echo_reply_bytes ihl total_length request)
            }
          }
      })"

text \<open>\<open>build_port_unreachable\<close>: the IPv4 header and the first two bytes of the ICMP header, in a
  buffer of \<open>total_len\<close> zeros; then the whole.\<close>

definition unreachable_headers :: "nat \<Rightarrow> byte list \<Rightarrow> byte list \<Rightarrow> byte list option" where
  "unreachable_headers total_len src dst = do {
     buf1 \<leftarrow> store 0 0x45 (replicate total_len 0);
     buf2 \<leftarrow> store 8 64 buf1;
     buf3 \<leftarrow> store 9 PROTOCOL_ICMP buf2;
     buf4 \<leftarrow> write_u16_at 2 (of_nat total_len) buf3;
     buf5 \<leftarrow> splice 12 src buf4;
     buf6 \<leftarrow> splice 16 dst buf5;
     header \<leftarrow> slice 0 IPV4_HEADER_MIN_LEN buf6;
     ip_sum \<leftarrow> icmp_checksum header;
     buf7 \<leftarrow> write_u16_at 10 ip_sum buf6;
     buf8 \<leftarrow> store 20 3 buf7;
     store 21 3 buf8
   }"

definition build_port_unreachable :: "ip_packet \<Rightarrow> byte list option option" where
  "build_port_unreachable original =
     (case fst (ip_headers_data original) of
        HdV6 _ \<Rightarrow> Some None
      | HdV4 v4 \<Rightarrow>
          (let src = bytes_of_u32 (v4_destination v4);
               dst = bytes_of_u32 (v4_source v4);
               orig_raw = ip_raw original;
               orig_header_len = unat (v4_header_length v4)
           in if length orig_raw < orig_header_len then Some None
              else let copy_len = min (length orig_raw - orig_header_len) 8;
                     icmp_payload_len = orig_header_len + copy_len;
                     icmp_len = ICMP_HEADER_LEN + icmp_payload_len;
                     total_len = IPV4_HEADER_MIN_LEN + icmp_len
                in do {
                  buf9 \<leftarrow> unreachable_headers total_len src dst;
                  orig_header \<leftarrow> slice 0 orig_header_len orig_raw;
                  buf10 \<leftarrow> splice 28 orig_header buf9;
                  orig_payload \<leftarrow> slice orig_header_len (orig_header_len + copy_len) orig_raw;
                  buf11 \<leftarrow> splice (28 + orig_header_len) orig_payload buf10;
                  icmp \<leftarrow> slice IPV4_HEADER_MIN_LEN total_len buf11;
                  icmp_sum \<leftarrow> icmp_checksum icmp;
                  buf12 \<leftarrow> write_u16_at 22 icmp_sum buf11;
                  Some (Some buf12)
                }))"

subsection \<open>The checksum\<close>

lemma icmp_sum_ok:
  assumes "i \<le> length bs"
  shows "\<exists>j. icmp_sum bs i acc = Some (j, acc + of_nat (words_sum (take (j - i) (drop i bs)))) \<and>
    i \<le> j \<and> even (j - i) \<and> j = (if even (length bs - i) then length bs else length bs - 1)"
  using assms
proof (induction bs i acc rule: icmp_sum.induct)
  case (1 bs i acc)
  show ?case
  proof (cases "i + 1 < length bs")
    case False
    then have "length bs = i \<or> length bs = Suc i" using 1(2) by linarith
    then show ?thesis using False by (auto simp: icmp_sum.simps [of bs i])
  next
    case True
    let ?w = "u16_of_bytes (bs ! i) (bs ! Suc i)"
    have r: "read_u16_at i bs = Some ?w" using True by (simp add: slice_simps)
    obtain j where j: "icmp_sum bs (i + 2) (acc + ucast ?w) =
        Some (j, acc + ucast ?w + of_nat (words_sum (take (j - (i + 2)) (drop (i + 2) bs))))"
      "i + 2 \<le> j" "even (j - (i + 2))"
      "j = (if even (length bs - (i + 2)) then length bs else length bs - 1)"
      using 1(1) [OF True r] True by auto
    have "j - i = 2 + (j - (i + 2))" using j(2) by simp
    then have "take (j - i) (drop i bs) = [bs ! i, bs ! Suc i] @ take (j - (i + 2)) (drop (i + 2) bs)"
      using take_add [of 2 "j - (i + 2)" "drop i bs"] take_drop_2 [of i bs] True
      by (simp only: drop_drop add.commute)
    then have "acc + ucast ?w + of_nat (words_sum (take (j - (i + 2)) (drop (i + 2) bs))) =
        acc + of_nat (words_sum (take (j - i) (drop i bs)))"
      by simp
    then show ?thesis
      using j True r by (auto simp: icmp_sum.simps [of bs i] intro!: exI [of _ j])
  qed
qed

lemma words_sum_snoc: "even (length xs) \<Longrightarrow> words_sum (xs @ [b]) = words_sum xs + 256 * unat b"
  by (simp add: words_sum_append)

lemma icmp_checksum_ok [simp]:
  assumes "length bs < 131072"
  shows "icmp_checksum bs = Some (rfc1071_checksum bs)"
proof -
  have le: "words_sum bs < 4294967296"
  proof -
    have "(length bs + 1) div 2 \<le> 65536" using assms by simp
    then show ?thesis using words_sum_le [of bs] by linarith
  qed
  obtain j where j: "icmp_sum bs 0 0 = Some (j, of_nat (words_sum (take j bs)))" "even j"
    "j = (if even (length bs) then length bs else length bs - 1)"
    using icmp_sum_ok [of 0 bs 0] by auto
  have "NOT (ucast (fold_carry s)) = rfc1071_checksum bs" if "s = of_nat (words_sum bs)" for s :: u32
    using checksum_reference [of s bs] that le by (simp add: ucast_not_u16)
  moreover have "of_nat (words_sum bs) = (of_nat (words_sum (take j bs)) :: u32) +
      push_bit 8 (ucast (bs ! j))" if "odd (length bs)"
  proof -
    have jl: "j < length bs" "Suc j = length bs" using that j(3) by (auto elim: oddE)
    then have "bs = take j bs @ [bs ! j]" by (simp add: take_Suc_conv_app_nth [symmetric])
    then have "words_sum bs = words_sum (take j bs) + 256 * unat (bs ! j)"
      using words_sum_snoc [of "take j bs" "bs ! j"] j(2) jl by simp
    then show ?thesis by (simp add: push_bit_eq_mult)
  qed
  ultimately show ?thesis
    using j by (auto simp: icmp_checksum_def index_Some elim: oddE)
qed

subsection \<open>What the messages are\<close>

text \<open>A block with the checksum of the rest in the two bytes at \<open>k\<close>.\<close>

definition with_checksum :: "nat \<Rightarrow> byte list \<Rightarrow> byte list" where
  "with_checksum k xs =
     (let zs = xs[k := 0, Suc k := 0]; c = rfc1071_checksum zs
      in zs[k := ucast (drop_bit 8 c), Suc k := ucast c])"

lemma length_with_checksum [simp]: "length (with_checksum k xs) = length xs"
  by (simp add: with_checksum_def Let_def)

lemma nth_with_checksum: "i \<noteq> k \<Longrightarrow> i \<noteq> Suc k \<Longrightarrow> with_checksum k xs ! i = xs ! i"
  by (simp add: with_checksum_def Let_def)

lemma take_with_checksum: "n \<le> k \<Longrightarrow> take n (with_checksum k xs) = take n xs"
  by (simp add: with_checksum_def Let_def)

lemma drop_with_checksum: "k + 2 \<le> n \<Longrightarrow> drop n (with_checksum k xs) = drop n xs"
  by (simp add: with_checksum_def Let_def)

lemma with_checksum_verifies:
  assumes "even k" "k + 2 \<le> length xs"
  shows "oc_norm (words_sum (with_checksum k xs)) = 65535"
  using assms by (intro checksum_field_verifies [of k])
    (simp_all add: with_checksum_def Let_def list_update_twice)

text \<open>The reply to a request: addresses exchanged, type 0, both checksums anew, all else kept.\<close>

definition echo_reply_header :: "nat \<Rightarrow> byte list \<Rightarrow> byte list" where
  "echo_reply_header ihl request =
     take 12 request @ take 4 (drop 16 request) @ take 4 (drop 12 request) @
     take (ihl - 20) (drop 20 request)"

definition echo_reply :: "nat \<Rightarrow> nat \<Rightarrow> byte list \<Rightarrow> byte list" where
  "echo_reply ihl total_length request =
     with_checksum 10 (echo_reply_header ihl request) @
     with_checksum 2 ((take (total_length - ihl) (drop ihl request))[0 := 0])"

lemma swap_addresses:
  assumes "20 \<le> length xs"
  shows "for_each (\<lambda>i. swap_at (12 + i) (16 + i)) [0..<4] xs =
    Some (take 12 xs @ take 4 (drop 16 xs) @ take 4 (drop 12 xs) @ drop 20 xs)"
proof -
  have m: "map ((+) 12) [0..<4] = [12..<12 + (4 :: nat)]"
    by code_simp
  have f: "(\<lambda>i. swap_at (12 + i) (16 + i)) = (\<lambda>i. swap_at i (i + 4)) \<circ> (+) 12"
    by (simp add: fun_eq_iff add.commute)
  have "for_each (\<lambda>i. swap_at (12 + i) (16 + i)) [0..<4] xs =
      for_each (\<lambda>i. swap_at i (i + 4)) [12..<12 + 4] xs"
    unfolding f for_each_map [symmetric] m ..
  also have "\<dots> = Some (take 12 xs @ take 4 (drop (12 + 4) xs) @ take 4 (drop 12 xs) @
      drop (12 + 2 * 4) xs)"
    by (rule swap_blocks) (use assms in simp)
  finally show ?thesis by simp
qed

lemma echo_reply_bytes_ok:
  assumes l: "20 \<le> ihl" "ihl + 8 \<le> n" "n \<le> length request" "n < 65536"
  shows "echo_reply_bytes ihl n request = Some (echo_reply ihl n request)"
proof -
  let ?H = "echo_reply_header ihl request" and ?M = "take (n - ihl) (drop ihl request)"
  have H: "length ?H = ihl" using l by (simp add: echo_reply_header_def)
  have M: "length ?M = n - ihl" using l by simp
  have "drop 20 (take n request) = take (ihl - 20) (drop 20 request) @ ?M"
    using l take_add [of "ihl - 20" "n - ihl" "drop 20 request"] by (simp add: drop_take)
  then have sw: "for_each (\<lambda>i. swap_at (12 + i) (16 + i)) [0..<4] (take n request) = Some (?H @ ?M)"
    using l swap_addresses [of "take n request"]
    by (simp add: echo_reply_header_def drop_take min_def)
  have up: "(?H @ xs)[ihl + k := v] = ?H @ xs[k := v]" "(?H @ xs)[ihl := v] = ?H @ xs[0 := v]"
    "(?H @ xs)[Suc (ihl + k) := v] = ?H @ xs[Suc k := v]" for k v and xs :: "byte list"
    using H by (simp_all add: list_update_append)
  have up': "i < ihl \<Longrightarrow> (?H @ xs)[i := v] = ?H[i := v] @ xs" for i v and xs :: "byte list"
    using H by (simp add: list_update_append)
  show ?thesis
    using l H M
    by (simp add: echo_reply_bytes_def slice_simps sw up echo_reply_def with_checksum_def Let_def
      ICMP_TYPE_ECHO_REPLY_def list_update_append numeral_2_eq_2 numeral_3_eq_3)
qed

text \<open>The whole function never panics, and replies exactly to the well-formed requests.\<close>

definition is_echo_request :: "byte list \<Rightarrow> bool" where
  "is_echo_request r \<longleftrightarrow> 28 \<le> length r \<and>
     (let ihl = unat (r ! 0 AND 0x0F) * 4; n = unat (u16_of_bytes (r ! 2) (r ! 3)) in
      drop_bit 4 (r ! 0) = 4 \<and> 20 \<le> ihl \<and> ihl + 8 \<le> n \<and> n \<le> length r \<and>
      r ! 9 = PROTOCOL_ICMP \<and> r ! ihl = ICMP_TYPE_ECHO_REQUEST)"

lemma build_echo_reply_ok:
  "build_echo_reply request = Some (if is_echo_request request
     then Some (echo_reply (unat (request ! 0 AND 0x0F) * 4)
       (unat (u16_of_bytes (request ! 2) (request ! 3))) request)
     else None)"
proof (cases "28 \<le> length request")
  case False
  then show ?thesis
    by (simp add: build_echo_reply_def is_echo_request_def IPV4_HEADER_MIN_LEN_def ICMP_HEADER_LEN_def)
next
  case True
  let ?ihl = "unat (request ! 0 AND 0x0F) * 4" and ?n = "unat (u16_of_bytes (request ! 2) (request ! 3))"
  have i: "index 0 request = Some (request ! 0)" "index 9 request = Some (request ! 9)"
    "read_u16_at 2 request = Some (u16_of_bytes (request ! 2) (request ! 3))"
    using True read_u16_at_Some [of 2 request] by (auto simp: index_def)
  note unfold = build_echo_reply_def is_echo_request_def IPV4_HEADER_MIN_LEN_def ICMP_HEADER_LEN_def
    i Let_def not_le not_less
  show ?thesis
  proof (cases "?ihl < 20 \<or> length request < ?ihl + 8")
    case c: True
    have "\<not> is_echo_request request" using c by (auto simp: is_echo_request_def Let_def)
    then show ?thesis using True c by (auto simp: unfold)
  next
    case c: False
    then have t: "index ?ihl request = Some (request ! ?ihl)" by (simp add: index_def)
    have "echo_reply_bytes ?ihl ?n request = Some (echo_reply ?ihl ?n request)"
      if "?ihl + 8 \<le> ?n" "?n \<le> length request"
      using that c by (intro echo_reply_bytes_ok) simp_all
    then show ?thesis
      using True c t by (simp add: unfold)
  qed
qed

text \<open>What the device can check of a reply.\<close>

lemma echo_reply_facts:
  assumes l: "20 \<le> ihl" "ihl + 8 \<le> n" "n \<le> length request"
  defines "r \<equiv> echo_reply ihl n request"
  shows "length r = n" "take 10 r = take 10 request"
    "take 4 (drop 12 r) = take 4 (drop 16 request)" "take 4 (drop 16 r) = take 4 (drop 12 request)"
    "r ! ihl = 0" "drop (ihl + 4) r = drop (ihl + 4) (take n request)"
    "oc_norm (words_sum (take ihl r)) = 65535" "oc_norm (words_sum (drop ihl r)) = 65535"
proof -
  let ?H = "echo_reply_header ihl request" and ?M = "(take (n - ihl) (drop ihl request))[0 := 0]"
  have H: "length (with_checksum 10 ?H) = ihl" "length ?H = ihl"
    using l by (simp_all add: echo_reply_header_def)
  have M: "length ?M = n - ihl" using l by simp
  show "length r = n" "oc_norm (words_sum (take ihl r)) = 65535"
      "oc_norm (words_sum (drop ihl r)) = 65535"
    using l H M by (simp_all add: r_def echo_reply_def with_checksum_verifies)
  show "take 10 r = take 10 request"
    using l H by (simp add: r_def echo_reply_def take_with_checksum) (simp add: echo_reply_header_def)
  show "take 4 (drop 12 r) = take 4 (drop 16 request)"
       "take 4 (drop 16 r) = take 4 (drop 12 request)"
    using l H by (simp_all add: r_def echo_reply_def drop_with_checksum)
      (simp_all add: echo_reply_header_def)
  show "r ! ihl = 0"
    using l H M by (simp add: r_def echo_reply_def nth_append nth_with_checksum)
  show "drop (ihl + 4) r = drop (ihl + 4) (take n request)"
    using l H by (simp add: r_def echo_reply_def drop_with_checksum drop_take add.commute)
qed

subsection \<open>Port unreachable\<close>

text \<open>RFC 792: type 3, code 3, an unused word, the offending header and the first 64 bits of its
  data, from the destination of the offending packet to its source.\<close>

definition unreachable_ip_header :: "u32 \<Rightarrow> u32 \<Rightarrow> nat \<Rightarrow> byte list" where
  "unreachable_ip_header source destination total_length = with_checksum 10
     ([0x45, 0] @ bytes_of_u16 (of_nat total_length) @ [0, 0, 0, 0, 64, PROTOCOL_ICMP, 0, 0] @
      bytes_of_u32 source @ bytes_of_u32 destination)"

definition port_unreachable :: "u32 \<Rightarrow> u32 \<Rightarrow> nat \<Rightarrow> byte list \<Rightarrow> byte list" where
  "port_unreachable source destination hl raw =
     (let quoted = take (hl + 8) raw in
      unreachable_ip_header destination source (28 + length quoted) @
      with_checksum 2 ([3, 3, 0, 0, 0, 0, 0, 0] @ quoted))"

lemma list_update_Cons_numeral [simp]:
  "(x # xs)[numeral v := y] = x # xs[pred_numeral v := y]"
  by (simp add: numeral_eq_Suc)

lemma length_unreachable_ip_header [simp]: "length (unreachable_ip_header s d n) = 20"
  by (simp add: unreachable_ip_header_def)

lemma unreachable_headers_ok:
  "unreachable_headers (28 + n) (bytes_of_u32 s) (bytes_of_u32 d) =
     Some (unreachable_ip_header s d (28 + n) @ [3, 3, 0, 0, 0, 0, 0, 0] @ replicate n 0)"
proof -
  have z: "replicate (28 + n) (0 :: byte) =
      [0,0,0,0,0,0,0,0,0,0,0,0,0,0,0,0,0,0,0,0,0,0,0,0,0,0,0,0] @ replicate n 0"
    by (simp add: numeral_eq_Suc)
  show ?thesis
    unfolding unreachable_headers_def z
    by (simp add: slice_simps bytes_of_u32_def bytes_of_u16_def unreachable_ip_header_def
      with_checksum_def Let_def IPV4_HEADER_MIN_LEN_def)
qed

lemma build_port_unreachable_v6 [simp]: "build_port_unreachable (PkV6 p) = Some None"
  by (simp add: build_port_unreachable_def)

lemma build_port_unreachable_ok:
  assumes "unat (v4_header_length (p4_ip p)) \<le> length (p4_raw p)"
  shows "build_port_unreachable (PkV4 p) = Some (Some (port_unreachable
    (v4_source (p4_ip p)) (v4_destination (p4_ip p)) (unat (v4_header_length (p4_ip p))) (p4_raw p)))"
proof -
  let ?hl = "unat (v4_header_length (p4_ip p))" and ?raw = "p4_raw p"
  define m where "m = min (length ?raw - ?hl) 8"
  define H where "H = unreachable_ip_header (v4_destination (p4_ip p)) (v4_source (p4_ip p)) (28 + (?hl + m))"
  have m: "?hl + m \<le> length ?raw" "m \<le> 8" using assms by (auto simp: m_def)
  have hl: "?hl < 256" by simp
  have H: "length H = 20" by (simp add: H_def)
  have quoted: "take (?hl + 8) ?raw = take ?hl ?raw @ take m (drop ?hl ?raw)"
    by (simp add: take_add m_def min_def)
  have len: "length (take (?hl + 8) ?raw) = ?hl + m" using assms by (auto simp: m_def)
  have tot: "IPV4_HEADER_MIN_LEN + (ICMP_HEADER_LEN + (?hl + m)) = 28 + (?hl + m)"
    by (simp add: IPV4_HEADER_MIN_LEN_def ICMP_HEADER_LEN_def)
  let ?a = "take ?hl ?raw" and ?b = "take m (drop ?hl ?raw)"
  define I :: "byte list" where "I = [3, 3, 0, 0, 0, 0, 0, 0]"
  have I: "length I = 8" by (simp add: I_def)
  have headers: "unreachable_headers (28 + (?hl + m)) (bytes_of_u32 (v4_destination (p4_ip p)))
      (bytes_of_u32 (v4_source (p4_ip p))) = Some (H @ I @ replicate (?hl + m) 0)"
    by (simp only: unreachable_headers_ok H_def I_def)
  have quote1: "splice 28 ?a (H @ I @ replicate (?hl + m) 0) = Some (H @ I @ ?a @ replicate m 0)"
    using assms by (simp add: splice_def H I)
  have quote2: "splice (28 + ?hl) ?b (H @ I @ ?a @ replicate m 0) = Some (H @ I @ ?a @ ?b)"
    using assms m by (simp add: splice_def H I)
  have icmp: "slice IPV4_HEADER_MIN_LEN (28 + (?hl + m)) (H @ I @ ?a @ ?b) = Some (I @ ?a @ ?b)"
    using assms m by (simp add: slice_def H I IPV4_HEADER_MIN_LEN_def)
  have sum: "icmp_checksum (I @ ?a @ ?b) = Some (rfc1071_checksum (I @ ?a @ ?b))"
  proof (rule icmp_checksum_ok)
    have "length (I @ ?a @ ?b) = 8 + (?hl + m)" using assms m by (simp add: I)
    then show "length (I @ ?a @ ?b) < 131072" using hl m by linarith
  qed
  have zs: "(I @ ?a @ ?b)[2 := 0, Suc 2 := 0] = I @ ?a @ ?b"
    by (simp add: I_def numeral_2_eq_2)
  have store_sum: "write_u16_at 22 (rfc1071_checksum (I @ ?a @ ?b)) (H @ I @ ?a @ ?b) =
      Some (H @ with_checksum 2 (I @ ?a @ ?b))"
    unfolding with_checksum_def Let_def zs by (simp add: slice_simps H I list_update_append)
  have "slice 0 ?hl ?raw = Some ?a" "slice ?hl (?hl + m) ?raw = Some ?b"
    using assms m by (simp_all add: slice_def)
  then have "build_port_unreachable (PkV4 p) = Some (Some (H @ with_checksum 2 (I @ ?a @ ?b)))"
    using assms by (simp add: build_port_unreachable_def m_def [symmetric] tot headers quote1 quote2
      icmp sum store_sum Let_def)
  then show ?thesis
    unfolding port_unreachable_def Let_def quoted [symmetric] len H_def I_def by simp
qed

text \<open>What the device can check of it.\<close>

lemma port_unreachable_facts:
  fixes src dst :: u32 and raw :: "byte list"
  assumes "hl \<le> length raw" "hl < 256"
  defines "r \<equiv> port_unreachable src dst hl raw"
  shows "length r = 28 + length (take (hl + 8) raw)"
    "ipv4_parse r = Some \<lparr>v4_version = 4, v4_header_length = 20, v4_total_length = of_nat (length r),
       v4_protocol = Icmp, v4_source = dst, v4_destination = src\<rparr>"
    "take 2 (drop 20 r) = [3, 3]" "drop 28 r = take (hl + 8) raw"
    "oc_norm (words_sum (take 20 r)) = 65535" "oc_norm (words_sum (drop 20 r)) = 65535"
proof -
  let ?H = "unreachable_ip_header dst src (28 + length (take (hl + 8) raw))"
  have r: "r = ?H @ with_checksum 2 ([3, 3, 0, 0, 0, 0, 0, 0] @ take (hl + 8) raw)"
    by (simp add: r_def port_unreachable_def Let_def)
  show len: "length r = 28 + length (take (hl + 8) raw)" by (simp add: r)
  show "oc_norm (words_sum (take 20 r)) = 65535" "oc_norm (words_sum (drop 20 r)) = 65535"
    unfolding r by (simp_all add: unreachable_ip_header_def with_checksum_verifies)
  show "take 2 (drop 20 r) = [3, 3]" "drop 28 r = take (hl + 8) raw"
    unfolding r by (simp_all add: take_with_checksum drop_with_checksum)
  show "ipv4_parse r = Some \<lparr>v4_version = 4, v4_header_length = 20, v4_total_length = of_nat (length r),
       v4_protocol = Icmp, v4_source = dst, v4_destination = src\<rparr>"
    unfolding len unfolding r
    by (simp add: unreachable_ip_header_def with_checksum_def Let_def ipv4_parse_def slice_simps
      bytes_of_u16_def bytes_of_u32_def ipv4_protocol_of_byte_def PROTOCOL_ICMP_def nth_append)
qed

end
