(* ===== verification/Std_Io.thy ===== *)
theory Std_Io
  imports Io
begin

text \<open>
  \<open>Read::read_exact\<close> and \<open>Write::write_all\<close> on a blocking socket (the end of a script stands for the
  end of what a theorem looks at), and what they do on a stream that meets no error.
\<close>

subsection \<open>Whole reads and writes of the library\<close>

text \<open>\<open>?\<close> on a call that changes the stream.\<close>

fun and_then :: "'a io_result \<times> stream \<Rightarrow> ('a \<Rightarrow> stream \<Rightarrow> 'b io_result \<times> stream) \<Rightarrow> 'b io_result \<times> stream" where
  "and_then (Inl e, s) f = (Inl e, s)"
| "and_then (Inr x, s) f = f x s"

function read_exact :: "nat \<Rightarrow> stream \<Rightarrow> byte list io_result \<times> stream" where
  "read_exact n s =
     (if n = 0 then (Inr [], s)
      else case stream_read n s of
        (Inl e, s') \<Rightarrow> (Inl e, s')
      | (Inr bs, s') \<Rightarrow>
          (if bs = [] then (Inl UnexpectedEof, s')
           else and_then (read_exact (n - length bs) s') (\<lambda>rest s''. (Inr (bs @ rest), s''))))"
  by pat_completeness auto
termination by (relation "measure fst") (auto dest: stream_read_le)

declare read_exact.simps [simp del]

function write_all_blocking :: "byte list \<Rightarrow> stream \<Rightarrow> unit io_result \<times> stream" where
  "write_all_blocking bs s =
     (if bs = [] then (Inr (), s)
      else case stream_write bs s of
        (Inl e, s') \<Rightarrow> (Inl e, s')
      | (Inr k, s') \<Rightarrow> (if k = 0 then (Inl WriteZero, s') else write_all_blocking (drop k bs) s'))"
  by pat_completeness auto
termination by (relation "measure (length \<circ> fst)") auto

declare write_all_blocking.simps [simp del]

subsection \<open>Whole reads and writes on a healthy stream\<close>

definition rx_bytes :: "stream \<Rightarrow> byte list" where
  "rx_bytes s = concat (map (\<lambda>c. case c of Inl _ \<Rightarrow> [] | Inr bs \<Rightarrow> bs) (rx s))"

definition rx_healthy :: "stream \<Rightarrow> bool" where
  "rx_healthy s \<longleftrightarrow> (\<forall>c \<in> set (rx s). \<exists>bs. c = Inr bs \<and> bs \<noteq> [])"

text \<open>Every write takes something, and there are \<open>n\<close> of them.\<close>

definition tx_healthy :: "nat \<Rightarrow> stream \<Rightarrow> bool" where
  "tx_healthy n s \<longleftrightarrow> n \<le> length (tx s) \<and> (\<forall>k \<in> set (tx s). \<exists>w. k = Inr w \<and> 0 < w)"

lemma stream_read_healthy:
  assumes "rx_healthy s" "0 < n" "rx_bytes s \<noteq> []"
  obtains bs s' where "stream_read n s = (Inr bs, s')" "bs \<noteq> []" "length bs \<le> n"
    "rx_bytes s = bs @ rx_bytes s'" "rx_healthy s'" "tx s' = tx s" "sent s' = sent s"
proof -
  obtain c r where r: "rx s = Inr c # r" "c \<noteq> []"
    using assms(1,3) by (cases "rx s") (auto simp: rx_healthy_def rx_bytes_def)
  show ?thesis
  proof (cases "length c \<le> n")
    case True
    then show ?thesis
      using that [of c "s\<lparr>rx := r\<rparr>"] r assms(1)
      by (simp add: stream_read.simps rx_bytes_def rx_healthy_def)
  next
    case False
    then show ?thesis
      using that [of "take n c" "s\<lparr>rx := Inr (drop n c) # r\<rparr>"] r assms(1,2)
      by (simp add: stream_read.simps rx_bytes_def rx_healthy_def)
  qed
qed

lemma read_exact_ok:
  assumes "rx_healthy s" "n \<le> length (rx_bytes s)"
  shows "\<exists>s'. read_exact n s = (Inr (take n (rx_bytes s)), s') \<and>
    rx_bytes s' = drop n (rx_bytes s) \<and> rx_healthy s' \<and> tx s' = tx s \<and> sent s' = sent s"
  using assms
proof (induction n s rule: read_exact.induct)
  case (1 n s)
  show ?case
  proof (cases "n = 0")
    case True
    then show ?thesis using 1(2) by (simp add: read_exact.simps)
  next
    case False
    then obtain bs s1 where s1: "stream_read n s = (Inr bs, s1)" "bs \<noteq> []" "length bs \<le> n"
      "rx_bytes s = bs @ rx_bytes s1" "rx_healthy s1" "tx s1 = tx s" "sent s1 = sent s"
      using stream_read_healthy [OF 1(2), of n] 1(3) by (metis gr0I le_zero_eq list.size(3))
    have "n - length bs \<le> length (rx_bytes s1)" using 1(3) s1(4) by simp
    from 1(1) [OF False s1(1) [symmetric] refl s1(2) s1(5) this] obtain s' where s':
      "read_exact (n - length bs) s1 = (Inr (take (n - length bs) (rx_bytes s1)), s')"
      "rx_bytes s' = drop (n - length bs) (rx_bytes s1)" "rx_healthy s'" "tx s' = tx s1"
      "sent s' = sent s1"
      by blast
    then show ?thesis
      using False s1 by (intro exI [of _ s']) (simp add: read_exact.simps [of n s])
  qed
qed

lemma write_all_blocking_ok:
  assumes "tx_healthy (length bs + m) s"
  shows "\<exists>s'. write_all_blocking bs s = (Inr (), s') \<and> sent_bytes s' = sent_bytes s @ bs \<and>
    tx_healthy m s' \<and> rx s' = rx s"
  using assms
proof (induction bs s rule: write_all_blocking.induct)
  case (1 bs s)
  show ?case
  proof (cases "bs = []")
    case True
    then show ?thesis using 1(2) by (simp add: write_all_blocking.simps)
  next
    case False
    then have "tx s \<noteq> []" using 1(2) by (auto simp: tx_healthy_def)
    then obtain k t where t: "tx s = Inr k # t" "0 < k"
      using 1(2) by (cases "tx s") (auto simp: tx_healthy_def)
    let ?k = "min k (length bs)" and ?s = "s\<lparr>tx := t, sent := sent s @ [take (min k (length bs)) bs]\<rparr>"
    have w: "stream_write bs s = (Inr ?k, ?s)" using t by (simp add: stream_write.simps)
    have k: "?k \<noteq> 0" using t False by simp
    have "tx_healthy (length (drop ?k bs) + m) ?s"
      using 1(2) t False by (cases bs) (auto simp: tx_healthy_def min_def)
    from 1(1) [OF False w [symmetric] refl k this] show ?thesis
      using False w k by (auto simp: write_all_blocking.simps [of bs s])
  qed
qed

end
