(* ===== verification/Socks5.thy ===== *)
theory Socks5
  imports Connection Std_Io
begin

text \<open>
  The outgoing side of \<open>TcpConnection::create_stream\<close> (\<open>relay/tcp_connection.rs\<close>): a direct
  connection, or a SOCKS5 \<open>CONNECT\<close> through the proxy of the command line. \<open>TcpStream::connect\<close>
  and the socket options are parameters; \<open>read_exact\<close> and \<open>write_all\<close> are those of \<open>Std_Io\<close>.
\<close>

subsection \<open>The client's side of RFC 1928\<close>

text \<open>\<open>port().to_be_bytes()\<close> and \<open>ip().octets()\<close>.\<close>

fun build_socks5_connect_request :: "socket_addr \<Rightarrow> byte list" where
  "build_socks5_connect_request (IpV4 ip, port) =
     [0x05, 0x01, 0x00] @ [0x01] @ bytes_of_u32 ip @ bytes_of_u16 port"
| "build_socks5_connect_request (IpV6 ip, port) =
     [0x05, 0x01, 0x00] @ [0x04] @ ip @ bytes_of_u16 port"

text \<open>What follows the four bytes of the reply, by address type.\<close>

definition socks5_remaining_len :: "byte \<Rightarrow> stream \<Rightarrow> nat io_result \<times> stream" where
  "socks5_remaining_len addr_type s =
     (if addr_type = 0x01 then (Inr (4 + 2), s)
      else if addr_type = 0x03 then
        and_then (read_exact 1 s) (\<lambda>len_byte s1. (Inr (unat (hd len_byte) + 1 + 2), s1))
      else if addr_type = 0x04 then (Inr (16 + 2), s)
      else (Inl OtherError, s))"

definition socks5_handshake :: "socket_addr \<Rightarrow> stream \<Rightarrow> unit io_result \<times> stream" where
  "socks5_handshake destination s =
     and_then (write_all_blocking [0x05, 0x01, 0x00] s) (\<lambda>_ s1.
     and_then (read_exact 2 s1) (\<lambda>response s2.
     if response \<noteq> [0x05, 0x00] then (Inl OtherError, s2)
     else and_then (write_all_blocking (build_socks5_connect_request destination) s2) (\<lambda>_ s3.
     and_then (read_exact 4 s3) (\<lambda>reply s4.
     if reply ! 0 \<noteq> 0x05 \<or> reply ! 1 \<noteq> 0x00 then (Inl OtherError, s4)
     else and_then (socks5_remaining_len (reply ! 3) s4) (\<lambda>remaining_len s5.
     if 0 < remaining_len then and_then (read_exact remaining_len s5) (\<lambda>_ s6. (Inr (), s6))
     else (Inr (), s5))))))"

definition connect_via_socks5 ::
  "(socket_addr \<Rightarrow> stream io_result) \<Rightarrow> socket_addr \<Rightarrow> socket_addr \<Rightarrow> stream io_result" where
  "connect_via_socks5 tcp_connect proxy destination =
     (case tcp_connect proxy of
        Inl e \<Rightarrow> Inl e
      | Inr s \<Rightarrow> (case socks5_handshake destination s of
          (Inl e, _) \<Rightarrow> Inl e
        | (Inr (), s') \<Rightarrow> Inr s'))"

definition create_stream ::
  "(socket_addr \<Rightarrow> stream io_result) \<Rightarrow> (stream \<Rightarrow> unit io_result) \<Rightarrow> socket_addr option \<Rightarrow>
   connection_id \<Rightarrow> stream io_result" where
  "create_stream tcp_connect set_options socks5_proxy cid =
     (let dest = ci_rewritten_destination cid in
      case (case socks5_proxy of
              Some proxy \<Rightarrow> connect_via_socks5 tcp_connect proxy dest
            | None \<Rightarrow> tcp_connect dest) of
        Inl e \<Rightarrow> Inl e
      | Inr stream \<Rightarrow> (case set_options stream of Inl e \<Rightarrow> Inl e | Inr () \<Rightarrow> Inr stream))"

subsection \<open>The handshake with a proxy that follows the RFC\<close>

text \<open>What a proxy reads in a request, and the replies by which it accepts one.\<close>

definition socks5_request_destination :: "byte list \<Rightarrow> socket_addr option" where
  "socks5_request_destination r =
     (if take 3 r \<noteq> [0x05, 0x01, 0x00] then None
      else if length r = 10 \<and> r ! 3 = 0x01 then
        Some (IpV4 (u32_of_bytes (r ! 4) (r ! 5) (r ! 6) (r ! 7)), u16_of_bytes (r ! 8) (r ! 9))
      else if length r = 22 \<and> r ! 3 = 0x04 then
        Some (IpV6 (take 16 (drop 4 r)), u16_of_bytes (r ! 20) (r ! 21))
      else None)"

lemma socks5_request_roundtrip:
  assumes "\<And>ip. fst destination = IpV6 ip \<Longrightarrow> length ip = 16"
  shows "socks5_request_destination (build_socks5_connect_request destination) = Some destination"
proof (cases "destination" rule: build_socks5_connect_request.cases)
  case (1 ip port)
  then show ?thesis
    by (simp add: socks5_request_destination_def bytes_of_u32_def bytes_of_u16_def)
next
  case (2 ip port)
  then show ?thesis
    using assms by (simp add: socks5_request_destination_def bytes_of_u16_def nth_append)
qed

text \<open>A success with an IPv4 or IPv6 bound address, or with a domain name.\<close>

definition socks5_accepts_ip :: "byte list \<Rightarrow> bool" where
  "socks5_accepts_ip reply \<longleftrightarrow> (\<exists>rsv address port. length port = 2 \<and>
     (reply = [0x05, 0x00, rsv, 0x01] @ address @ port \<and> length address = 4 \<or>
      reply = [0x05, 0x00, rsv, 0x04] @ address @ port \<and> length address = 16))"

definition socks5_accepts_domain :: "byte list \<Rightarrow> bool" where
  "socks5_accepts_domain reply \<longleftrightarrow> (\<exists>rsv n name port. length port = 2 \<and> length name = unat n \<and>
     reply = [0x05, 0x00, rsv, 0x03, n] @ name @ port)"

text \<open>\<open>code_reads reply\<close>: what the code takes for a reply. With a domain name it is one byte longer
  than the RFC's: the length byte is counted again.\<close>

definition code_reads :: "byte list \<Rightarrow> bool" where
  "code_reads reply \<longleftrightarrow> (\<exists>rsv atyp len tail. reply = [0x05, 0x00, rsv, atyp] @ len @ tail \<and>
    (atyp = 0x01 \<and> len = [] \<and> length tail = 6 \<or> atyp = 0x04 \<and> len = [] \<and> length tail = 18 \<or>
     atyp = 0x03 \<and> length len = 1 \<and> length tail = unat (hd len) + 3))"

lemma socks5_accepts_ip_reads: "socks5_accepts_ip reply \<Longrightarrow> code_reads reply"
  unfolding socks5_accepts_ip_def code_reads_def by fastforce

lemma socks5_accepts_domain_reads:
  assumes "socks5_accepts_domain reply"
  shows "code_reads (reply @ [b])"
proof -
  obtain rsv n name port where "length port = 2" "length name = unat n"
    "reply = [0x05, 0x00, rsv, 0x03, n] @ name @ port"
    using assms unfolding socks5_accepts_domain_def by blast
  then show ?thesis
    unfolding code_reads_def
    by (intro exI [of _ rsv] exI [of _ "0x03"] exI [of _ "[n]"] exI [of _ "name @ port @ [b]"]) simp
qed

lemma socks5_remaining_len_ok:
  assumes "atyp = 0x01 \<and> len = [] \<and> length tail = 6 \<or> atyp = 0x04 \<and> len = [] \<and> length tail = 18 \<or>
     atyp = 0x03 \<and> length len = 1 \<and> length tail = unat (hd len) + 3"
    and "rx_bytes s = len @ tail @ rest" "rx_healthy s"
  obtains s' where "socks5_remaining_len atyp s = (Inr (length tail), s')" "rx_bytes s' = tail @ rest"
    "rx_healthy s'" "tx s' = tx s" "sent s' = sent s"
proof -
  have "\<exists>s'. socks5_remaining_len atyp s = (Inr (length tail), s') \<and> rx_bytes s' = tail @ rest \<and>
      rx_healthy s' \<and> tx s' = tx s \<and> sent s' = sent s"
    using assms(1)
  proof (elim disjE conjE)
    assume a: "atyp = 0x03" "length len = 1" "length tail = unat (hd len) + 3"
    then have "len \<noteq> []" "1 \<le> length (rx_bytes s)" "take 1 (rx_bytes s) = len"
      "drop 1 (rx_bytes s) = tail @ rest"
      using assms(2) by auto
    then show ?thesis
      using a read_exact_ok [OF assms(3), of 1] by (auto simp: socks5_remaining_len_def)
  qed (use assms in \<open>simp_all add: socks5_remaining_len_def\<close>)
  then show ?thesis using that by blast
qed

lemma socks5_handshake_reads:
  assumes rx: "rx_healthy s" "rx_bytes s = [0x05, 0x00] @ reply @ rest" "code_reads reply"
    and tx: "tx_healthy (3 + length (build_socks5_connect_request destination) + m) s"
  shows "\<exists>s'. socks5_handshake destination s = (Inr (), s') \<and> rx_bytes s' = rest \<and>
    rx_healthy s' \<and>
    sent_bytes s' = sent_bytes s @ [0x05, 0x01, 0x00] @ build_socks5_connect_request destination"
proof -
  obtain rsv atyp len tail where reply: "reply = [0x05, 0x00, rsv, atyp] @ len @ tail"
    "atyp = 0x01 \<and> len = [] \<and> length tail = 6 \<or> atyp = 0x04 \<and> len = [] \<and> length tail = 18 \<or>
     atyp = 0x03 \<and> length len = 1 \<and> length tail = unat (hd len) + 3"
    using rx(3) unfolding code_reads_def by blast
  let ?req = "build_socks5_connect_request destination"
  have "tx_healthy (length [0x05, 0x01, 0x00 :: byte] + (length ?req + m)) s"
    using tx by (simp add: add.assoc numeral_3_eq_3)
  from write_all_blocking_ok [OF this] obtain s1 where 1:
    "write_all_blocking [0x05, 0x01, 0x00] s = (Inr (), s1)"
    "sent_bytes s1 = sent_bytes s @ [0x05, 0x01, 0x00]" "tx_healthy (length ?req + m) s1" "rx s1 = rx s"
    by blast
  have r1: "rx_healthy s1" "rx_bytes s1 = [0x05, 0x00] @ reply @ rest"
    using rx 1(4) by (simp_all add: rx_healthy_def rx_bytes_def)
  obtain s2 where 2: "read_exact 2 s1 = (Inr [0x05, 0x00], s2)" "rx_bytes s2 = reply @ rest"
    "rx_healthy s2" "tx s2 = tx s1" "sent s2 = sent s1"
    using read_exact_ok [OF r1(1), of 2] r1(2) by auto
  have "tx_healthy (length ?req + m) s2" using 1(3) 2(4) by (simp add: tx_healthy_def)
  from write_all_blocking_ok [OF this] obtain s3 where 3:
    "write_all_blocking ?req s2 = (Inr (), s3)" "sent_bytes s3 = sent_bytes s2 @ ?req" "rx s3 = rx s2"
    by blast
  have r3: "rx_healthy s3" "rx_bytes s3 = [0x05, 0x00, rsv, atyp] @ len @ tail @ rest"
    using 2(2,3) 3(3) reply(1) by (simp_all add: rx_healthy_def rx_bytes_def)
  obtain s4 where 4: "read_exact 4 s3 = (Inr [0x05, 0x00, rsv, atyp], s4)"
    "rx_bytes s4 = len @ tail @ rest" "rx_healthy s4" "sent s4 = sent s3"
    using read_exact_ok [OF r3(1), of 4] r3(2) by auto
  obtain s5 where 5: "socks5_remaining_len atyp s4 = (Inr (length tail), s5)"
    "rx_bytes s5 = tail @ rest" "rx_healthy s5" "sent s5 = sent s4"
    by (rule socks5_remaining_len_ok [OF reply(2) 4(2,3)])
  obtain s6 where 6: "read_exact (length tail) s5 = (Inr tail, s6)" "rx_bytes s6 = rest"
    "rx_healthy s6" "sent s6 = sent s5"
    using read_exact_ok [OF 5(3), of "length tail"] 5(2) by auto
  have "0 < length tail" using reply(2) by auto
  then have "socks5_handshake destination s = (Inr (), s6)"
    using 1 2 3 4 5 6 by (simp add: socks5_handshake_def)
  then show ?thesis using 1(2) 2(5) 3(2) 4(4) 5(4) 6(2-4) by simp
qed

text \<open>With an IP address in the reply the connection succeeds, the proxy has received exactly the
  greeting and the request, and not one byte of the tunnel behind the reply has been read,
  whatever the chunks.\<close>

lemmas socks5_handshake_ok = socks5_handshake_reads [OF _ _ socks5_accepts_ip_reads]

text \<open>With a domain name in the reply the first byte of the tunnel is lost.\<close>

lemma socks5_domain_reply_swallows:
  assumes rx: "rx_healthy s" "rx_bytes s = [0x05, 0x00] @ reply @ b # rest" "socks5_accepts_domain reply"
    and tx: "tx_healthy (3 + length (build_socks5_connect_request destination) + m) s"
  shows "\<exists>s'. socks5_handshake destination s = (Inr (), s') \<and> rx_bytes s' = rest"
  using socks5_handshake_reads [OF rx(1) _ socks5_accepts_domain_reads [OF rx(3)] tx, of b rest] rx(2)
  by auto

text \<open>A proxy that does not take the only method offered is sent nothing more.\<close>

lemma socks5_method_refused:
  assumes rx: "rx_healthy s" "rx_bytes s = [v, m] @ rest" "[v, m] \<noteq> [0x05, 0x00]"
    and tx: "tx_healthy (3 + k) s"
  shows "\<exists>s'. socks5_handshake destination s = (Inl OtherError, s') \<and>
    sent_bytes s' = sent_bytes s @ [0x05, 0x01, 0x00]"
proof -
  have "tx_healthy (length [0x05, 0x01, 0x00 :: byte] + k) s"
    using tx by (simp add: numeral_3_eq_3)
  from write_all_blocking_ok [OF this] obtain s1 where 1:
    "write_all_blocking [0x05, 0x01, 0x00] s = (Inr (), s1)"
    "sent_bytes s1 = sent_bytes s @ [0x05, 0x01, 0x00]" "rx s1 = rx s"
    by blast
  have r1: "rx_healthy s1" "rx_bytes s1 = [v, m] @ rest"
    using rx 1(3) by (simp_all add: rx_healthy_def rx_bytes_def)
  obtain s2 where 2: "read_exact 2 s1 = (Inr [v, m], s2)" "sent s2 = sent s1"
    using read_exact_ok [OF r1(1), of 2] r1(2) by auto
  then have "socks5_handshake destination s = (Inl OtherError, s2)"
    using 1 rx(3) by (auto simp: socks5_handshake_def)
  then show ?thesis using 1(2) 2(2) by simp
qed

end
