(* ===== verification/Std_Time.thy ===== *)
theory Std_Time
  imports Main
begin

text \<open>
  \<open>std::time\<close> as the source uses it: an \<open>Instant\<close> or a \<open>Duration\<close> is a number of nanoseconds, and
  \<open>Instant::now()\<close> an argument of the operation that reads the clock. \<open>duration_since\<close> and
  \<open>elapsed\<close> saturate at zero.
\<close>

type_synonym instant = nat

definition from_secs :: "nat \<Rightarrow> nat" where
  "from_secs s = s * 1000000000"

definition from_millis :: "nat \<Rightarrow> nat" where
  "from_millis ms = ms * 1000000"

definition as_secs :: "nat \<Rightarrow> nat" where
  "as_secs d = d div 1000000000"

definition as_millis :: "nat \<Rightarrow> nat" where
  "as_millis d = d div 1000000"

definition duration_since :: "instant \<Rightarrow> instant \<Rightarrow> nat" where
  "duration_since now earlier = now - earlier"

lemma as_secs_less_iff: "s < as_secs d \<longleftrightarrow> from_secs (s + 1) \<le> d"
  using less_eq_div_iff_mult_less_eq [of 1000000000 "Suc s" d]
  by (simp add: as_secs_def from_secs_def Suc_le_eq)

lemma duration_since_less_iff: "duration_since now t < d \<longleftrightarrow> 0 < d \<and> now < t + d"
  by (auto simp: duration_since_def)

end
