(* ===== verification/Datagram_Buffer.thy ===== *)
theory Datagram_Buffer
  imports Io
begin

text \<open>
  \<open>relay/datagram_buffer.rs\<close>: the circular buffer that keeps the datagrams of a UDP flow, each
  one stored whole behind a two-byte length, with extra space after the circular part so that
  the last datagram never wraps. \<open>db_repr b ds\<close> relates the representation to the queue of
  datagrams it holds; the locale \<open>datagram_queue\<close> is the contract of its user.
\<close>

definition HEADER_LENGTH :: nat where
  "HEADER_LENGTH = 2"

definition MAX_BLOCK_LENGTH :: nat where
  "MAX_BLOCK_LENGTH = HEADER_LENGTH + MAX_DATAGRAM_LENGTH"

record datagram_buffer =
  db_buf :: "byte list"
  db_head :: nat
  db_tail :: nat
  db_circular_length :: nat

definition db_new :: "nat \<Rightarrow> datagram_buffer" where
  "db_new capacity =
     \<lparr>db_buf = replicate (capacity + MAX_BLOCK_LENGTH) 0, db_head = 0, db_tail = 0,
      db_circular_length = capacity + 1\<rparr>"

definition db_is_empty :: "datagram_buffer \<Rightarrow> bool" where
  "db_is_empty b \<longleftrightarrow> db_head b = db_tail b"

definition db_has_enough_space_for :: "nat \<Rightarrow> datagram_buffer \<Rightarrow> bool" where
  "db_has_enough_space_for datagram_length b =
     (if db_tail b \<le> db_head b then True
      else HEADER_LENGTH + datagram_length \<le> db_tail b - db_head b - 1)"

definition db_read_length :: "datagram_buffer \<Rightarrow> (u16 \<times> datagram_buffer) option" where
  "db_read_length b =
     (let b' = b\<lparr>db_tail := db_tail b + 2\<rparr> in do {
        w \<leftarrow> read_u16_at (db_tail b' - 2) (db_buf b');
        Some (w, b')
      })"

definition db_write_length :: "u16 \<Rightarrow> datagram_buffer \<Rightarrow> datagram_buffer option" where
  "db_write_length len b = do {
     buf' \<leftarrow> write_u16_at (db_head b) len (db_buf b);
     Some (b\<lparr>db_buf := buf', db_head := db_head b + 2\<rparr>)
   }"

text \<open>\<open>write_to\<close> asserts that the buffer is not empty. The tail moves before the datagram is
  sent, so a failed or short send drops it.\<close>

definition db_write_to ::
    "datagram_buffer \<Rightarrow> stream \<Rightarrow> (unit io_result \<times> datagram_buffer \<times> stream) option" where
  "db_write_to b destination =
     (if db_is_empty b then None
      else do {
        (w, b1) \<leftarrow> db_read_length b;
        let len = unat w;
        source_slice \<leftarrow> slice (db_tail b1) (db_tail b1 + len) (db_buf b1);
        let t = db_tail b1 + len;
        let b2 = b1\<lparr>db_tail := (if db_circular_length b1 \<le> t then 0 else t)\<rparr>;
        (case stream_write source_slice destination of
           (Inl e, d) \<Rightarrow> Some (Inl e, b2, d)
         | (Inr n, d) \<Rightarrow> Some (if n \<noteq> len then Inl OtherError else Inr (), b2, d))
      })"

text \<open>\<open>read_from\<close> asserts that the datagram is not too long and refuses it when there is no
  room.\<close>

definition db_read_from ::
    "byte list \<Rightarrow> datagram_buffer \<Rightarrow> (unit io_result \<times> datagram_buffer) option" where
  "db_read_from source b =
     (let len = length source in
      if MAX_DATAGRAM_LENGTH < len then None
      else if \<not> db_has_enough_space_for len b then Some (Inl OtherError, b)
      else do {
        b1 \<leftarrow> db_write_length (of_nat len) b;
        buf' \<leftarrow> splice (db_head b1) source (db_buf b1);
        let h = db_head b1 + len;
        Some (Inr (), b1\<lparr>db_buf := buf', db_head := (if db_circular_length b1 \<le> h then 0 else h)\<rparr>)
      })"

subsection \<open>The queue of datagrams\<close>

definition enc :: "byte list \<Rightarrow> byte list" where
  "enc d = bytes_of_u16 (of_nat (length d)) @ d"

definition ser :: "byte list list \<Rightarrow> byte list" where
  "ser ds = concat (map enc ds)"

definition db_geometry :: "datagram_buffer \<Rightarrow> bool" where
  "db_geometry b \<longleftrightarrow>
     db_tail b < db_circular_length b \<and> db_head b < db_circular_length b \<and>
     length (db_buf b) = db_circular_length b - 1 + MAX_BLOCK_LENGTH"

text \<open>The datagrams lie between tail and head; or, when the head has wrapped, \<open>ds1\<close> runs from
  the tail past the end of the circular part and \<open>ds2\<close> from the start to the head.\<close>

definition db_linear :: "datagram_buffer \<Rightarrow> byte list list \<Rightarrow> bool" where
  "db_linear b ds \<longleftrightarrow> db_tail b \<le> db_head b \<and>
     take (db_head b - db_tail b) (drop (db_tail b) (db_buf b)) = ser ds"

definition db_wrapped :: "datagram_buffer \<Rightarrow> byte list list \<Rightarrow> byte list list \<Rightarrow> bool" where
  "db_wrapped b ds1 ds2 \<longleftrightarrow> db_head b < db_tail b \<and> ds1 \<noteq> [] \<and>
     db_tail b + length (ser (butlast ds1)) < db_circular_length b \<and>
     db_circular_length b \<le> db_tail b + length (ser ds1) \<and>
     take (length (ser ds1)) (drop (db_tail b) (db_buf b)) = ser ds1 \<and>
     take (db_head b) (db_buf b) = ser ds2"

definition db_repr :: "datagram_buffer \<Rightarrow> byte list list \<Rightarrow> bool" where
  "db_repr b ds \<longleftrightarrow> db_geometry b \<and> (\<forall>d \<in> set ds. length d < 65536) \<and>
     (db_linear b ds \<or> (\<exists>ds1 ds2. ds = ds1 @ ds2 \<and> db_wrapped b ds1 ds2))"

text \<open>The only offers the buffer stores: short enough, with room, and not one that would bring
  the head back onto a tail at the start.\<close>

definition db_accepts :: "datagram_buffer \<Rightarrow> byte list \<Rightarrow> bool" where
  "db_accepts b d \<longleftrightarrow> length d < 65536 \<and> db_has_enough_space_for (length d) b \<and>
     (0 < db_tail b \<or> db_head b + 2 + length d < db_circular_length b)"

lemma ser_simps [simp]:
  "ser [] = []" "ser (d # ds) = enc d @ ser ds" "ser (ds @ ds') = ser ds @ ser ds'"
  by (simp_all add: ser_def)

lemma length_enc [simp]: "length (enc d) = 2 + length d"
  by (simp add: enc_def)

lemma enc_not_Nil [simp]: "enc d \<noteq> []" "[] \<noteq> enc d"
  by (simp_all add: enc_def bytes_of_u16_def)

lemma ser_Nil_iff [simp]: "ser ds = [] \<longleftrightarrow> ds = []"
  by (cases ds) simp_all

lemma db_repr_new: "db_repr (db_new n) []"
  by (simp add: db_repr_def db_geometry_def db_new_def db_linear_def MAX_BLOCK_LENGTH_def)

lemma db_is_empty_repr:
  assumes "db_repr b ds"
  shows "db_is_empty b \<longleftrightarrow> ds = []"
  using assms
proof -
  have "db_is_empty b \<longleftrightarrow> ds = []" if "db_linear b ds" "db_geometry b"
    using that by (cases "ds = []")
      (auto simp: db_linear_def db_is_empty_def db_geometry_def MAX_BLOCK_LENGTH_def HEADER_LENGTH_def
        simp flip: ser_Nil_iff)
  then show ?thesis
    using assms by (auto simp: db_repr_def db_wrapped_def db_is_empty_def)
qed

lemma db_repr_empty_cases:
  assumes "db_repr b []"
  shows "db_linear b []"
  using assms by (auto simp: db_repr_def db_wrapped_def)

subsection \<open>Storing a datagram\<close>

text \<open>The block a store writes, and the head it leaves.\<close>

definition db_stored :: "byte list \<Rightarrow> datagram_buffer \<Rightarrow> datagram_buffer" where
  "db_stored d b =
     (let h = db_head b + 2 + length d in
      b\<lparr>db_buf := take (db_head b) (db_buf b) @ enc d @ drop h (db_buf b),
        db_head := (if db_circular_length b \<le> h then 0 else h)\<rparr>)"

lemma splice_splice:
  assumes "a + length xs + length ys \<le> length zs"
  shows "(do { z \<leftarrow> splice a xs zs; splice (a + length xs) ys z }) =
    Some (take a zs @ (xs @ ys) @ drop (a + length xs + length ys) zs)"
  using assms by (simp add: slice_simps ac_simps)

lemma db_read_from_stored:
  assumes "db_geometry b" "length d < 65536" "db_has_enough_space_for (length d) b"
  shows "db_read_from d b = Some (Inr (), db_stored d b)"
proof -
  have "db_head b + length (bytes_of_u16 (of_nat (length d))) + length d \<le> length (db_buf b)"
    using assms by (simp add: db_geometry_def MAX_BLOCK_LENGTH_def HEADER_LENGTH_def
      MAX_DATAGRAM_LENGTH_def)
  from splice_splice [OF this] show ?thesis
    using assms by (auto simp: db_read_from_def db_write_length_def write_u16_at_def Let_def
      MAX_DATAGRAM_LENGTH_def db_stored_def enc_def ac_simps split: Option.bind_splits)
qed


lemma length_db_stored:
  assumes "db_geometry b" "length d < 65536"
  shows "length (db_buf (db_stored d b)) = length (db_buf b)"
  using assms by (simp add: db_stored_def Let_def db_geometry_def MAX_BLOCK_LENGTH_def
    HEADER_LENGTH_def MAX_DATAGRAM_LENGTH_def)

lemma db_geometry_stored:
  assumes "db_geometry b" "length d < 65536"
  shows "db_geometry (db_stored d b)"
  using assms length_db_stored [OF assms]
  by (auto simp: db_geometry_def db_stored_def Let_def)

lemma db_stored_linear:
  assumes g: "db_geometry b" "length d < 65536" and lin: "db_linear b ds"
    and acc: "0 < db_tail b \<or> db_head b + 2 + length d < db_circular_length b"
  shows "db_linear (db_stored d b) (ds @ [d]) \<or> db_wrapped (db_stored d b) (ds @ [d]) []"
proof -
  let ?h = "db_head b + 2 + length d" and ?b = "db_stored d b"
  have th: "db_tail b \<le> db_head b" and run: "take (db_head b - db_tail b) (drop (db_tail b) (db_buf b)) = ser ds"
    using lin by (simp_all add: db_linear_def)
  have fit: "?h \<le> length (db_buf b)" "db_head b < length (db_buf b)"
    using g by (simp_all add: db_geometry_def MAX_BLOCK_LENGTH_def HEADER_LENGTH_def
      MAX_DATAGRAM_LENGTH_def)
  have len: "length (ser ds) = db_head b - db_tail b"
    using run fit th by (auto simp flip: run)
  have run': "take (?h - db_tail b) (drop (db_tail b) (db_buf ?b)) = ser (ds @ [d])"
    using fit th run len by (simp add: db_stored_def Let_def drop_take)
  show ?thesis
  proof (cases "db_circular_length b \<le> ?h")
    case False
    then have "db_head ?b = ?h" "db_tail ?b = db_tail b"
      by (simp_all add: db_stored_def Let_def)
    then show ?thesis using run' th by (simp add: db_linear_def)
  next
    case True
    then have "db_head ?b = 0" "db_tail ?b = db_tail b" "0 < db_tail b"
        "db_circular_length ?b = db_circular_length b"
      using acc by (simp_all add: db_stored_def Let_def)
    moreover have "?h - db_tail b = length (ser (ds @ [d]))"
      using len th by simp
    ultimately show ?thesis
      using run' True len th g by (simp add: db_wrapped_def db_geometry_def)
  qed
qed

lemma db_stored_wrapped:
  assumes g: "db_geometry b" and wr: "db_wrapped b ds1 ds2"
    and room: "db_has_enough_space_for (length d) b"
  shows "db_wrapped (db_stored d b) ds1 (ds2 @ [d])"
proof -
  let ?h = "db_head b + 2 + length d" and ?b = "db_stored d b"
  have ht: "?h < db_tail b" "db_tail b < db_circular_length b"
      "db_circular_length b \<le> length (db_buf b)"
    using room wr g by (auto simp: db_has_enough_space_for_def db_wrapped_def HEADER_LENGTH_def
      db_geometry_def MAX_BLOCK_LENGTH_def MAX_DATAGRAM_LENGTH_def)
  then have f: "db_head ?b = ?h" "db_tail ?b = db_tail b"
      "db_circular_length ?b = db_circular_length b"
      "db_buf ?b = take (db_head b) (db_buf b) @ enc d @ drop ?h (db_buf b)"
    by (simp_all add: db_stored_def Let_def)
  have "drop (db_tail b) (db_buf ?b) = drop (db_tail b) (db_buf b)"
    using ht drop_beyond_splice [of "db_head b" "enc d" "db_tail b" "db_buf b"] by (simp add: f)
  moreover have "take ?h (db_buf ?b) = take (db_head b) (db_buf b) @ enc d"
    using ht by (simp add: f)
  then have "take ?h (db_buf ?b) = ser (ds2 @ [d])"
    using wr by (simp add: db_wrapped_def)
  ultimately show ?thesis
    using wr ht by (simp add: db_wrapped_def f(1-3))
qed

lemma db_repr_stored:
  assumes r: "db_repr b ds" and acc: "db_accepts b d"
  shows "db_repr (db_stored d b) (ds @ [d])"
proof -
  have g: "db_geometry b" "length d < 65536" "db_has_enough_space_for (length d) b"
    using assms by (simp_all add: db_repr_def db_accepts_def)
  consider "db_linear b ds" | ds1 ds2 where "ds = ds1 @ ds2" "db_wrapped b ds1 ds2"
    using r by (auto simp: db_repr_def)
  then have "db_linear (db_stored d b) (ds @ [d]) \<or>
      (\<exists>ds1 ds2. ds @ [d] = ds1 @ ds2 \<and> db_wrapped (db_stored d b) ds1 ds2)"
  proof cases
    case 1
    then show ?thesis
      using db_stored_linear [OF g(1,2) 1] acc by (force simp: db_accepts_def)
  next
    case 2
    then have "ds @ [d] = ds1 @ (ds2 @ [d])" by simp
    then show ?thesis using db_stored_wrapped [OF g(1) 2(2) g(3)] by blast
  qed
  then show ?thesis
    using r db_geometry_stored [OF g(1,2)] g(2) by (auto simp: db_repr_def)
qed

text \<open>The corner the buffer does not guard: with the tail at the start, a datagram that
  reaches the end of the circular part puts the head back on the tail, and everything stored,
  the new datagram included, is forgotten.\<close>

lemma db_stored_collision:
  assumes "db_geometry b" "db_tail b = 0" "db_circular_length b \<le> db_head b + 2 + length d"
  shows "db_is_empty (db_stored d b)" "db_head (db_stored d b) = 0"
  using assms by (simp_all add: db_is_empty_def db_stored_def Let_def)

subsection \<open>Taking a datagram\<close>

text \<open>The tail after the datagram in front has been read.\<close>

definition db_taken :: "byte list \<Rightarrow> datagram_buffer \<Rightarrow> datagram_buffer" where
  "db_taken d b =
     (let t = db_tail b + 2 + length d in
      b\<lparr>db_tail := (if db_circular_length b \<le> t then 0 else t)\<rparr>)"

definition db_front :: "datagram_buffer \<Rightarrow> byte list \<Rightarrow> bool" where
  "db_front b d \<longleftrightarrow> length d < 65536 \<and> db_tail b + 2 + length d \<le> length (db_buf b) \<and>
     take (2 + length d) (drop (db_tail b) (db_buf b)) = enc d"

lemma take_prefix_of_append:
  "take n xs = a @ b \<Longrightarrow> take (length a) xs = a"
  by (metis append_eq_conv_conj min.absorb1 length_append le_add1 length_take min.cobounded2
      order_trans take_take)

lemma take_suffix_of_append:
  "take n xs = a @ b \<Longrightarrow> take (n - length a) (drop (length a) xs) = b"
  by (metis append_eq_conv_conj drop_take)

lemma db_frontI:
  assumes "take n (drop (db_tail b) (db_buf b)) = enc d @ rest" "length d < 65536"
  shows "db_front b d"
proof -
  have t: "take (2 + length d) (drop (db_tail b) (db_buf b)) = enc d"
    using take_prefix_of_append [OF assms(1)] by simp
  then have "length (take (2 + length d) (drop (db_tail b) (db_buf b))) = 2 + length d"
    by simp
  then show ?thesis
    using t assms(2) by (auto simp: db_front_def)
qed

lemma db_write_to_front:
  assumes "\<not> db_is_empty b" "db_front b d"
  shows "db_write_to b s =
    (case stream_write d s of
       (Inl e, s') \<Rightarrow> Some (Inl e, db_taken d b, s')
     | (Inr n, s') \<Rightarrow> Some (if n \<noteq> length d then Inl OtherError else Inr (), db_taken d b, s'))"
proof -
  let ?t = "db_tail b" and ?buf = "db_buf b"
  have fit: "?t + 2 + length d \<le> length ?buf" "length d < 65536"
    and blk: "take (2 + length d) (drop ?t ?buf) = enc d"
    using assms(2) by (simp_all add: db_front_def)
  have hd: "take 2 (drop ?t ?buf) = bytes_of_u16 (of_nat (length d))"
    using arg_cong [OF blk, of "take 2"] by (simp add: enc_def min_def)
  have "read_u16_at ?t ?buf = Some (of_nat (length d))"
    using fit hd by (simp add: read_u16_at_def slice_simps bytes_of_u16_def)
  moreover have "take (length d) (drop (?t + 2) ?buf) = d"
    using arg_cong [OF blk, of "drop 2"] by (simp add: enc_def drop_take add.commute)
  ultimately show ?thesis
    using assms(1) fit by (auto simp: db_write_to_def db_read_length_def Let_def slice_simps
      db_taken_def ac_simps split: prod.splits sum.splits)
qed


lemma db_taken_linear:
  assumes "db_geometry b" "length d < 65536" "db_linear b (d # ds)"
  shows "db_front b d" "db_linear (db_taken d b) ds"
proof -
  have th: "db_tail b \<le> db_head b"
    and run: "take (db_head b - db_tail b) (drop (db_tail b) (db_buf b)) = enc d @ ser ds"
    using assms(3) by (simp_all add: db_linear_def)
  show "db_front b d" using run assms(2) by (rule db_frontI)
  have "length (enc d @ ser ds) \<le> db_head b - db_tail b"
    by (simp flip: run)
  then have "db_tail b + 2 + length d \<le> db_head b" "db_head b < db_circular_length b"
    using th assms(1) by (simp_all add: db_geometry_def)
  then show "db_linear (db_taken d b) ds"
    using take_suffix_of_append [OF run] by (simp add: db_linear_def db_taken_def Let_def ac_simps)
qed

lemma db_taken_wrapped:
  assumes "db_geometry b" "length d < 65536" "db_wrapped b (d # ds1) ds2"
  shows "db_front b d"
    and "ds1 = [] \<Longrightarrow> db_linear (db_taken d b) ds2"
    and "ds1 \<noteq> [] \<Longrightarrow> db_wrapped (db_taken d b) ds1 ds2"
proof -
  let ?t = "db_tail b + 2 + length d"
  have wr: "db_head b < db_tail b" "db_circular_length b \<le> db_tail b + length (ser (d # ds1))"
      "db_tail b + length (ser (butlast (d # ds1))) < db_circular_length b"
    and pre: "take (db_head b) (db_buf b) = ser ds2"
    and run: "take (length (ser (d # ds1))) (drop (db_tail b) (db_buf b)) = enc d @ ser ds1"
    using assms(3) by (simp_all add: db_wrapped_def)
  show "db_front b d" using run assms(2) by (rule db_frontI)
  show "db_linear (db_taken d b) ds2" if "ds1 = []"
    using that wr pre by (simp add: db_linear_def db_taken_def Let_def)
  show "db_wrapped (db_taken d b) ds1 ds2" if "ds1 \<noteq> []"
  proof -
    have "?t < db_circular_length b" using that wr by simp
    moreover have "take (length (ser ds1)) (drop ?t (db_buf b)) = ser ds1"
      using take_suffix_of_append [OF run] by (simp add: ac_simps)
    ultimately show ?thesis
      using that wr pre by (simp add: db_wrapped_def db_taken_def Let_def)
  qed
qed

lemma db_repr_taken:
  assumes r: "db_repr b (d # ds)"
  shows "db_front b d" "db_repr (db_taken d b) ds"
proof -
  have g: "db_geometry b" "length d < 65536" and all: "\<forall>d \<in> set ds. length d < 65536"
    using r by (simp_all add: db_repr_def)
  then have g': "db_geometry (db_taken d b)"
    by (auto simp: db_geometry_def db_taken_def Let_def)
  consider "db_linear b (d # ds)" | ds1 ds2 where "d # ds = ds1 @ ds2" "db_wrapped b ds1 ds2"
    using r by (auto simp: db_repr_def)
  then have "db_front b d \<and> (db_linear (db_taken d b) ds \<or>
      (\<exists>ds1 ds2. ds = ds1 @ ds2 \<and> db_wrapped (db_taken d b) ds1 ds2))"
  proof cases
    case 1
    then show ?thesis using db_taken_linear [OF g 1] by blast
  next
    case (2 ds1 ds2)
    then obtain ds1' where ds1: "ds1 = d # ds1'" "ds = ds1' @ ds2"
      by (auto simp: db_wrapped_def Cons_eq_append_conv)
    show ?thesis
      using db_taken_wrapped [OF g, of ds1' ds2] 2(2) ds1 by (cases "ds1' = []") auto
  qed
  then show "db_front b d" "db_repr (db_taken d b) ds"
    using g' all by (auto simp: db_repr_def)
qed

subsection \<open>The contract of a datagram queue\<close>

text \<open>A use of a queue: datagrams offered, in between sends of the one in front (none when the queue
  is empty, as its user does). The run gives every offer with the queue it met and its answer, and the
  answers to the sends.
  \<open>offers_ok\<close>: every offer is one that the queue takes or refuses.\<close>

datatype datagram_op = Put "byte list" | Send

fun datagram_run ::
    "('q \<Rightarrow> bool) \<Rightarrow> (byte list \<Rightarrow> 'q \<Rightarrow> (unit io_result \<times> 'q) option) \<Rightarrow>
     ('q \<Rightarrow> stream \<Rightarrow> (unit io_result \<times> 'q \<times> stream) option) \<Rightarrow> datagram_op list \<Rightarrow> 'q \<Rightarrow> stream \<Rightarrow>
     (('q \<times> byte list \<times> unit io_result) list \<times> unit io_result list \<times> 'q \<times> stream) option" where
  "datagram_run is_empty put send_front [] q s = Some ([], [], q, s)"
| "datagram_run is_empty put send_front (Put d # ops) q s = do {
     (r, q1) \<leftarrow> put d q;
     (offers, sends, q', s') \<leftarrow> datagram_run is_empty put send_front ops q1 s;
     Some ((q, d, r) # offers, sends, q', s')
   }"
| "datagram_run is_empty put send_front (Send # ops) q s =
     (if is_empty q then datagram_run is_empty put send_front ops q s
      else do {
        (r, q1, s1) \<leftarrow> send_front q s;
        (offers, sends, q', s') \<leftarrow> datagram_run is_empty put send_front ops q1 s1;
        Some (offers, r # sends, q', s')
      })"

fun offers_ok ::
    "(byte list \<Rightarrow> 'q \<Rightarrow> bool) \<Rightarrow> ('q \<Rightarrow> bool) \<Rightarrow> (byte list \<Rightarrow> 'q \<Rightarrow> (unit io_result \<times> 'q) option) \<Rightarrow>
     ('q \<Rightarrow> stream \<Rightarrow> (unit io_result \<times> 'q \<times> stream) option) \<Rightarrow> datagram_op list \<Rightarrow> 'q \<Rightarrow> stream \<Rightarrow> bool" where
  "offers_ok P is_empty put send_front [] q s \<longleftrightarrow> True"
| "offers_ok P is_empty put send_front (Put d # ops) q s \<longleftrightarrow> P d q \<and>
     (case put d q of None \<Rightarrow> True | Some (_, q1) \<Rightarrow> offers_ok P is_empty put send_front ops q1 s)"
| "offers_ok P is_empty put send_front (Send # ops) q s \<longleftrightarrow>
     (if is_empty q then offers_ok P is_empty put send_front ops q s
      else case send_front q s of None \<Rightarrow> True
        | Some (_, q1, s1) \<Rightarrow> offers_ok P is_empty put send_front ops q1 s1)"

lemma offers_ok_mono:
  assumes "\<And>d q. P d q \<Longrightarrow> Q d q" "offers_ok P is_empty put send_front ops q s"
  shows "offers_ok Q is_empty put send_front ops q s"
  using assms(2)
proof (induction ops arbitrary: q s)
  case (Cons op ops)
  then show ?case by (cases op) (auto simp: assms(1) split: option.splits if_splits)
qed simp

abbreviation accepted :: "('q \<times> byte list \<times> unit io_result) list \<Rightarrow> byte list list" where
  "accepted offers \<equiv> map (\<lambda>(_, d, _). d) (filter (\<lambda>(_, _, r). r = Inr ()) offers)"

fun put_datagrams :: "datagram_op list \<Rightarrow> byte list list" where
  "put_datagrams [] = []"
| "put_datagrams (Put d # ops) = d # put_datagrams ops"
| "put_datagrams (Send # ops) = put_datagrams ops"

locale datagram_queue =
  fixes repr :: "'q \<Rightarrow> byte list list \<Rightarrow> bool"
    and is_empty :: "'q \<Rightarrow> bool"
    and accepts refuses :: "'q \<Rightarrow> byte list \<Rightarrow> bool"
    and put :: "byte list \<Rightarrow> 'q \<Rightarrow> (unit io_result \<times> 'q) option"
    and send_front :: "'q \<Rightarrow> stream \<Rightarrow> (unit io_result \<times> 'q \<times> stream) option"
  assumes empty: "repr q ds \<Longrightarrow> is_empty q \<longleftrightarrow> ds = []"
    and put_ok: "repr q ds \<Longrightarrow> accepts q d \<Longrightarrow>
      \<exists>q'. put d q = Some (Inr (), q') \<and> repr q' (ds @ [d])"
    and put_refused: "repr q ds \<Longrightarrow> refuses q d \<Longrightarrow> put d q = Some (Inl OtherError, q)"
    and send_ok: "repr q (d # ds) \<Longrightarrow>
      \<exists>r q' s'. send_front q s = Some (r, q', s') \<and> repr q' ds \<and>
        (r = Inr () \<longrightarrow> sent s' = sent s @ [d])"
begin

text \<open>What was in the queue and what it took in the run has left it in order, or is still there.\<close>

lemma run_fifo:
  assumes "repr q ds" "offers_ok (\<lambda>d q. accepts q d \<or> refuses q d) is_empty put send_front ops q s"
  shows "\<exists>offers sends q' s' taken rest.
    datagram_run is_empty put send_front ops q s = Some (offers, sends, q', s') \<and>
    map (\<lambda>(_, d, _). d) offers = put_datagrams ops \<and>
    (\<forall>(q, d, r) \<in> set offers. r = Inr () \<and> accepts q d \<or> r = Inl OtherError \<and> refuses q d) \<and>
    ds @ accepted offers = taken @ rest \<and> repr q' rest \<and> length sends = length taken \<and>
    (set sends \<subseteq> {Inr ()} \<longrightarrow> sent s' = sent s @ taken)"
  using assms
proof (induction ops arbitrary: q ds s)
  case (Cons op ops)
  show ?case
  proof (cases op)
    case (Put d)
    obtain r q1 ds1 where q1: "put d q = Some (r, q1)" "repr q1 ds1"
      "r = Inr () \<and> accepts q d \<and> ds1 = ds @ [d] \<or> r = Inl OtherError \<and> refuses q d \<and> ds1 = ds"
      using Put Cons.prems put_ok [OF Cons.prems(1), of d] put_refused [OF Cons.prems(1), of d] by auto
    then have "offers_ok (\<lambda>d q. accepts q d \<or> refuses q d) is_empty put send_front ops q1 s"
      using Cons.prems(2) Put by simp
    from Cons.IH [OF q1(2) this] obtain offers sends q' s' taken rest where
      "datagram_run is_empty put send_front ops q1 s = Some (offers, sends, q', s')"
      "map (\<lambda>(_, d, _). d) offers = put_datagrams ops"
      "\<forall>(q, d, r) \<in> set offers. r = Inr () \<and> accepts q d \<or> r = Inl OtherError \<and> refuses q d"
      "ds1 @ accepted offers = taken @ rest" "repr q' rest" "length sends = length taken"
      "set sends \<subseteq> {Inr ()} \<longrightarrow> sent s' = sent s @ taken"
      by (elim exE conjE)
    then show ?thesis
      using Put q1
      by (intro exI [of _ "(q, d, r) # offers"] exI [of _ sends] exI [of _ q'] exI [of _ s']
        exI [of _ taken] exI [of _ rest]) auto
  next
    case Send
    show ?thesis
    proof (cases ds)
      case Nil
      then show ?thesis
        using Send Cons.prems Cons.IH [OF Cons.prems(1), of s] empty by simp
    next
      case (Cons d ds')
      have ne: "\<not> is_empty q" using Cons Cons.prems(1) empty by simp
      obtain r q1 s1 where q1: "send_front q s = Some (r, q1, s1)" "repr q1 ds'"
        "r = Inr () \<Longrightarrow> sent s1 = sent s @ [d]"
        using send_ok Cons.prems(1) unfolding Cons by blast
      then have "offers_ok (\<lambda>d q. accepts q d \<or> refuses q d) is_empty put send_front ops q1 s1"
        using Cons.prems(2) Send ne by simp
      from Cons.IH [OF q1(2) this] obtain offers sends q' s' taken rest where
        "datagram_run is_empty put send_front ops q1 s1 = Some (offers, sends, q', s')"
        "map (\<lambda>(_, d, _). d) offers = put_datagrams ops"
        "\<forall>(q, d, r) \<in> set offers. r = Inr () \<and> accepts q d \<or> r = Inl OtherError \<and> refuses q d"
        "ds' @ accepted offers = taken @ rest" "repr q' rest" "length sends = length taken"
        "set sends \<subseteq> {Inr ()} \<longrightarrow> sent s' = sent s1 @ taken"
        by (elim exE conjE)
      then show ?thesis
        using Send ne q1 Cons
        by (intro exI [of _ offers] exI [of _ "r # sends"] exI [of _ q'] exI [of _ s']
          exI [of _ "d # taken"] exI [of _ rest]) auto
    qed
  qed
qed (auto intro: exI [of _ "[]"])

end

text \<open>An offer that is too long, or that meets the corner, is neither taken nor refused.\<close>

definition db_refuses :: "datagram_buffer \<Rightarrow> byte list \<Rightarrow> bool" where
  "db_refuses b d \<longleftrightarrow> length d < 65536 \<and> \<not> db_has_enough_space_for (length d) b"

interpretation dbq: datagram_queue db_repr db_is_empty db_accepts db_refuses db_read_from db_write_to
proof (unfold_locales, goal_cases)
  case (1 q ds)
  then show ?case by (rule db_is_empty_repr)
next
  case (2 q ds d)
  then have "db_read_from d q = Some (Inr (), db_stored d q)"
    by (intro db_read_from_stored) (auto simp: db_repr_def db_accepts_def)
  then show ?case using db_repr_stored [OF 2] by blast
next
  case (3 q ds d)
  then show ?case by (simp add: db_refuses_def db_read_from_def MAX_DATAGRAM_LENGTH_def)
next
  case (4 q d ds s)
  then have "\<not> db_is_empty q" by (simp add: db_is_empty_repr [OF 4])
  from db_write_to_front [OF this db_repr_taken(1) [OF 4], of s] db_repr_taken(2) [OF 4]
  show ?case by (auto split: prod.splits sum.splits dest: stream_write_sent)
qed

text \<open>Running the buffer on concrete datagrams.\<close>

lemmas db_evaluate = db_new_def db_is_empty_def db_has_enough_space_for_def db_read_from_def
  db_write_to_def db_write_length_def db_read_length_def write_u16_at_def read_u16_at_def
  slice_simps splice_def slice_def bytes_of_u16_def u16_of_bytes_def MAX_BLOCK_LENGTH_def
  HEADER_LENGTH_def MAX_DATAGRAM_LENGTH_def stream_write.simps Let_def

end
