(* ===== verification/Udp_Connection.thy ===== *)
theory Udp_Connection
  imports Std_Time Connection Datagram_Buffer Packetizer
begin

text \<open>
  \<open>relay/udp_connection.rs\<close>: a UDP flow is a connected socket, a buffer of datagrams towards it and
  a packetizer towards the device. \<open>UdpSocket::bind\<close> and \<open>connect\<close> are one parameter,
  \<open>Instant::now()\<close> an argument. \<open>remove_from_router\<close> does nothing while the router polls.
\<close>

definition IDLE_TIMEOUT_SECONDS :: nat where
  "IDLE_TIMEOUT_SECONDS = 300"

record udp_connection =
  uc_id :: connection_id
  uc_socket :: stream
  uc_client_to_network :: datagram_buffer
  uc_network_to_client :: packetizer
  uc_closed :: bool
  uc_idle_since :: instant
  uc_bytes_sent :: u64
  uc_bytes_received :: u64

type_synonym udp_cfg = "udp_connection \<times> stream_buffer"

text \<open>The unspecified address of the destination's family, and any port.\<close>

fun udp_autobind_addr :: "socket_addr \<Rightarrow> socket_addr" where
  "udp_autobind_addr (IpV4 _, _) = (IpV4 0, 0)"
| "udp_autobind_addr (IpV6 _, _) = (IpV6 (replicate 16 0), 0)"

definition udp_create_socket ::
  "(socket_addr \<Rightarrow> socket_addr \<Rightarrow> stream io_result) \<Rightarrow> connection_id \<Rightarrow> stream io_result" where
  "udp_create_socket udp_open cid =
     (let destination = ci_rewritten_destination cid
      in udp_open (udp_autobind_addr destination) destination)"

definition udp_create ::
  "(socket_addr \<Rightarrow> socket_addr \<Rightarrow> stream io_result) \<Rightarrow> instant \<Rightarrow> connection_id \<Rightarrow> ip_header \<Rightarrow>
   transport_header \<Rightarrow> udp_connection io_result option" where
  "udp_create udp_open now cid ip_header transport_header =
     (case udp_create_socket udp_open cid of
        Inl e \<Rightarrow> Some (Inl e)
      | Inr socket \<Rightarrow> do {
          packetizer \<leftarrow> packetizer_new ip_header transport_header;
          Some (Inr \<lparr>uc_id = cid, uc_socket = socket,
                     uc_client_to_network = db_new (32 * MAX_PACKET_LENGTH),
                     uc_network_to_client = packetizer, uc_closed = False, uc_idle_since = now,
                     uc_bytes_sent = 0, uc_bytes_received = 0\<rparr>)
        })"

definition uc_touch :: "instant \<Rightarrow> udp_connection \<Rightarrow> udp_connection" where
  "uc_touch now c = c\<lparr>uc_idle_since := now\<rparr>"

definition uc_close :: "udp_connection \<Rightarrow> udp_connection" where
  "uc_close c = c\<lparr>uc_closed := True\<rparr>"

definition uc_is_expired :: "instant \<Rightarrow> udp_connection \<Rightarrow> bool" where
  "uc_is_expired now c \<longleftrightarrow> IDLE_TIMEOUT_SECONDS < as_secs (duration_since now (uc_idle_since c))"

definition uc_write :: "udp_connection \<Rightarrow> (unit io_result \<times> udp_connection) option" where
  "uc_write c = do {
     (r, c2n, socket) \<leftarrow> db_write_to (uc_client_to_network c) (uc_socket c);
     Some (r, c\<lparr>uc_client_to_network := c2n, uc_socket := socket\<rparr>)
   }"

text \<open>The \<open>WouldBlock\<close> of a write is passed on as a fresh \<open>WouldBlock\<close>.\<close>

definition uc_process_send :: "udp_connection \<Rightarrow> (unit io_result \<times> udp_connection) option" where
  "uc_process_send c = do {
     (r, c') \<leftarrow> uc_write c;
     Some (case r of Inr _ \<Rightarrow> Inr () | Inl e \<Rightarrow> if e = WouldBlock then Inl WouldBlock else Inl e, c')
   }"

definition uc_read :: "udp_cfg \<Rightarrow> (unit io_result \<times> udp_cfg) option" where
  "uc_read = (\<lambda>(c, b). do {
     (r, socket, pk) \<leftarrow> packetize (uc_socket c) (uc_network_to_client c);
     let c1 = c\<lparr>uc_socket := socket, uc_network_to_client := pk\<rparr>;
     case r of
       Inl e \<Rightarrow> Some (Inl e, c1, b)
     | Inr ip_packet \<Rightarrow> do {
         payload_opt \<leftarrow> ip_payload ip_packet;
         let len = (case payload_opt of Some p \<Rightarrow> length p | None \<Rightarrow> 0);
         let c2 = c1\<lparr>uc_bytes_received := uc_bytes_received c1 + of_nat len\<rparr>;
         (if unat (ip_length ip_packet) \<le> sb_remaining b
          then do { b' \<leftarrow> sb_read_from (ip_raw ip_packet) b; Some (Inr (), c2, b') }
          else Some (Inr (), c2, b))
       }
   })"

definition uc_process_receive :: "udp_cfg \<Rightarrow> (unit io_result \<times> udp_cfg) option" where
  "uc_process_receive cfg = do {
     (r, cfg') \<leftarrow> uc_read cfg;
     Some (case r of Inr _ \<Rightarrow> Inr () | Inl e \<Rightarrow> Inl e, cfg')
   }"

text \<open>\<open>poll_self\<close>: the two halves; \<open>Inl\<close> ends the poll, \<open>Inr\<close> passes \<open>made_progress\<close> on.\<close>

definition uc_poll_send :: "udp_cfg \<Rightarrow> ((unit io_result + bool) \<times> udp_cfg) option" where
  "uc_poll_send = (\<lambda>(c, b).
     if \<not> db_is_empty (uc_client_to_network c) then do {
       (r, c') \<leftarrow> uc_process_send c;
       case r of
         Inr _ \<Rightarrow> Some (Inr True, c', b)
       | Inl e \<Rightarrow>
           if e = WouldBlock then Some (Inr False, c', b)
           else Some (Inl (Inr ()), uc_close c', b)
     } else Some (Inr False, c, b))"

definition uc_poll_receive :: "bool \<Rightarrow> udp_cfg \<Rightarrow> ((unit io_result + bool) \<times> udp_cfg) option" where
  "uc_poll_receive made_progress = (\<lambda>(c, b).
     if \<not> uc_closed c then do {
       (r, c', b') \<leftarrow> uc_process_receive (c, b);
       case r of
         Inr _ \<Rightarrow> Some (Inr True, c', b')
       | Inl e \<Rightarrow>
           if e = WouldBlock then Some (Inr made_progress, c', b')
           else Some (Inl (Inr ()), uc_close c', b')
     } else Some (Inr made_progress, c, b))"

definition udp_poll :: "instant \<Rightarrow> udp_cfg \<Rightarrow> (unit io_result \<times> udp_cfg) option" where
  "udp_poll now = (\<lambda>(c, b).
     if uc_closed c then Some (Inr (), c, b)
     else do {
       (r, cfg1) \<leftarrow> uc_poll_send (uc_touch now c, b);
       (case r of
          Inl res \<Rightarrow> Some (res, cfg1)
        | Inr made_progress \<Rightarrow> do {
            (r2, cfg2) \<leftarrow> uc_poll_receive made_progress cfg1;
            Some (case r2 of
                Inl res \<Rightarrow> res
              | Inr progress \<Rightarrow> if progress then Inr () else Inl WouldBlock, cfg2)
          })
     })"

text \<open>A datagram the buffer refuses is dropped with a warning.\<close>

definition uc_send_to_network :: "ip_packet \<Rightarrow> udp_connection \<Rightarrow> udp_connection option" where
  "uc_send_to_network ip_packet c = do {
     payload_opt \<leftarrow> ip_payload ip_packet;
     case payload_opt of
       None \<Rightarrow> Some c
     | Some payload \<Rightarrow> do {
         (_, c2n) \<leftarrow> db_read_from payload (uc_client_to_network c);
         Some (c\<lparr>uc_client_to_network := c2n,
                 uc_bytes_sent := uc_bytes_sent c + of_nat (length payload)\<rparr>)
       }
   }"

subsection \<open>Well-formedness and totality\<close>

definition uc_holds :: "udp_connection \<Rightarrow> byte list list \<Rightarrow> bool" where
  "uc_holds c ds \<longleftrightarrow> db_repr (uc_client_to_network c) ds"

definition uc_wf :: "udp_connection \<Rightarrow> bool" where
  "uc_wf c \<longleftrightarrow> (\<exists>ds. uc_holds c ds) \<and> pk_wf (uc_network_to_client c) \<and>
     td_is_udp (pk_transport (uc_network_to_client c))"

text \<open>The datagrams the network delivers fit an IP packet behind the headers.\<close>

definition uc_deliverable :: "udp_connection \<Rightarrow> bool" where
  "uc_deliverable c \<longleftrightarrow> (\<forall>bs. Inr bs \<in> set (rx (uc_socket c)) \<longrightarrow>
     pk_payload_index (uc_network_to_client c) + length bs < MAX_PACKET_LENGTH)"

text \<open>The datagram in front has left the queue, for the socket or for nowhere; a packet of the flow
  has been queued for the device, or none.\<close>

definition sent_front :: "stream \<Rightarrow> byte list list \<Rightarrow> stream \<Rightarrow> byte list list \<Rightarrow> bool" where
  "sent_front s ds s' ds' \<longleftrightarrow> ds = [] \<and> ds' = [] \<and> sent s' = sent s \<or>
     (\<exists>d. ds = d # ds' \<and> (sent s' = sent s \<or> (\<exists>k. sent s' = sent s @ [take k d])))"

definition received_packet :: "packetizer \<Rightarrow> stream_buffer \<Rightarrow> stream_buffer \<Rightarrow> bool" where
  "received_packet pk b b' \<longleftrightarrow>
     b' = b \<or> (\<exists>p payload. built pk payload p \<and> appended (ip_raw p) b b')"

lemma db_read_from_repr:
  assumes r: "db_repr b ds" and d: "length d < 65536"
  obtains res b' ds' where "db_read_from d b = Some (res, b')" "db_repr b' ds'"
    "ds' = (if db_accepts b d then ds @ [d] else if db_has_enough_space_for (length d) b then [] else ds)"
    "res = Inr () \<longleftrightarrow> db_has_enough_space_for (length d) b"
proof (cases "db_has_enough_space_for (length d) b")
  case False
  then have "db_read_from d b = Some (Inl OtherError, b)"
    using d by (simp add: db_read_from_def MAX_DATAGRAM_LENGTH_def)
  then show ?thesis using that [of "Inl OtherError" b ds] r False by (simp add: db_accepts_def)
next
  case True
  have g: "db_geometry b" using r by (simp add: db_repr_def)
  have s: "db_read_from d b = Some (Inr (), db_stored d b)"
    by (rule db_read_from_stored [OF g d True])
  show ?thesis
  proof (cases "db_accepts b d")
    case acc: True
    then show ?thesis using that [OF s db_repr_stored [OF r acc]] True by simp
  next
    case acc: False
    then have t: "db_tail b = 0" "db_circular_length b \<le> db_head b + 2 + length d"
      using True d by (auto simp: db_accepts_def)
    have "db_tail (db_stored d b) = 0" using t by (simp add: db_stored_def Let_def)
    then have "db_repr (db_stored d b) []"
      using db_geometry_stored [OF g d] db_stored_collision [OF g t]
      by (simp add: db_repr_def db_linear_def)
    then show ?thesis using that [OF s] True acc by simp
  qed
qed

lemma uc_send_to_network_ok:
  assumes wf: "uc_wf c" and p: "ip_payload p = Some (Some payload)" "length payload < 65536"
    and h: "uc_holds c ds"
  obtains c' where "uc_send_to_network p c = Some c'" "uc_wf c'" "uc_socket c' = uc_socket c"
    "uc_network_to_client c' = uc_network_to_client c"
    "db_accepts (uc_client_to_network c) payload \<Longrightarrow> uc_holds c' (ds @ [payload])"
    "\<not> db_has_enough_space_for (length payload) (uc_client_to_network c) \<Longrightarrow> uc_holds c' ds"
proof -
  obtain res b' ds' where b: "db_read_from payload (uc_client_to_network c) = Some (res, b')"
    "db_repr b' ds'" "ds' = (if db_accepts (uc_client_to_network c) payload then ds @ [payload]
      else if db_has_enough_space_for (length payload) (uc_client_to_network c) then [] else ds)"
    by (rule db_read_from_repr [OF h [unfolded uc_holds_def] p(2)])
  let ?c = "c\<lparr>uc_client_to_network := b', uc_bytes_sent := uc_bytes_sent c + of_nat (length payload)\<rparr>"
  have "uc_send_to_network p c = Some ?c" using b(1) p(1) by (simp add: uc_send_to_network_def)
  then show ?thesis
    by (rule that [of ?c]) (use b wf in \<open>auto simp: uc_wf_def uc_holds_def db_accepts_def\<close>)
qed

text \<open>A send removes the datagram in front, whole, whatever the socket answers.\<close>

lemma uc_poll_send_ok:
  assumes wf: "uc_wf c" and h: "uc_holds c ds"
  obtains r c' ds' where "uc_poll_send (c, b) = Some (r, c', b)" "uc_wf c'" "uc_holds c' ds'"
    "rx (uc_socket c') = rx (uc_socket c)" "uc_network_to_client c' = uc_network_to_client c"
    "uc_idle_since c' = uc_idle_since c"
    "sent_front (uc_socket c) ds (uc_socket c') ds'"
    "uc_closed c' \<longrightarrow> uc_closed c \<or> (\<exists>res. r = Inl res)"
proof -
  have dr: "db_repr (uc_client_to_network c) ds" using h by (simp add: uc_holds_def)
  show ?thesis
  proof (cases ds)
    case Nil
    then have "uc_poll_send (c, b) = Some (Inr False, c, b)"
      using db_is_empty_repr [OF dr] by (simp add: uc_poll_send_def)
    then show ?thesis using that [of "Inr False" c "[]"] wf h Nil by (simp add: sent_front_def)
  next
    case (Cons d ds')
    have ne: "\<not> db_is_empty (uc_client_to_network c)"
      using db_is_empty_repr [OF dr] Cons by simp
    note front = db_repr_taken [OF dr [unfolded Cons]]
    obtain res s' where w: "stream_write d (uc_socket c) = (res, s')" by fastforce
    define r1 where "r1 = (case res of Inl e \<Rightarrow> Inl e
      | Inr n \<Rightarrow> if n \<noteq> length d then Inl OtherError else (Inr () :: unit io_result))"
    define c1 where "c1 = c\<lparr>uc_client_to_network := db_taken d (uc_client_to_network c), uc_socket := s'\<rparr>"
    have "db_write_to (uc_client_to_network c) (uc_socket c) =
        Some (r1, db_taken d (uc_client_to_network c), s')"
      using db_write_to_front [OF ne front(1), of "uc_socket c"] w
      by (simp add: r1_def split: sum.splits)
    then have send: "uc_process_send c = Some (r1, c1)"
      by (auto simp: uc_process_send_def uc_write_def c1_def split: sum.splits)
    have wf1: "uc_wf c1" "uc_holds c1 ds'"
      using wf front(2) by (auto simp: uc_wf_def uc_holds_def c1_def)
    have s1: "rx s' = rx (uc_socket c)" "sent s' = sent (uc_socket c) \<or>
        (\<exists>k. sent s' = sent (uc_socket c) @ [take k d])"
      using stream_write_rx [OF w] w
      by (cases res; auto dest: stream_write_sent stream_write_error_sent)+
    have "\<exists>r c'. uc_poll_send (c, b) = Some (r, c', b) \<and> (c' = c1 \<or> c' = uc_close c1 \<and> (\<exists>res. r = Inl res))"
      using ne send by (auto simp: uc_poll_send_def split: sum.splits)
    then obtain r c' where c': "uc_poll_send (c, b) = Some (r, c', b)"
      "c' = c1 \<or> c' = uc_close c1 \<and> (\<exists>res. r = Inl res)" by blast
    have "uc_wf c'" "uc_holds c' ds'" "uc_socket c' = s'"
      "uc_network_to_client c' = uc_network_to_client c" "uc_idle_since c' = uc_idle_since c"
      using c'(2) wf1 by (auto simp: uc_close_def uc_wf_def uc_holds_def c1_def)
    moreover have "uc_closed c' \<longrightarrow> uc_closed c \<or> (\<exists>res. r = Inl res)"
      using c'(2) by (auto simp: c1_def)
    ultimately show ?thesis using that [OF c'(1)] s1 Cons by (simp add: sent_front_def)
  qed
qed

text \<open>A receive turns one datagram of the network into one whole packet of the flow, or drops it
  when the device's buffer is full.\<close>

lemma uc_poll_receive_ok:
  assumes wf: "uc_wf c" and d: "uc_deliverable c" and h: "uc_holds c ds" and b: "sb_wf b"
  obtains r c' b' where "uc_poll_receive made (c, b) = Some (r, c', b')" "uc_wf c'" "uc_holds c' ds"
    "uc_deliverable c'" "sent (uc_socket c') = sent (uc_socket c)" "uc_idle_since c' = uc_idle_since c"
    "received_packet (uc_network_to_client c) b b'"
proof (cases "uc_closed c")
  case True
  then have "uc_poll_receive made (c, b) = Some (Inr made, c, b)" by (simp add: uc_poll_receive_def)
  then show ?thesis using that wf d h by (simp add: received_packet_def)
next
  case False
  let ?pk = "uc_network_to_client c"
  have pw: "pk_wf ?pk" and udp: "td_is_udp (pk_transport ?pk)" using wf by (simp_all add: uc_wf_def)
  have len: "\<not> length (pk_buffer ?pk) < pk_payload_index ?pk"
    using pk_wf_bounds [OF pw] by (simp add: MAX_PACKET_LENGTH_def)
  obtain res s' where rd: "dgram_recv (length (pk_buffer ?pk) - pk_payload_index ?pk) (uc_socket c) = (res, s')"
    by fastforce
  have s': "sent s' = sent (uc_socket c)" "set (rx s') \<subseteq> set (rx (uc_socket c))"
    using rd by (auto simp: dgram_recv.simps split: list.splits sum.splits)
  show ?thesis
  proof (cases res)
    case (Inl e)
    let ?c = "c\<lparr>uc_socket := s'\<rparr>"
    have "uc_poll_receive made (c, b) = Some (if e = WouldBlock then (Inr made, ?c, b)
        else (Inl (Inr ()), uc_close ?c, b))"
      using False len rd Inl by (simp add: uc_poll_receive_def uc_process_receive_def uc_read_def packetize_def)
    then show ?thesis
      using that [of "if e = WouldBlock then Inr made else Inl (Inr ())"
          "if e = WouldBlock then ?c else uc_close ?c" b] wf d h s'
      by (auto simp: received_packet_def uc_close_def uc_wf_def uc_holds_def uc_deliverable_def split: if_splits)
  next
    case (Inr bs)
    have "\<exists>bs0. Inr bs0 \<in> set (rx (uc_socket c)) \<and> length bs \<le> length bs0"
      using rd Inr by (auto simp: dgram_recv.simps split: list.splits sum.splits intro: exI)
    then have "pk_payload_index ?pk + length bs < MAX_PACKET_LENGTH"
      using d by (fastforce simp: uc_deliverable_def)
    from pk_store_and_build_ok [OF pw this] obtain p pk' where p:
      "(do { pk1 \<leftarrow> pk_store_payload bs ?pk; pk_build (of_nat (length bs)) pk1 }) = Some (p, pk')"
      "built ?pk bs p" "pk_wf pk'" "pk_same_shape ?pk pk'" "pk_transport pk' = pk_transport ?pk"
      by blast
    have pz: "packetize (uc_socket c) ?pk = Some (Inr p, s', pk')"
      using p(1) len rd Inr by (auto simp: packetize_def split: Option.bind_splits)
    have pp: "ip_payload p = Some (Some bs)" "packet_wf p" using p(2) by (simp_all add: built_def)
    let ?c = "c\<lparr>uc_socket := s', uc_network_to_client := pk',
      uc_bytes_received := uc_bytes_received c + of_nat (length bs)\<rparr>"
    note plen = packet_wf_length [OF pp(2)]
    have "\<exists>b'. uc_poll_receive made (c, b) = Some (Inr True, ?c, b') \<and> (b' = b \<or> appended (ip_raw p) b b')"
      using False pz pp(1) plen sb_read_from_ok [OF b, of "ip_raw p"]
      by (cases "length (ip_raw p) \<le> sb_remaining b")
        (auto simp: uc_poll_receive_def uc_process_receive_def uc_read_def appended_def)
    then obtain b' where b': "uc_poll_receive made (c, b) = Some (Inr True, ?c, b')"
      "b' = b \<or> appended (ip_raw p) b b'" by blast
    show ?thesis
      by (rule that [OF b'(1)])
        (use b'(2) p wf d h s' in \<open>auto simp: received_packet_def uc_wf_def uc_holds_def uc_deliverable_def pk_same_shape_def\<close>)
  qed
qed

text \<open>A poll of an open flow: at most one datagram leaves, at most one packet is queued, no panic,
  and the idle clock is set to now, whether anything happened or not.\<close>

lemma udp_poll_ok:
  assumes wf: "uc_wf c" and d: "uc_deliverable c" and h: "uc_holds c ds" and b: "sb_wf b"
    and o: "\<not> uc_closed c"
  obtains r c' b' ds' where "udp_poll now (c, b) = Some (r, c', b')" "uc_wf c'" "uc_deliverable c'"
    "uc_holds c' ds'" "sb_wf b'" "uc_idle_since c' = now"
    "sent_front (uc_socket c) ds (uc_socket c') ds'"
    "received_packet (uc_network_to_client c) b b'"
proof -
  let ?c = "uc_touch now c"
  have w0: "uc_wf ?c" "uc_holds ?c ds" using wf h by (simp_all add: uc_touch_def uc_wf_def uc_holds_def)
  obtain r c1 ds' where 1: "uc_poll_send (?c, b) = Some (r, c1, b)" "uc_wf c1" "uc_holds c1 ds'"
    "rx (uc_socket c1) = rx (uc_socket ?c)" "uc_network_to_client c1 = uc_network_to_client ?c"
    "uc_idle_since c1 = uc_idle_since ?c"
    "sent_front (uc_socket ?c) ds (uc_socket c1) ds'"
    by (rule uc_poll_send_ok [OF w0])
  have d1: "uc_deliverable c1" using d 1(4,5) by (simp add: uc_deliverable_def uc_touch_def)
  note t = uc_touch_def
  show ?thesis
  proof (cases r)
    case (Inl res)
    then have "udp_poll now (c, b) = Some (res, c1, b)" using 1(1) o by (simp add: udp_poll_def)
    then show ?thesis by (rule that) (use 1 d1 b in \<open>auto simp: t received_packet_def\<close>)
  next
    case (Inr made)
    obtain r2 c2 b2 where 2: "uc_poll_receive made (c1, b) = Some (r2, c2, b2)" "uc_wf c2"
      "uc_holds c2 ds'" "uc_deliverable c2" "sent (uc_socket c2) = sent (uc_socket c1)"
      "uc_idle_since c2 = uc_idle_since c1"
      "received_packet (uc_network_to_client c1) b b2"
      by (rule uc_poll_receive_ok [OF 1(2) d1 1(3) b])
    have wf2: "sb_wf b2" using 2(7) b by (auto simp: appended_def received_packet_def)
    obtain res where res: "udp_poll now (c, b) = Some (res, c2, b2)"
      using 1(1) 2(1) Inr o by (simp add: udp_poll_def)
    show ?thesis
      by (rule that [OF res 2(2,4,3) wf2]) (use 1(5-7) 2(5-7) in \<open>simp_all add: t sent_front_def\<close>)
  qed
qed

text \<open>So a flow that is polled more often than every 300 seconds never expires, however long it has
  been idle.\<close>

lemma udp_polled_never_expires:
  assumes "uc_idle_since c = t" "now < t + from_secs 301"
  shows "\<not> uc_is_expired now c"
proof -
  have "\<not> from_secs (300 + 1) \<le> now - t"
    using assms(2) by (simp add: from_secs_def)
  then show ?thesis
    using assms(1) by (simp only: uc_is_expired_def as_secs_less_iff duration_since_def
      IDLE_TIMEOUT_SECONDS_def not_False_eq_True simp_thms)
qed

end
