(* ===== verification/Router.thy ===== *)
theory Router
  imports Tcp_Numbers Icmp Socks5 Udp_Connection "HOL-Library.AList"
begin

text \<open>
  \<open>relay/router.rs\<close>: the connections of one client by their identifiers, created on demand, and the
  identifiers closed in the last two seconds. A \<open>dyn Connection\<close> is a TCP or a UDP connection. The
  maps are association lists with distinct keys: the source's hash maps iterate in an arbitrary
  order, and the theorems hold for any order of the list. What the operating system answers is the
  record \<open>world\<close>: the clock (read once at the start of an operation and perhaps again later), a
  random number and the results of opening sockets.
\<close>

definition RECENTLY_CLOSED_TTL :: nat where
  "RECENTLY_CLOSED_TTL = from_secs 2"

record world =
  w_now :: instant
  w_later :: instant
  w_random :: u32
  w_tcp_connect :: "socket_addr \<Rightarrow> stream io_result"
  w_set_options :: "stream \<Rightarrow> unit io_result"
  w_socks5_proxy :: "socket_addr option"
  w_udp_open :: "socket_addr \<Rightarrow> socket_addr \<Rightarrow> stream io_result"

subsection \<open>\<open>dyn Connection\<close>\<close>

datatype connection = CTcp tcp_connection | CUdp udp_connection

fun cn_send_to_network :: "world \<Rightarrow> ip_packet \<Rightarrow> connection \<times> stream_buffer \<Rightarrow> (connection \<times> stream_buffer) option" where
  "cn_send_to_network w p (CTcp c, b) = do {
     (c', b') \<leftarrow> handle_packet (w_random w) p (c, b);
     Some (CTcp c', b')
   }"
| "cn_send_to_network w p (CUdp c, b) = do {
     c' \<leftarrow> uc_send_to_network p c;
     Some (CUdp c', b)
   }"

fun cn_close :: "connection \<Rightarrow> connection" where
  "cn_close (CTcp c) = CTcp (tc_close c)"
| "cn_close (CUdp c) = CUdp (uc_close c)"

fun cn_is_expired :: "instant \<Rightarrow> connection \<Rightarrow> bool" where
  "cn_is_expired now (CTcp c) \<longleftrightarrow> False"
| "cn_is_expired now (CUdp c) \<longleftrightarrow> uc_is_expired now c"

fun cn_is_closed :: "connection \<Rightarrow> bool" where
  "cn_is_closed (CTcp c) \<longleftrightarrow> tc_closed c"
| "cn_is_closed (CUdp c) \<longleftrightarrow> uc_closed c"

fun cn_poll :: "instant \<Rightarrow> connection \<times> stream_buffer \<Rightarrow> (unit io_result \<times> connection \<times> stream_buffer) option" where
  "cn_poll now (CTcp c, b) = do {
     (r, c', b') \<leftarrow> tcp_poll (c, b);
     Some (r, CTcp c', b')
   }"
| "cn_poll now (CUdp c, b) = do {
     (r, c', b') \<leftarrow> udp_poll now (c, b);
     Some (r, CUdp c', b')
   }"

subsection \<open>The router\<close>

text \<open>\<open>rt_has_buffer\<close>: \<open>set_buffer\<close> has been called; the shared buffer itself is passed along.\<close>

record router =
  rt_has_buffer :: bool
  rt_client_label :: string
  rt_connections :: "(connection_id \<times> connection) list"
  rt_recently_closed :: "(connection_id \<times> instant) list"

type_synonym rt_cfg = "router \<times> stream_buffer"

definition rt_new :: router where
  "rt_new = \<lparr>rt_has_buffer = False, rt_client_label = [], rt_connections = [], rt_recently_closed = []\<rparr>"

definition rt_set_client_label :: "string \<Rightarrow> router \<Rightarrow> router" where
  "rt_set_client_label label rt = rt\<lparr>rt_client_label := label\<rparr>"

definition rt_set_buffer :: "router \<Rightarrow> router" where
  "rt_set_buffer rt = rt\<lparr>rt_has_buffer := True\<rparr>"

definition rt_is_quic :: "ip_packet \<Rightarrow> bool" where
  "rt_is_quic ip_packet =
     (let (ip_data, transport) = ip_headers_data ip_packet in
      if hd_protocol ip_data \<noteq> Udp then False
      else case transport of None \<Rightarrow> False | Some td \<Rightarrow> td_destination_port td = 443)"

definition rt_create_connection :: "world \<Rightarrow> connection_id \<Rightarrow> ip_packet \<Rightarrow> connection io_result option" where
  "rt_create_connection w cid ip_packet = do {
     (ip_header, transport) \<leftarrow> ip_headers ip_packet;
     case transport of
       None \<Rightarrow> Some (Inl OtherError)
     | Some transport_header \<Rightarrow>
         (case ci_protocol cid of
            Tcp \<Rightarrow> map_option (map_sum id CTcp) (tcp_create cid
              (create_stream (w_tcp_connect w) (w_set_options w) (w_socks5_proxy w) cid)
              ip_header transport_header)
          | Udp \<Rightarrow> map_option (map_sum id CUdp)
              (udp_create (w_udp_open w) (w_now w) cid ip_header transport_header)
          | _ \<Rightarrow> Some (Inl OtherError))
   }"

text \<open>The packet of a flow: \<open>send_to_network\<close> from the computation of the identifier on.\<close>

definition rt_remember :: "instant \<Rightarrow> connection_id \<Rightarrow> router \<Rightarrow> router" where
  "rt_remember now cid rt = rt\<lparr>rt_recently_closed := AList.update cid now (rt_recently_closed rt)\<rparr>"

definition rt_purge :: "instant \<Rightarrow> router \<Rightarrow> router" where
  "rt_purge now rt = rt\<lparr>rt_recently_closed :=
     filter (\<lambda>(_, closed_at). duration_since now closed_at < RECENTLY_CLOSED_TTL) (rt_recently_closed rt)\<rparr>"

definition rt_route :: "world \<Rightarrow> connection_id \<Rightarrow> ip_packet \<Rightarrow> rt_cfg \<Rightarrow> rt_cfg option" where
  "rt_route w cid ip_packet = (\<lambda>(rt, b).
     case map_of (rt_connections rt) cid of
       Some connection \<Rightarrow> do {
         (connection', b') \<leftarrow> cn_send_to_network w ip_packet (connection, b);
         Some (if cn_is_closed connection'
           then rt_remember (w_later w) cid
             (rt\<lparr>rt_connections := AList.delete cid (rt_connections rt)\<rparr>)
           else rt\<lparr>rt_connections := AList.update cid connection' (rt_connections rt)\<rparr>, b')
       }
     | None \<Rightarrow>
         if \<not> rt_has_buffer rt then Some (rt, b)
         else do {
           r \<leftarrow> rt_create_connection w cid ip_packet;
           case r of
             Inl _ \<Rightarrow> Some (rt, b)
           | Inr connection \<Rightarrow> do {
               (connection', b') \<leftarrow> cn_send_to_network w ip_packet (connection, b);
               Some (rt\<lparr>rt_connections := AList.update cid connection' (rt_connections rt)\<rparr>, b')
             }
         })"

definition rt_send_to_network :: "world \<Rightarrow> ip_packet \<Rightarrow> rt_cfg \<Rightarrow> rt_cfg option" where
  "rt_send_to_network w ip_packet = (\<lambda>(rt, b).
     if is_icmp_echo_request ip_packet then do {
       reply_opt \<leftarrow> build_echo_reply (ip_raw ip_packet);
       case reply_opt of
         None \<Rightarrow> Some (rt, b)
       | Some reply \<Rightarrow>
           if rt_has_buffer rt \<and> length reply \<le> sb_remaining b
           then do { b' \<leftarrow> sb_read_from reply b; Some (rt, b') }
           else Some (rt, b)
     }
     else if rt_is_quic ip_packet then do {
       raw_opt \<leftarrow> build_port_unreachable ip_packet;
       case raw_opt of
         None \<Rightarrow> Some (rt, b)
       | Some raw \<Rightarrow> do { (_, b') \<leftarrow> send_raw_to_client raw b; Some (rt, b') }
     }
     else if ip_is_valid ip_packet then
       (let (ip_header_data, transport_header_data) = ip_headers_data ip_packet in
        case transport_header_data of
          None \<Rightarrow> Some (rt, b)
        | Some td \<Rightarrow>
            (let cid = ci_from_headers ip_header_data td (rt_client_label rt);
                 rt1 = rt_purge (w_now w) rt
             in if cid \<in> fst ` set (rt_recently_closed rt1) then Some (rt1, b)
                else rt_route w cid ip_packet (rt1, b)))
     else Some (rt, b))"

definition rt_remove :: "instant \<Rightarrow> connection_id \<Rightarrow> router \<Rightarrow> router" where
  "rt_remove now cid rt =
     (if cid \<in> fst ` set (rt_connections rt)
      then rt_remember now cid (rt\<lparr>rt_connections := AList.delete cid (rt_connections rt)\<rparr>)
      else rt)"

text \<open>\<open>clear\<close> and \<open>clean_expired_connections\<close> also close the connections they take out: that sets a flag of
  an object that nothing holds any more.\<close>

definition rt_clear :: "router \<Rightarrow> router" where
  "rt_clear rt = rt\<lparr>rt_connections := [], rt_recently_closed := []\<rparr>"

definition rt_clean_expired_connections :: "world \<Rightarrow> router \<Rightarrow> router" where
  "rt_clean_expired_connections w rt =
     fold (rt_remove (w_later w))
       (map fst (filter (\<lambda>(_, connection). cn_is_expired (w_now w) connection) (rt_connections rt))) rt"

text \<open>The closure over all connections: each is polled once; the identifiers of those that are
  closed, or failed and were closed, are collected.\<close>

fun poll_each :: "world \<Rightarrow> (connection_id \<times> connection) list \<Rightarrow> stream_buffer \<Rightarrow>
    ((connection_id \<times> connection) list \<times> connection_id list \<times> stream_buffer) option" where
  "poll_each w [] b = Some ([], [], b)"
| "poll_each w ((cid, connection) # rest) b = do {
     (r, conn, b1) \<leftarrow> cn_poll (w_now w) (connection, b);
     let (conn', closed) = (case r of
         Inr _ \<Rightarrow> (conn, cn_is_closed conn)
       | Inl e \<Rightarrow> if e = WouldBlock then (conn, False) else (cn_close conn, True));
     (rest', ids, b2) \<leftarrow> poll_each w rest b1;
     Some ((cid, conn') # rest', (if closed then cid # ids else ids), b2)
   }"

definition rt_poll_connections :: "world \<Rightarrow> rt_cfg \<Rightarrow> rt_cfg option" where
  "rt_poll_connections w = (\<lambda>(rt, b). do {
     (connections, closed_ids, b') \<leftarrow> poll_each w (rt_connections rt) b;
     Some (fold (\<lambda>cid rt. rt_remember (w_later w) cid
         (rt\<lparr>rt_connections := AList.delete cid (rt_connections rt)\<rparr>)) closed_ids
       (rt\<lparr>rt_connections := connections\<rparr>), b')
   })"

subsection \<open>New connections\<close>

text \<open>The headers of a well-formed packet, as bound slices.\<close>

lemma ip_headers_ok:
  assumes wf: "packet_wf p" and t: "snd (ip_headers_data p) = Some td"
  obtains ih raw where "ip_headers p = Some (ih, Some (td_bind raw td))"
    "ih_bound ih" "ih_data_clone ih = fst (ip_headers_data p)"
    "length (ih_raw ih) = unat (ih_header_length ih)" "20 \<le> length (ih_raw ih)"
    "transport_header_ok td raw"
proof -
  obtain d where d: "ip_headers_data p = (d, Some td)" using t by (metis prod.collapse)
  let ?hl = "unat (hd_header_length d)" and ?tl = "unat (td_header_length td)"
  let ?raw = "take ?tl (drop ?hl (ip_raw p))"
  have p: "p = packet_new (ip_raw p) d td" using packet_new_eta [OF d] by simp
  have "packet_wf (packet_new (ip_raw p) d td)" using wf p by simp
  then have b: "20 \<le> ?hl" "?hl \<le> length (ip_raw p)" "?tl \<le> length (ip_raw p) - ?hl"
    "transport_header_ok td ?raw" "hd_reparse d (take ?hl (ip_raw p)) = Some d"
    by (simp_all add: packet_wf_new Let_def segment_wf_split)
  have h: "ip_headers (packet_new (ip_raw p) d td) =
      Some (ih_bind (take ?hl (ip_raw p)) d, Some (td_bind ?raw td))"
    using b by (cases d) (simp_all add: ipv4_packet_new_def ipv6_packet_new_def
      p4_headers_def p6_headers_def split_at_def slice_Some Let_def)
  show ?thesis
    using that [of "ih_bind (take ?hl (ip_raw p)) d" ?raw] h b d p
    by (simp add: ih_bound_def ih_header_length_def)
qed

lemma tcp_parse_take:
  assumes "20 \<le> length raw"
  shows "tcp_parse (take 20 raw) = tcp_parse raw"
  using assms by (simp add: tcp_parse_eq)

text \<open>Without its options a TCP header is bound to its first 20 bytes.\<close>

lemma shrink_options_ok:
  assumes "transport_header_ok (TdTcp d) raw"
  obtains h where "slice 0 20 raw = Some (take 20 raw)"
    "tcp_shrink_options (tcp_bind (take 20 raw) d) = Some h"
    "transport_header_ok (TdTcp (th_data h)) (th_raw h)" "th_data h = d\<lparr>tcp_header_length := 20\<rparr>"
proof -
  have raw: "20 \<le> length raw" "tcp_parse raw = Some d" using assms by simp_all
  then have "tcp_parse (th_raw (tcp_bind (take 20 raw) d)) = Some (th_data (tcp_bind (take 20 raw) d))"
    using tcp_parse_take [OF raw(1)] by simp
  then obtain h where "tcp_set_data_offset 5 (tcp_bind (take 20 raw) d) = Some h"
    "tcp_parse (th_raw h) = Some (th_data h)" "th_data h = d\<lparr>tcp_header_length := push_bit 2 5\<rparr>"
    "length (th_raw h) = length (take 20 raw)"
    by (rule tcp_off.setE [where v = 5]) simp_all
  then show ?thesis
    using that [of h] raw by (simp add: tcp_shrink_options_def slice_Some)
qed

lemma tcp_create_ok:
  assumes p: "packet_wf p" "snd (ip_headers_data p) = Some (TdTcp h)"
    and hd: "ip_headers p = Some (ih, Some th)"
  obtains c where "tcp_create cid (Inr s) ih th = Some (Inr c)" "tc_wf c" "tc_stream c = s"
    "tc_tcb c = tcb_new" "tc_packet_for_client_length c = None" "\<not> tc_closed c"
    "sb_content (tc_client_to_network c) = []"
    "hd_source (pk_ip (tc_network_to_client c)) = hd_destination (fst (ip_headers_data p))"
    "hd_destination (pk_ip (tc_network_to_client c)) = hd_source (fst (ip_headers_data p))"
    "td_source_port (pk_transport (tc_network_to_client c)) = tcp_destination_port h"
    "td_destination_port (pk_transport (tc_network_to_client c)) = tcp_source_port h"
proof -
  obtain raw where r: "th = td_bind raw (TdTcp h)" "ih_bound ih"
    "ih_data_clone ih = fst (ip_headers_data p)"
    "length (ih_raw ih) = unat (ih_header_length ih)" "20 \<le> length (ih_raw ih)"
    "transport_header_ok (TdTcp h) raw"
    using ip_headers_ok [OF p] hd by (metis option.inject prod.inject)
  obtain g where g: "slice 0 20 raw = Some (take 20 raw)"
    "tcp_shrink_options (tcp_bind (take 20 raw) h) = Some g"
    "transport_header_ok (TdTcp (th_data g)) (th_raw g)" "th_data g = h\<lparr>tcp_header_length := 20\<rparr>"
    by (rule shrink_options_ok [OF r(6)])
  have "transport_header_ok (t_data_clone (TTcp g)) (t_raw (TTcp g))" using g(3) by simp
  then obtain pk where pk: "packetizer_new ih (TTcp g) = Some pk" "pk_wf pk"
    "hd_source (pk_ip pk) = ih_destination ih" "hd_destination (pk_ip pk) = ih_source ih"
    "td_source_port (pk_transport pk) = t_destination_port (TTcp g)"
    "td_destination_port (pk_transport pk) = t_source_port (TTcp g)"
    "td_is_udp (pk_transport pk) = td_is_udp (t_data_clone (TTcp g))"
    by (rule packetizer_new_ok [OF r(2,4,5)])
  define c where "c = \<lparr>tc_id = cid, tc_stream = s, tc_client_to_network = sb_new (32 * MAX_PACKET_LENGTH),
     tc_network_to_client = pk, tc_packet_for_client_length = None, tc_closed = False,
     tc_tcb = tcb_new, tc_bytes_sent = 0, tc_bytes_received = 0\<rparr>"
  have "tcp_create cid (Inr s) ih th = Some (Inr c)"
    using g(1,2) pk(1) by (simp add: tcp_create_def r(1) c_def)
  then show ?thesis
    using that [of c] pk r(3) g(4)
    by (simp add: c_def tc_wf_def tcp_pk_wf_def ih_destination_def ih_source_def
      t_source_port_def t_destination_port_def)
qed

lemma udp_create_ok:
  assumes p: "packet_wf p" "snd (ip_headers_data p) = Some (TdUdp h)"
    and hd: "ip_headers p = Some (ih, Some th)"
    and s: "udp_create_socket udp_open cid = Inr s"
  obtains c where "udp_create udp_open now cid ih th = Some (Inr c)" "uc_wf c" "uc_socket c = s"
    "uc_client_to_network c = db_new (32 * MAX_PACKET_LENGTH)" "\<not> uc_closed c" "uc_idle_since c = now"
    "hd_source (pk_ip (uc_network_to_client c)) = hd_destination (fst (ip_headers_data p))"
    "hd_destination (pk_ip (uc_network_to_client c)) = hd_source (fst (ip_headers_data p))"
    "td_source_port (pk_transport (uc_network_to_client c)) = udp_destination_port h"
    "td_destination_port (pk_transport (uc_network_to_client c)) = udp_source_port h"
proof -
  obtain raw where r: "th = td_bind raw (TdUdp h)" "ih_bound ih"
    "ih_data_clone ih = fst (ip_headers_data p)"
    "length (ih_raw ih) = unat (ih_header_length ih)" "20 \<le> length (ih_raw ih)"
    "transport_header_ok (TdUdp h) raw"
    using ip_headers_ok [OF p] hd by (metis option.inject prod.inject)
  have "transport_header_ok (t_data_clone th) (t_raw th)" using r(1,6) by simp
  then obtain pk where pk: "packetizer_new ih th = Some pk" "pk_wf pk"
    "hd_source (pk_ip pk) = ih_destination ih" "hd_destination (pk_ip pk) = ih_source ih"
    "td_source_port (pk_transport pk) = t_destination_port th"
    "td_destination_port (pk_transport pk) = t_source_port th"
    "td_is_udp (pk_transport pk) = td_is_udp (t_data_clone th)"
    by (rule packetizer_new_ok [OF r(2,4,5)])
  define c where "c = \<lparr>uc_id = cid, uc_socket = s,
     uc_client_to_network = db_new (32 * MAX_PACKET_LENGTH),
     uc_network_to_client = pk, uc_closed = False, uc_idle_since = now,
     uc_bytes_sent = 0, uc_bytes_received = 0\<rparr>"
  have "udp_create udp_open now cid ih th = Some (Inr c)"
    using s pk(1) by (simp add: udp_create_def c_def)
  moreover have "uc_holds c []" by (simp add: c_def uc_holds_def db_repr_new)
  ultimately show ?thesis
    using that [of c] pk r(1,3)
    by (auto simp: c_def uc_wf_def ih_destination_def ih_source_def
      t_source_port_def t_destination_port_def)
qed

subsection \<open>The invariant\<close>

text \<open>Packets a receiver takes, but for the checksum of UDP over IPv6.\<close>

definition sound_packet :: "ip_packet \<Rightarrow> bool" where
  "sound_packet p \<longleftrightarrow> packet_wf p \<and> (receiver_accepts p \<or> udp_over_ipv6 p)"

definition queues :: "stream_buffer \<Rightarrow> stream_buffer \<Rightarrow> bool" where
  "queues b b' \<longleftrightarrow> (\<exists>ps. list_all sound_packet ps \<and> sb_capacity b' = sb_capacity b \<and>
     sb_tail b' = sb_tail b \<and>
     sb_content b' = sb_content b @ concat (map ip_raw ps))"

lemma queues_refl [simp]: "queues b b"
  unfolding queues_def by (rule exI [of _ "[]"]) simp

lemma queues_trans: "queues b b1 \<Longrightarrow> queues b1 b2 \<Longrightarrow> queues b b2"
  unfolding queues_def
  by (metis (no_types, lifting) append_assoc concat_append list_all_append map_append)

lemma grows_queues: "grows b b' \<Longrightarrow> queues b b'"
  unfolding grows_def emits_def queues_def
  by (metis good_packet_def sound_packet_def list.pred_mono_strong)

lemma appended_queues: "appended (ip_raw p) b b' \<Longrightarrow> sound_packet p \<Longrightarrow> queues b b'"
  unfolding appended_def queues_def by (intro exI [of _ "[p]"]) simp

lemma built_sound: "built pk payload p \<Longrightarrow> sound_packet p"
  by (auto simp: built_def sound_packet_def udp_over_ipv6_def same_flow_def split: prod.splits option.splits)

lemma received_packet_queues: "received_packet pk b b' \<Longrightarrow> queues b b'"
  unfolding received_packet_def using appended_queues built_sound by (metis queues_refl)

text \<open>What the device sends and \<open>IpPacket::parse\<close> accepts: the transport header is of the
  protocol named in the IP header.\<close>

definition routable :: "ip_packet \<Rightarrow> bool" where
  "routable p \<longleftrightarrow> packet_wf p \<and>
     (case snd (ip_headers_data p) of
        None \<Rightarrow> True
      | Some td \<Rightarrow> hd_protocol (fst (ip_headers_data p)) = (if td_is_udp td then Udp else Tcp))"

definition cn_ok :: "connection_id \<Rightarrow> connection \<Rightarrow> bool" where
  "cn_ok cid connection \<longleftrightarrow> (case connection of
     CTcp c \<Rightarrow> ci_protocol cid = Tcp \<and> tc_wf c
   | CUdp c \<Rightarrow> ci_protocol cid = Udp \<and> uc_wf c)"

definition rt_ok :: "router \<Rightarrow> bool" where
  "rt_ok rt \<longleftrightarrow> distinct (map fst (rt_connections rt)) \<and>
     (\<forall>(cid, connection) \<in> set (rt_connections rt). cn_ok cid connection)"

lemma rt_ok_new: "rt_ok rt_new"
  by (simp add: rt_ok_def rt_new_def)

lemma set_AList_update: "set (AList.update k v xs) \<subseteq> insert (k, v) (set xs)"
  by (induction xs) auto

lemma set_AList_delete: "set (AList.delete k xs) \<subseteq> set xs"
  by (auto simp: AList.delete_eq)

lemma rt_ok_update:
  assumes "rt_ok rt" "cn_ok cid connection"
  shows "rt_ok (rt\<lparr>rt_connections := AList.update cid connection (rt_connections rt)\<rparr>)"
  using assms set_AList_update [of cid connection "rt_connections rt"]
  by (auto simp: rt_ok_def distinct_update)

lemma rt_ok_delete:
  assumes "rt_ok rt"
  shows "rt_ok (rt\<lparr>rt_connections := AList.delete cid (rt_connections rt)\<rparr>)"
  using assms set_AList_delete [of cid "rt_connections rt"]
  by (auto simp: rt_ok_def distinct_delete)

lemma rt_ok_frame [simp]:
  "rt_ok (rt\<lparr>rt_recently_closed := xs\<rparr>) \<longleftrightarrow> rt_ok rt"
  "rt_ok (rt_remember now cid rt) \<longleftrightarrow> rt_ok rt" "rt_ok (rt_purge now rt) \<longleftrightarrow> rt_ok rt"
  by (simp_all add: rt_ok_def rt_remember_def rt_purge_def)

lemma rt_frame [simp]:
  "rt_connections (rt_remember now cid rt) = rt_connections rt"
  "rt_connections (rt_purge now rt) = rt_connections rt"
  "rt_has_buffer (rt_remember now cid rt) = rt_has_buffer rt"
  "rt_has_buffer (rt_purge now rt) = rt_has_buffer rt"
  "rt_client_label (rt_remember now cid rt) = rt_client_label rt"
  "rt_client_label (rt_purge now rt) = rt_client_label rt"
  by (simp_all add: rt_remember_def rt_purge_def)

lemma packet_wf_payload:
  assumes "packet_wf p" "snd (ip_headers_data p) = Some td"
  obtains payload where "ip_payload p = Some (Some payload)" "length payload < 65536"
proof -
  obtain raw :: "byte list" where r: "ip_payload p = Some (Some (drop (length raw)
      (drop (unat (hd_header_length (fst (ip_headers_data p)))) (ip_raw p))))"
    by (rule packet_wf_transport_header [OF assms]) blast
  have "length (ip_raw p) < 65536"
    using packet_wf_length [OF assms(1)] unat_u16_less [of "ip_length p"] by linarith
  then show ?thesis using that [OF r] by simp
qed

subsection \<open>Sending\<close>

lemma cn_send_ok:
  assumes ok: "cn_ok cid connection" and b: "out_wf b" and p: "routable p"
    and t: "snd (ip_headers_data p) = Some td"
    and cid: "ci_protocol cid = hd_protocol (fst (ip_headers_data p))"
  obtains connection' b' where "cn_send_to_network w p (connection, b) = Some (connection', b')"
    "cn_ok cid connection'" "out_wf b'" "queues b b'"
proof -
  have wf: "packet_wf p" using p by (simp add: routable_def)
  obtain payload where pl: "ip_payload p = Some (Some payload)" "length payload < 65536"
    by (rule packet_wf_payload [OF wf t])
  show ?thesis
  proof (cases connection)
    case (CTcp c)
    then have c: "tc_wf c" "ci_protocol cid = Tcp" using ok by (simp_all add: cn_ok_def)
    then have "\<not> td_is_udp td" using p t cid by (auto simp: routable_def split: if_splits)
    then obtain h where h: "td = TdTcp h" by (cases td) auto
    have "tcp_packet h payload p" using wf t h pl by (simp add: tcp_packet_def)
    moreover have "cfg_inv False (c, b)" using c b by (simp add: cfg_inv_def cfg_wf_def)
    ultimately have "step_ok False b (handle_packet (w_random w) p (c, b))"
      using handle_packet_step by blast
    then obtain c' b' where "handle_packet (w_random w) p (c, b) = Some (c', b')"
      "cfg_wf (c', b')" "grows b b'"
      by (auto simp: step_ok_def cfg_inv_def split: option.splits)
    then show ?thesis
      using that [of "CTcp c'" b'] CTcp c(2) grows_queues by (simp add: cn_ok_def cfg_wf_def)
  next
    case (CUdp c)
    then have c: "uc_wf c" "ci_protocol cid = Udp" using ok by (simp_all add: cn_ok_def)
    then obtain ds where "uc_holds c ds" by (auto simp: uc_wf_def)
    from uc_send_to_network_ok [OF c(1) pl this] obtain c' where
      "uc_send_to_network p c = Some c'" "uc_wf c'" by metis
    then show ?thesis using that [of "CUdp c'" b] CUdp c(2) b by (simp add: cn_ok_def)
  qed
qed

lemma rt_create_connection_ok:
  assumes p: "routable p" and t: "snd (ip_headers_data p) = Some td"
    and cid: "ci_protocol cid = hd_protocol (fst (ip_headers_data p))"
  obtains r where "rt_create_connection w cid p = Some r"
    "\<And>connection. r = Inr connection \<Longrightarrow> cn_ok cid connection"
proof -
  have wf: "packet_wf p" using p by (simp add: routable_def)
  obtain ih th where hd: "ip_headers p = Some (ih, Some th)"
    using ip_headers_ok [OF wf t] by metis
  show ?thesis
  proof (cases td)
    case (TdTcp h)
    then have c: "ci_protocol cid = Tcp" using p t cid by (simp add: routable_def)
    show ?thesis
    proof (cases "create_stream (w_tcp_connect w) (w_set_options w) (w_socks5_proxy w) cid")
      case (Inl e)
      then show ?thesis
        using that [of "Inl e"] hd c by (simp add: rt_create_connection_def tcp_create_def)
    next
      case (Inr s)
      obtain conn where "tcp_create cid (Inr s) ih th = Some (Inr conn)" "tc_wf conn"
        by (rule tcp_create_ok [OF wf t [unfolded TdTcp] hd])
      then show ?thesis
        using that [of "Inr (CTcp conn)"] hd c Inr by (simp add: rt_create_connection_def cn_ok_def)
    qed
  next
    case (TdUdp h)
    then have c: "ci_protocol cid = Udp" using p t cid by (simp add: routable_def)
    show ?thesis
    proof (cases "udp_create_socket (w_udp_open w) cid")
      case (Inl e)
      then show ?thesis
        using that [of "Inl e"] hd c by (simp add: rt_create_connection_def udp_create_def)
    next
      case (Inr s)
      obtain conn where "udp_create (w_udp_open w) (w_now w) cid ih th = Some (Inr conn)" "uc_wf conn"
        by (rule udp_create_ok [OF wf t [unfolded TdUdp] hd Inr])
      then show ?thesis
        using that [of "Inr (CUdp conn)"] hd c by (simp add: rt_create_connection_def cn_ok_def)
    qed
  qed
qed

lemma rt_route_ok:
  assumes rt: "rt_ok rt" and b: "out_wf b" and p: "routable p"
    and t: "snd (ip_headers_data p) = Some td"
    and cid: "ci_protocol cid = hd_protocol (fst (ip_headers_data p))"
  obtains rt' b' where "rt_route w cid p (rt, b) = Some (rt', b')" "rt_ok rt'" "out_wf b'" "queues b b'"
proof (cases "map_of (rt_connections rt) cid")
  case (Some connection)
  then have ok: "cn_ok cid connection" using rt by (auto simp: rt_ok_def dest!: map_of_SomeD)
  obtain connection' b' where s: "cn_send_to_network w p (connection, b) = Some (connection', b')"
    "cn_ok cid connection'" "out_wf b'" "queues b b'"
    by (rule cn_send_ok [OF ok b p t cid])
  then show ?thesis
    using that Some rt_ok_update [OF rt s(2)] rt_ok_delete [OF rt]
    by (simp add: rt_route_def)
next
  case None
  show ?thesis
  proof (cases "rt_has_buffer rt")
    case False
    then show ?thesis using that None rt b by (simp add: rt_route_def)
  next
    case True
    obtain r where r: "rt_create_connection w cid p = Some r"
      "\<And>connection. r = Inr connection \<Longrightarrow> cn_ok cid connection"
      by (rule rt_create_connection_ok [OF p t cid]) blast
    show ?thesis
    proof (cases r)
      case (Inl e)
      then show ?thesis using that None True r(1) rt b by (simp add: rt_route_def)
    next
      case (Inr connection)
      obtain connection' b' where s: "cn_send_to_network w p (connection, b) = Some (connection', b')"
        "cn_ok cid connection'" "out_wf b'" "queues b b'"
        by (rule cn_send_ok [OF r(2) [OF Inr] b p t cid])
      then show ?thesis
        using that None True r(1) Inr rt_ok_update [OF rt s(2)] by (simp add: rt_route_def)
    qed
  qed
qed

text \<open>The synthetic ICMP packets are sound, too.\<close>

lemma unat_ihl_bytes: "unat (push_bit 2 (b AND 0x0F) :: byte) = unat (b AND 0x0F) * 4"
proof -
  have "b AND 0x0F = take_bit 4 b" by (simp add: take_bit_eq_mask mask_numeral)
  then have "unat (b AND 0x0F) = unat b mod 16"
    by (simp add: unsigned_take_bit_eq take_bit_nat_def)
  then have "unat (b AND 0x0F) * 4 < 256" by simp
  then show ?thesis by (simp add: push_bit_eq_mult unat_word_ariths)
qed

lemma raw_packet_sound:
  assumes l: "20 \<le> hl" "hl \<le> length r" "length r < 65536"
    and h: "unat (r ! 0 AND 0x0F) * 4 = hl" "unat (u16_of_bytes (r ! 2) (r ! 3)) = length r"
    and c: "oc_norm (words_sum (take hl r)) = 65535"
  shows "\<exists>q. sound_packet q \<and> ip_raw q = r"
proof -
  have "\<exists>d. ipv4_parse (take hl r) = Some d"
    using l by (simp add: ipv4_parse_eq)
  then obtain d where d: "ipv4_parse (take hl r) = Some d" ..
  then have "v4_header_length d = push_bit 2 (r ! 0 AND 0x0F)"
    "v4_total_length d = u16_of_bytes (r ! 2) (r ! 3)"
    using l by (auto simp: ipv4_parse_eq)
  then have "unat (v4_header_length d) = hl" "unat (v4_total_length d) = length r"
    using h by (simp_all only: unat_ihl_bytes)
  then have "sound_packet (PkV4 \<lparr>p4_raw = r, p4_ip = d, p4_transport = None\<rparr>)"
    using l d c by (simp add: sound_packet_def)
  then show ?thesis by (intro exI [of _ "PkV4 \<lparr>p4_raw = r, p4_ip = d, p4_transport = None\<rparr>"]) simp
qed

lemma echo_reply_sound:
  assumes "build_echo_reply request = Some (Some r)"
  shows "\<exists>q. sound_packet q \<and> ip_raw q = r"
proof -
  let ?ihl = "unat (request ! 0 AND 0x0F) * 4" and ?n = "unat (u16_of_bytes (request ! 2) (request ! 3))"
  have r: "is_echo_request request" "r = echo_reply ?ihl ?n request"
    using assms by (simp_all add: build_echo_reply_ok split: if_splits)
  then have l: "20 \<le> ?ihl" "?ihl + 8 \<le> ?n" "?n \<le> length request"
    by (simp_all add: is_echo_request_def Let_def)
  note f = echo_reply_facts [OF l, folded r(2)]
  have "r ! i = request ! i" if "i < 10" for i
    using f(2) that nth_take [of i 10 r] nth_take [of i 10 request] by simp
  then have "r ! 0 = request ! 0" "r ! 2 = request ! 2" "r ! 3 = request ! 3" by simp_all
  then show ?thesis using raw_packet_sound [of ?ihl r] f l by simp
qed

lemma port_unreachable_sound:
  assumes p: "packet_wf p" and r: "build_port_unreachable p = Some (Some r)"
  shows "\<exists>q. sound_packet q \<and> ip_raw q = r"
proof (cases p)
  case (PkV4 q)
  let ?hl = "unat (v4_header_length (p4_ip q))"
  have hl: "?hl \<le> length (p4_raw q)" "?hl < 256" using p PkV4 by (simp_all add: Let_def)
  have "r = port_unreachable (v4_source (p4_ip q)) (v4_destination (p4_ip q)) ?hl (p4_raw q)"
    using r PkV4 build_port_unreachable_ok [OF hl(1)] by simp
  note f = port_unreachable_facts [OF hl, of "v4_source (p4_ip q)" "v4_destination (p4_ip q)", folded this]
  have "length (take (?hl + 8) (p4_raw q)) \<le> ?hl + 8" by simp
  then have "length (take (?hl + 8) (p4_raw q)) < 264" using hl(2) by linarith
  then have len: "20 \<le> length r" "length r < 65536" using f(1) by linarith+
  have parts: "push_bit 2 (r ! 0 AND 0x0F) = (20 :: byte)"
    "u16_of_bytes (r ! 2) (r ! 3) = of_nat (length r)"
    using f(2) len by (simp_all add: ipv4_parse_eq)
  have "unat (r ! 0 AND 0x0F) * 4 = 20" unfolding unat_ihl_bytes [symmetric] parts(1) by simp
  moreover have "unat (u16_of_bytes (r ! 2) (r ! 3)) = length r" unfolding parts(2) using len by simp
  ultimately show ?thesis using raw_packet_sound [of 20 r] len f(5) by simp
qed (use r in simp)

text \<open>A packet of a TCP or UDP flow that is not QUIC.\<close>

definition flow_id :: "ip_packet \<Rightarrow> string \<Rightarrow> connection_id option" where
  "flow_id p label =
     (if is_icmp_echo_request p \<or> rt_is_quic p \<or> \<not> ip_is_valid p then None
      else map_option (\<lambda>td. ci_from_headers (fst (ip_headers_data p)) td label) (snd (ip_headers_data p)))"

lemma rt_send_flow:
  assumes "flow_id p (rt_client_label rt) = Some cid"
  shows "rt_send_to_network w p (rt, b) =
    (if cid \<in> fst ` set (rt_recently_closed (rt_purge (w_now w) rt)) then Some (rt_purge (w_now w) rt, b)
     else rt_route w cid p (rt_purge (w_now w) rt, b))"
    "ci_protocol cid = hd_protocol (fst (ip_headers_data p))"
    "\<exists>td. snd (ip_headers_data p) = Some td"
proof -
  obtain td where td: "\<not> is_icmp_echo_request p" "\<not> rt_is_quic p" "ip_is_valid p"
    "snd (ip_headers_data p) = Some td"
    "cid = ci_from_headers (fst (ip_headers_data p)) td (rt_client_label rt)"
    using assms by (auto simp: flow_id_def split: if_splits)
  then show "\<exists>td. snd (ip_headers_data p) = Some td" by blast
  obtain d where d: "ip_headers_data p = (d, Some td)" using td(4) by (metis prod.collapse)
  show "ci_protocol cid = hd_protocol (fst (ip_headers_data p))"
    unfolding td(5) by (simp add: ci_from_headers_def Let_def)
  have cid: "ci_from_headers d td (rt_client_label rt) = cid" using td(5) d by simp
  show "rt_send_to_network w p (rt, b) =
    (if cid \<in> fst ` set (rt_recently_closed (rt_purge (w_now w) rt)) then Some (rt_purge (w_now w) rt, b)
     else rt_route w cid p (rt_purge (w_now w) rt, b))"
    using td(1-3) by (simp add: rt_send_to_network_def d cid)
qed

lemma rt_send_to_network_ok:
  assumes rt: "rt_ok rt" and b: "out_wf b" and p: "routable p"
  obtains rt' b' where "rt_send_to_network w p (rt, b) = Some (rt', b')" "rt_ok rt'" "out_wf b'"
    "queues b b'"
proof -
  have wf: "packet_wf p" and bw: "sb_wf b" using p b by (simp_all add: routable_def out_wf_def)
  have app: "queues b b' \<and> out_wf b'" if "appended r b b'" "\<exists>q. sound_packet q \<and> ip_raw q = r" for r b'
    using that appended_queues b by (auto simp: out_wf_def appended_def)
  consider (echo) "is_icmp_echo_request p"
    | (quic) "\<not> is_icmp_echo_request p" "rt_is_quic p"
    | (flow) td where "\<not> is_icmp_echo_request p" "\<not> rt_is_quic p" "ip_is_valid p"
        "snd (ip_headers_data p) = Some td"
    | (other) "\<not> is_icmp_echo_request p" "\<not> rt_is_quic p"
        "\<not> ip_is_valid p \<or> snd (ip_headers_data p) = None"
    by fastforce
  then show ?thesis
  proof cases
    case echo
    obtain ro where ro: "build_echo_reply (ip_raw p) = Some ro" using build_echo_reply_ok by blast
    show ?thesis
    proof (cases "\<exists>r. ro = Some r \<and> rt_has_buffer rt \<and> length r \<le> sb_remaining b")
      case True
      then obtain r b' where r: "ro = Some r" "rt_has_buffer rt" "length r \<le> sb_remaining b"
        "sb_read_from r b = Some b'" "appended r b b'"
        using sb_read_from_ok [OF bw] by (fastforce simp: appended_def)
      then show ?thesis
        using that [of rt b'] echo ro rt app [OF r(5) echo_reply_sound] by (simp add: rt_send_to_network_def)
    next
      case False
      then have "rt_send_to_network w p (rt, b) = Some (rt, b)"
        using echo ro by (auto simp: rt_send_to_network_def split: option.splits)
      then show ?thesis using that rt b by simp
    qed
  next
    case quic
    have "build_port_unreachable p \<noteq> None"
      using wf build_port_unreachable_ok by (cases p) (auto simp: Let_def)
    then obtain ro where ro: "build_port_unreachable p = Some ro" by blast
    show ?thesis
    proof (cases ro)
      case None
      then show ?thesis using that quic ro rt b by (simp add: rt_send_to_network_def)
    next
      case (Some r)
      from send_raw_to_client_ok [OF bw, of r] app [of r] port_unreachable_sound [OF wf ro [unfolded Some]] b
      obtain x b' where "send_raw_to_client r b = Some (x, b')" "queues b b'" "out_wf b'"
        by (metis queues_refl)
      then show ?thesis using that quic ro Some rt by (simp add: rt_send_to_network_def)
    qed
  next
    case (flow td)
    let ?cid = "ci_from_headers (fst (ip_headers_data p)) td (rt_client_label rt)"
    have f: "flow_id p (rt_client_label rt) = Some ?cid" using flow by (simp add: flow_id_def)
    have "rt_ok (rt_purge (w_now w) rt)" using rt by simp
    then obtain rt' b' where r: "rt_route w ?cid p (rt_purge (w_now w) rt, b) = Some (rt', b')" "rt_ok rt'"
      "out_wf b'" "queues b b'"
      by (rule rt_route_ok [OF _ b p flow(4) rt_send_flow(2) [OF f]])
    show ?thesis
    proof (cases "?cid \<in> fst ` set (rt_recently_closed (rt_purge (w_now w) rt))")
      case True
      then show ?thesis using that [of "rt_purge (w_now w) rt" b] rt_send_flow(1) [OF f] rt b by simp
    next
      case False
      then show ?thesis using that [OF _ r(2-4)] rt_send_flow(1) [OF f] r(1) by simp
    qed
  next
    case other
    then have "rt_send_to_network w p (rt, b) = Some (rt, b)"
      by (cases "ip_headers_data p") (auto simp: rt_send_to_network_def)
    then show ?thesis using that rt b by simp
  qed
qed

end
