(* ===== verification/Routing.thy ===== *)
theory Routing
  imports Router
begin

text \<open>
  Polling and the behaviour of the router as a whole: every poll keeps the invariant, closed
  connections leave the table and stay remembered, flows are kept apart, and the first packet of a
  flow is not lost.
\<close>

subsection \<open>Polling\<close>

definition cn_deliverable :: "connection \<Rightarrow> bool" where
  "cn_deliverable connection \<longleftrightarrow>
     (case connection of CTcp _ \<Rightarrow> True | CUdp c \<Rightarrow> uc_deliverable c)"

definition cn_pending_ok :: "connection \<Rightarrow> bool" where
  "cn_pending_ok connection \<longleftrightarrow>
     (case connection of CTcp c \<Rightarrow> pending_ok c | CUdp _ \<Rightarrow> True)"

lemma close_simps [simp]:
  "tc_wf (tc_close c) \<longleftrightarrow> tc_wf c" "pending_ok (tc_close c) \<longleftrightarrow> pending_ok c"
  "uc_wf (uc_close u) \<longleftrightarrow> uc_wf u" "uc_deliverable (uc_close u) \<longleftrightarrow> uc_deliverable u"
  by (simp_all add: tc_close_def tc_wf_def pending_ok_def uc_close_def uc_wf_def uc_holds_def
    uc_deliverable_def split: option.splits)

lemma cn_close_simps [simp]:
  "cn_ok cid (cn_close connection) \<longleftrightarrow> cn_ok cid connection"
  "cn_deliverable (cn_close connection) \<longleftrightarrow> cn_deliverable connection"
  "cn_pending_ok (cn_close connection) \<longleftrightarrow> cn_pending_ok connection"
  "cn_is_closed (cn_close connection)"
  by (cases connection; simp_all add: cn_ok_def cn_deliverable_def cn_pending_ok_def;
    simp add: tc_close_def uc_close_def)+

lemma cn_poll_ok:
  assumes ok: "cn_ok cid connection" "cn_deliverable connection" and b: "out_wf b"
  obtains r connection' b' where "cn_poll now (connection, b) = Some (r, connection', b')"
    "cn_ok cid connection'" "cn_deliverable connection'" "out_wf b'"
    "cn_pending_ok connection \<Longrightarrow> cn_pending_ok connection' \<and> queues b b'"
proof (cases connection)
  case (CTcp c)
  then have c: "tc_wf c" "ci_protocol cid = Tcp" using ok(1) by (simp_all add: cn_ok_def)
  then have w: "cfg_wf (c, b)" using b by (simp add: cfg_wf_def)
  obtain r c' b' where 1: "tcp_poll (c, b) = Some (r, c', b')" "cfg_wf (c', b')"
    by (rule tcp_poll_total [OF w])
  have "cn_pending_ok (CTcp c') \<and> queues b b'" if "cn_pending_ok (CTcp c)"
  proof -
    have "cfg_good (c, b)" using w that by (simp add: cfg_good_def cn_pending_ok_def)
    then have "result_ok cfg_good b (tcp_poll (c, b))" by (rule tcp_poll_good)
    then show ?thesis using 1(1) grows_queues by (simp add: cfg_good_def cn_pending_ok_def)
  qed
  then show ?thesis
    using that [of r "CTcp c'" b'] CTcp 1 c(2) by (simp add: cn_ok_def cn_deliverable_def cfg_wf_def)
next
  case (CUdp c)
  then have c: "uc_wf c" "uc_deliverable c" "ci_protocol cid = Udp"
    using ok by (simp_all add: cn_ok_def cn_deliverable_def)
  show ?thesis
  proof (cases "uc_closed c")
    case True
    then show ?thesis
      using that [of "Inr ()" connection b] CUdp ok b by (simp add: udp_poll_def)
  next
    case False
    obtain ds where ds: "uc_holds c ds" using c(1) by (auto simp: uc_wf_def)
    have "sb_wf b" using b by (simp add: out_wf_def)
    from udp_poll_ok [OF c(1,2) ds this False] obtain r c' b' where
      1: "udp_poll now (c, b) = Some (r, c', b')" "uc_wf c'" "uc_deliverable c'" "sb_wf b'"
      and q: "received_packet (uc_network_to_client c) b b'"
      by metis
    have "queues b b'" by (rule received_packet_queues [OF q])
    moreover have "out_wf b'" using 1(4) b calculation by (auto simp: out_wf_def queues_def)
    ultimately show ?thesis
      using that [of r "CUdp c'" b'] CUdp 1 c(3)
      by (simp add: cn_ok_def cn_deliverable_def cn_pending_ok_def)
  qed
qed

text \<open>A property of each entry of the table.\<close>

abbreviation all_entries :: "(connection_id \<Rightarrow> connection \<Rightarrow> bool) \<Rightarrow> (connection_id \<times> connection) list \<Rightarrow> bool" where
  "all_entries P cs \<equiv> \<forall>(cid, connection) \<in> set cs. P cid connection"

lemma poll_each_ok:
  assumes "all_entries cn_ok cs" "all_entries (\<lambda>_. cn_deliverable) cs" "out_wf b"
  shows "\<exists>cs' ids b'. poll_each w cs b = Some (cs', ids, b') \<and> map fst cs' = map fst cs \<and>
    all_entries cn_ok cs' \<and> all_entries (\<lambda>_. cn_deliverable) cs' \<and> out_wf b' \<and>
    set ids \<subseteq> fst ` set cs \<and>
    (all_entries (\<lambda>_. cn_pending_ok) cs \<longrightarrow> all_entries (\<lambda>_. cn_pending_ok) cs' \<and> queues b b')"
  using assms
proof (induction cs arbitrary: b)
  case (Cons entry cs)
  obtain cid connection where e: "entry = (cid, connection)" by fastforce
  then have ok: "cn_ok cid connection" "cn_deliverable connection"
    and rest: "all_entries cn_ok cs" "all_entries (\<lambda>_. cn_deliverable) cs"
    using Cons.prems by auto
  obtain r conn b1 where 1: "cn_poll (w_now w) (connection, b) = Some (r, conn, b1)"
    "cn_ok cid conn" "cn_deliverable conn" "out_wf b1"
    "cn_pending_ok connection \<Longrightarrow> cn_pending_ok conn \<and> queues b b1"
    by (rule cn_poll_ok [OF ok Cons.prems(3)]) blast
  obtain cs' ids b' where 2: "poll_each w cs b1 = Some (cs', ids, b')" "map fst cs' = map fst cs"
    "all_entries cn_ok cs'" "all_entries (\<lambda>_. cn_deliverable) cs'" "out_wf b'" "set ids \<subseteq> fst ` set cs"
    "all_entries (\<lambda>_. cn_pending_ok) cs \<Longrightarrow> all_entries (\<lambda>_. cn_pending_ok) cs' \<and> queues b1 b'"
    using Cons.IH [OF rest 1(4)] by blast
  define res where "res = (case r of Inr _ \<Rightarrow> (conn, cn_is_closed conn)
    | Inl x \<Rightarrow> if x = WouldBlock then (conn, False) else (cn_close conn, True))"
  have c': "cn_ok cid (fst res)" "cn_deliverable (fst res)"
    "cn_pending_ok (fst res) = cn_pending_ok conn"
    using 1(2,3) by (auto simp: res_def split: sum.splits)
  have run: "poll_each w (entry # cs) b =
      Some ((cid, fst res) # cs', if snd res then cid # ids else ids, b')"
    using 1(1) 2(1) by (simp add: e res_def split: sum.splits)
  show ?case
    unfolding run
  proof (intro exI conjI impI, rule refl)
    show "queues b b'" if "all_entries (\<lambda>_. cn_pending_ok) (entry # cs)"
      using that e 1(5) 2(7) queues_trans by auto
  qed (use e 2 c' 1(5) in auto)
qed simp

text \<open>Removing the closed connections.\<close>

abbreviation rt_drop :: "instant \<Rightarrow> connection_id \<Rightarrow> router \<Rightarrow> router" where
  "rt_drop now cid rt \<equiv>
     rt_remember now cid (rt\<lparr>rt_connections := AList.delete cid (rt_connections rt)\<rparr>)"

lemma rt_drop_all:
  "rt_connections (fold (rt_drop now) ids rt) =
     filter (\<lambda>(cid, _). cid \<notin> set ids) (rt_connections rt)"
  "rt_has_buffer (fold (rt_drop now) ids rt) = rt_has_buffer rt"
  "rt_client_label (fold (rt_drop now) ids rt) = rt_client_label rt"
  by (induction ids arbitrary: rt)
    (auto simp: AList.delete_eq filter_filter split_def intro!: filter_cong)

lemma rt_drop_remembers:
  assumes "cid \<in> set ids"
  shows "map_of (rt_recently_closed (fold (rt_drop now) ids rt)) cid = Some now"
proof -
  have keep: "map_of (rt_recently_closed rt) cid = Some now \<Longrightarrow>
      map_of (rt_recently_closed (fold (rt_drop now) ids rt)) cid = Some now" for ids rt
    by (induction ids arbitrary: rt) (auto simp: rt_remember_def update_conv')
  show ?thesis
    using assms
  proof (induction ids arbitrary: rt)
    case (Cons i ids)
    show ?case
    proof (cases "i = cid")
      case True
      have "map_of (rt_recently_closed (rt_drop now cid rt)) cid = Some now"
        by (simp add: rt_remember_def update_conv')
      from keep [OF this] True show ?thesis by simp
    next
      case False
      then show ?thesis using Cons by simp
    qed
  qed simp
qed

lemma rt_poll_ok:
  assumes rt: "rt_ok rt" and d: "all_entries (\<lambda>_. cn_deliverable) (rt_connections rt)" and b: "out_wf b"
  obtains rt' b' cs ids where "rt_poll_connections w (rt, b) = Some (rt', b')" "rt_ok rt'" "out_wf b'"
    "all_entries (\<lambda>_. cn_deliverable) (rt_connections rt')"
    "poll_each w (rt_connections rt) b = Some (cs, ids, b')"
    "rt_connections rt' = filter (\<lambda>(cid, _). cid \<notin> set ids) cs"
    "\<And>cid. cid \<in> set ids \<Longrightarrow> map_of (rt_recently_closed rt') cid = Some (w_later w)"
    "all_entries (\<lambda>_. cn_pending_ok) (rt_connections rt) \<Longrightarrow>
       all_entries (\<lambda>_. cn_pending_ok) (rt_connections rt') \<and> queues b b'"
    "rt_has_buffer rt' = rt_has_buffer rt" "rt_client_label rt' = rt_client_label rt"
proof -
  have dist: "distinct (map fst (rt_connections rt))" and ok: "all_entries cn_ok (rt_connections rt)"
    using rt by (simp_all add: rt_ok_def)
  obtain cs ids b' where 1: "poll_each w (rt_connections rt) b = Some (cs, ids, b')"
    "map fst cs = map fst (rt_connections rt)" "all_entries cn_ok cs"
    "all_entries (\<lambda>_. cn_deliverable) cs" "out_wf b'"
    "all_entries (\<lambda>_. cn_pending_ok) (rt_connections rt) \<longrightarrow> all_entries (\<lambda>_. cn_pending_ok) cs \<and> queues b b'"
    using poll_each_ok [OF ok d b, of w] by blast
  let ?rt = "fold (rt_drop (w_later w)) ids (rt\<lparr>rt_connections := cs\<rparr>)"
  have run: "rt_poll_connections w (rt, b) = Some (?rt, b')"
    using 1(1) by (simp add: rt_poll_connections_def)
  have cs: "rt_connections ?rt = filter (\<lambda>(cid, _). cid \<notin> set ids) cs"
    by (simp add: rt_drop_all)
  have "distinct (map fst cs)" using dist 1(2) by simp
  then have "distinct (map fst (filter (\<lambda>(cid, _). cid \<notin> set ids) cs))"
    by (rule distinct_map_filter)
  then have "rt_ok ?rt" unfolding rt_ok_def cs using 1(3) by auto
  then show ?thesis
    by (rule that [OF run _ 1(5) _ 1(1) cs]) (use 1 cs rt_drop_remembers in \<open>auto simp: rt_drop_all\<close>)
qed

text \<open>Which polled connections leave the table, and the whole of a poll: every connection is polled
  once, in the order of the table, on the buffer the one before left.\<close>

definition poll_closes :: "unit io_result \<Rightarrow> connection \<Rightarrow> bool" where
  "poll_closes r connection \<longleftrightarrow>
     (case r of Inr _ \<Rightarrow> cn_is_closed connection | Inl e \<Rightarrow> e \<noteq> WouldBlock)"

lemma poll_each_keys: "poll_each w cs b = Some (cs', ids, b') \<Longrightarrow>
    map fst cs' = map fst cs \<and> set ids \<subseteq> fst ` set cs"
  by (induction w cs b arbitrary: cs' ids b' rule: poll_each.induct)
    (fastforce split: Option.bind_splits prod.splits sum.splits if_splits)+

lemma poll_each_steps:
  assumes "poll_each w cs b = Some (cs', ids, b')" "distinct (map fst cs)"
  shows "\<exists>bs. length bs = Suc (length cs) \<and> bs ! 0 = b \<and> bs ! length cs = b' \<and>
    (\<forall>i < length cs. \<exists>r c'. cn_poll (w_now w) (snd (cs ! i), bs ! i) = Some (r, c', bs ! Suc i) \<and>
      (if poll_closes r c' then fst (cs ! i) \<in> set ids
       else fst (cs ! i) \<notin> set ids \<and> map_of cs' (fst (cs ! i)) = Some c'))"
  using assms
proof (induction cs arbitrary: b cs' ids b')
  case (Cons entry cs)
  obtain cid c where e: "entry = (cid, c)" by fastforce
  obtain r c1 b1 where p: "cn_poll (w_now w) (c, b) = Some (r, c1, b1)"
    using Cons.prems(1) by (auto simp: e split: Option.bind_splits)
  obtain rest ids1 where q: "poll_each w cs b1 = Some (rest, ids1, b')"
    and cs': "ids = (if poll_closes r c1 then cid # ids1 else ids1)"
      "fst (hd cs') = cid" "\<not> poll_closes r c1 \<Longrightarrow> hd cs' = (cid, c1)" "tl cs' = rest" "cs' \<noteq> []"
    using Cons.prems(1)
    by (auto simp: e p poll_closes_def split: Option.bind_splits sum.splits if_splits)
  obtain bs where bs: "length bs = Suc (length cs)" "bs ! 0 = b1" "bs ! length cs = b'"
    "\<And>i. i < length cs \<Longrightarrow> \<exists>r c'. cn_poll (w_now w) (snd (cs ! i), bs ! i) = Some (r, c', bs ! Suc i) \<and>
      (if poll_closes r c' then fst (cs ! i) \<in> set ids1
       else fst (cs ! i) \<notin> set ids1 \<and> map_of rest (fst (cs ! i)) = Some c')"
    using Cons.IH [OF q] Cons.prems(2) by auto
  have new: "cid \<notin> fst ` set cs" using Cons.prems(2) by (simp add: e)
  then have fresh: "cid \<notin> set ids1" using poll_each_keys [OF q] by blast
  have later: "map_of cs' k = map_of rest k" if "k \<noteq> cid" for k
    using cs' that by (cases cs') auto
  show ?case
  proof (intro exI [of _ "b # bs"] conjI allI impI)
    fix i assume i: "i < length (entry # cs)"
    show "\<exists>r c'. cn_poll (w_now w) (snd ((entry # cs) ! i), (b # bs) ! i) = Some (r, c', (b # bs) ! Suc i) \<and>
      (if poll_closes r c' then fst ((entry # cs) ! i) \<in> set ids
       else fst ((entry # cs) ! i) \<notin> set ids \<and> map_of cs' (fst ((entry # cs) ! i)) = Some c')"
    proof (cases i)
      case 0
      then show ?thesis
        using p bs(2) cs' fresh by (intro exI [of _ r] exI [of _ c1]) (cases cs'; auto simp: e)
    next
      case (Suc j)
      then have j: "j < length cs" using i by simp
      have "fst (cs ! j) \<noteq> cid" using new j by (metis image_eqI nth_mem)
      moreover obtain r' c' where "cn_poll (w_now w) (snd (cs ! j), bs ! j) = Some (r', c', bs ! Suc j)"
        "if poll_closes r' c' then fst (cs ! j) \<in> set ids1
         else fst (cs ! j) \<notin> set ids1 \<and> map_of rest (fst (cs ! j)) = Some c'"
        using bs(4) [OF j] by blast
      ultimately show ?thesis
        using cs'(1) later Suc by (intro exI [of _ r'] exI [of _ c']) auto
    qed
  qed (use bs in auto)
qed (auto intro: exI [of _ "[_]"])

lemma rt_drop_others:
  assumes "cid \<notin> set ids"
  shows "map_of (rt_recently_closed (fold (rt_drop now) ids rt)) cid = map_of (rt_recently_closed rt) cid"
  using assms
  by (induction ids arbitrary: rt) (auto simp: rt_remember_def update_conv')

lemma rt_poll_steps:
  assumes "rt_poll_connections w (rt, b) = Some (rt', b')" "distinct (map fst (rt_connections rt))"
  shows "\<exists>bs. length bs = Suc (length (rt_connections rt)) \<and> bs ! 0 = b \<and>
      bs ! length (rt_connections rt) = b' \<and>
    (\<forall>i < length (rt_connections rt). case rt_connections rt ! i of (cid, connection) \<Rightarrow>
      \<exists>r c'. cn_poll (w_now w) (connection, bs ! i) = Some (r, c', bs ! Suc i) \<and>
        (if poll_closes r c'
         then map_of (rt_connections rt') cid = None \<and>
           map_of (rt_recently_closed rt') cid = Some (w_later w)
         else map_of (rt_connections rt') cid = Some c' \<and>
           map_of (rt_recently_closed rt') cid = map_of (rt_recently_closed rt) cid)) \<and>
    (\<forall>cid. map_of (rt_connections rt) cid = None \<longrightarrow> map_of (rt_connections rt') cid = None \<and>
      map_of (rt_recently_closed rt') cid = map_of (rt_recently_closed rt) cid)"
proof -
  obtain cs ids where p: "poll_each w (rt_connections rt) b = Some (cs, ids, b')"
    and rt': "rt' = fold (rt_drop (w_later w)) ids (rt\<lparr>rt_connections := cs\<rparr>)"
    using assms(1) by (auto simp: rt_poll_connections_def split: Option.bind_splits)
  have k: "map fst cs = map fst (rt_connections rt)" "set ids \<subseteq> fst ` set (rt_connections rt)"
    using poll_each_keys [OF p] by auto
  have gone: "map_of (rt_connections rt') cid = None" if "cid \<in> set ids" for cid
    using that by (auto simp: rt' rt_drop_all map_of_eq_None_iff)
  have kept: "map_of (rt_connections rt') cid = map_of cs cid" if "cid \<notin> set ids" for cid
    unfolding rt' rt_drop_all using that by (induction cs) auto
  have unknown: "map_of cs cid = None" "cid \<notin> set ids" if "map_of (rt_connections rt) cid = None" for cid
    using that k by (metis list.set_map map_of_eq_None_iff, auto simp: map_of_eq_None_iff)
  obtain bs where bs: "length bs = Suc (length (rt_connections rt))" "bs ! 0 = b"
    "bs ! length (rt_connections rt) = b'"
    "\<forall>i < length (rt_connections rt). \<exists>r c'.
      cn_poll (w_now w) (snd (rt_connections rt ! i), bs ! i) = Some (r, c', bs ! Suc i) \<and>
      (if poll_closes r c' then fst (rt_connections rt ! i) \<in> set ids
       else fst (rt_connections rt ! i) \<notin> set ids \<and> map_of cs (fst (rt_connections rt ! i)) = Some c')"
    using poll_each_steps [OF p assms(2)] by blast
  note drop = rt_drop_remembers [of _ ids "w_later w"] rt_drop_others [of _ ids "w_later w"]
  show ?thesis
    by (rule exI [of _ bs])
      (use bs gone kept unknown drop in \<open>fastforce simp: rt' split_beta split: if_splits\<close>)
qed

subsection \<open>Recently closed flows\<close>

text \<open>A packet of a flow that was closed less than two seconds ago changes nothing but the purge of
  the older entries: no connection is made for the client's late reset.\<close>

lemma rt_absorbs:
  assumes f: "flow_id p (rt_client_label rt) = Some cid"
    and t: "map_of (rt_recently_closed rt) cid = Some t" "w_now w < t + from_secs 2"
  shows "rt_send_to_network w p (rt, b) = Some (rt_purge (w_now w) rt, b)"
    "rt_connections (rt_purge (w_now w) rt) = rt_connections rt"
    "cid \<in> fst ` set (rt_recently_closed (rt_purge (w_now w) rt))"
proof -
  have "(cid, t) \<in> set (rt_recently_closed rt)" using t(1) by (rule map_of_SomeD)
  moreover have "duration_since (w_now w) t < RECENTLY_CLOSED_TTL"
    using t(2) unfolding duration_since_less_iff RECENTLY_CLOSED_TTL_def by (simp add: from_secs_def)
  ultimately have "(cid, t) \<in> set (rt_recently_closed (rt_purge (w_now w) rt))"
    by (simp add: rt_purge_def)
  then show "cid \<in> fst ` set (rt_recently_closed (rt_purge (w_now w) rt))" by force
  then show "rt_send_to_network w p (rt, b) = Some (rt_purge (w_now w) rt, b)"
    using rt_send_flow(1) [OF f] by simp
qed simp

text \<open>From two seconds on the flow is forgotten, provided its tuple is there once.\<close>

lemma rt_forgets:
  assumes d: "distinct (map fst (rt_recently_closed rt))"
    and t: "map_of (rt_recently_closed rt) cid = Some t" "t + from_secs 2 \<le> now"
  shows "cid \<notin> fst ` set (rt_recently_closed (rt_purge now rt))"
proof
  assume "cid \<in> fst ` set (rt_recently_closed (rt_purge now rt))"
  then obtain t' where t': "(cid, t') \<in> set (rt_recently_closed rt)"
    "duration_since now t' < RECENTLY_CLOSED_TTL"
    by (auto simp: rt_purge_def)
  then have "t' = t" using d t(1) by (metis map_of_is_SomeI option.inject)
  then show False using t'(2) t(2) by (simp add: duration_since_def RECENTLY_CLOSED_TTL_def)
qed

subsection \<open>Flows are kept apart\<close>

text \<open>A packet of one flow leaves every other connection as it is.\<close>

lemma rt_send_other_flows:
  assumes f: "flow_id p (rt_client_label rt) = Some cid" and other: "cid' \<noteq> cid"
    and run: "rt_send_to_network w p (rt, b) = Some (rt', b')"
  shows "map_of (rt_connections rt') cid' = map_of (rt_connections rt) cid'"
proof (cases "cid \<in> fst ` set (rt_recently_closed (rt_purge (w_now w) rt))")
  case True
  then have "rt' = rt_purge (w_now w) rt" using run rt_send_flow(1) [OF f] by simp
  then show ?thesis by simp
next
  case False
  then have "rt_route w cid p (rt_purge (w_now w) rt, b) = Some (rt', b')"
    using run rt_send_flow(1) [OF f] by simp
  then show ?thesis
    using other by (auto simp: rt_route_def update_conv' delete_conv' split: option.splits
      Option.bind_splits sum.splits if_splits)
qed

text \<open>What is not of a flow does not touch the connections.\<close>

lemma rt_send_no_flow:
  assumes f: "flow_id p (rt_client_label rt) = None"
    and run: "rt_send_to_network w p (rt, b) = Some (rt', b')"
  shows "rt' = rt"
  using assms by (cases "ip_headers_data p")
    (auto simp: flow_id_def rt_send_to_network_def Let_def split: if_splits option.splits
      Option.bind_splits)

subsection \<open>The first packet of a flow\<close>

text \<open>The first datagram of a UDP flow opens a socket for the rewritten destination and is queued
  for it.\<close>

lemma rt_first_datagram:
  assumes p: "routable p" and f: "flow_id p (rt_client_label rt) = Some cid"
    and h: "snd (ip_headers_data p) = Some (TdUdp h)" and pl: "ip_payload p = Some (Some payload)"
    and new: "map_of (rt_connections rt) cid = None"
      "cid \<notin> fst ` set (rt_recently_closed (rt_purge (w_now w) rt))" "rt_has_buffer rt"
    and s: "udp_create_socket (w_udp_open w) cid = Inr s"
  obtains rt' c where "rt_send_to_network w p (rt, b) = Some (rt', b)"
    "map_of (rt_connections rt') cid = Some (CUdp c)" "uc_holds c [payload]" "uc_socket c = s"
    "uc_wf c" "\<not> uc_closed c"
proof -
  have wf: "packet_wf p" and c: "ci_protocol cid = Udp"
    using p h rt_send_flow(2) [OF f] by (simp_all add: routable_def)
  obtain payload' where "ip_payload p = Some (Some payload')" "length payload' < 65536"
    by (rule packet_wf_payload [OF wf h])
  then have len: "length payload < 65536" using pl by simp
  obtain ih th where hd: "ip_headers p = Some (ih, Some th)"
    using ip_headers_ok [OF wf h] by metis
  obtain c0 where c0: "udp_create (w_udp_open w) (w_now w) cid ih th = Some (Inr c0)" "uc_wf c0"
    "uc_socket c0 = s" "uc_client_to_network c0 = db_new (32 * MAX_PACKET_LENGTH)" "\<not> uc_closed c0"
    by (rule udp_create_ok [OF wf h hd s])
  have h0: "uc_holds c0 []" by (simp add: uc_holds_def c0(4) db_repr_new)
  have "db_accepts (uc_client_to_network c0) payload"
    using len by (simp add: db_accepts_def c0(4) db_new_def db_has_enough_space_for_def MAX_PACKET_LENGTH_def)
  then obtain c1 where c1: "uc_send_to_network p c0 = Some c1" "uc_wf c1" "uc_socket c1 = uc_socket c0"
    "uc_holds c1 ([] @ [payload])"
    using uc_send_to_network_ok [OF c0(2) pl len h0] by metis
  have closed: "uc_closed c1 = uc_closed c0"
    using c1(1) pl by (auto simp: uc_send_to_network_def split: Option.bind_splits)
  have "rt_create_connection w cid p = Some (Inr (CUdp c0))"
    using hd c c0(1) by (simp add: rt_create_connection_def)
  then have "rt_route w cid p (rt_purge (w_now w) rt, b) =
      Some ((rt_purge (w_now w) rt)\<lparr>rt_connections := AList.update cid (CUdp c1) (rt_connections rt)\<rparr>, b)"
    using new(1,3) c1(1) by (simp add: rt_route_def)
  then show ?thesis
    using that rt_send_flow(1) [OF f] new(2) c1 c0(3,5) closed by (simp add: update_conv')
qed

text \<open>What the well-formedness of the headers keeps out: a TCP header whose data offset says less than
  20 bytes panics the creation of its connection, which copies 20 of them.\<close>

lemma short_tcp_header_panics:
  assumes "ip_headers p = Some (ih, Some (TTcp h))" "length (th_raw h) < 20" "ci_protocol cid = Tcp"
    and "create_stream (w_tcp_connect w) (w_set_options w) (w_socks5_proxy w) cid = Inr s"
  shows "rt_create_connection w cid p = None"
  using assms by (simp add: rt_create_connection_def tcp_create_def slice_def)

text \<open>A SYN opens a connection to the rewritten destination, waiting for it.\<close>

lemma rt_first_syn:
  assumes p: "routable p" and f: "flow_id p (rt_client_label rt) = Some cid"
    and h: "snd (ip_headers_data p) = Some (TdTcp h)" "is_syn h"
    and new: "map_of (rt_connections rt) cid = None"
      "cid \<notin> fst ` set (rt_recently_closed (rt_purge (w_now w) rt))" "rt_has_buffer rt"
    and s: "create_stream (w_tcp_connect w) (w_set_options w) (w_socks5_proxy w) cid = Inr s"
  obtains rt' c where "rt_send_to_network w p (rt, b) = Some (rt', b)"
    "map_of (rt_connections rt') cid = Some (CTcp c)" "tc_wf c" "tc_stream c = s"
    "tcb_state (tc_tcb c) = SynSent" "delivered c = sent_bytes s"
    "acknowledgement_number (tc_tcb c) = tcp_sequence_number h + 1" "quiet c"
proof -
  have wf: "packet_wf p" and c: "ci_protocol cid = Tcp"
    using p h rt_send_flow(2) [OF f] by (simp_all add: routable_def)
  obtain payload where "ip_payload p = Some (Some payload)"
    by (rule packet_wf_payload [OF wf h(1)])
  then have tp: "tcp_packet h payload p" using wf h(1) by (simp add: tcp_packet_def)
  obtain ih th where hd: "ip_headers p = Some (ih, Some th)"
    using ip_headers_ok [OF wf h(1)] by metis
  obtain c0 where c0: "tcp_create cid (Inr s) ih th = Some (Inr c0)" "tc_wf c0" "tc_stream c0 = s"
    "tc_tcb c0 = tcb_new" "sb_content (tc_client_to_network c0) = []"
    by (rule tcp_create_ok [OF wf h(1) hd])
  let ?c = "tcb_update (\<lambda>t. t\<lparr>acknowledgement_number := tcp_sequence_number h + 1,
      syn_sequence_number := tcp_sequence_number h, sequence_number := w_random w,
      client_window := tcp_window h, tcb_state := SynSent\<rparr>) c0"
  have "tcb_state (tc_tcb c0) = Init" by (simp add: c0(4) tcb_new_def)
  then have hp: "handle_packet (w_random w) p (c0, b) = Some (?c, b)"
    using handle_syn [OF tp _ h(2)] by blast
  have "rt_create_connection w cid p = Some (Inr (CTcp c0))"
    using hd c c0(1) s by (simp add: rt_create_connection_def)
  then have "rt_route w cid p (rt_purge (w_now w) rt, b) =
      Some ((rt_purge (w_now w) rt)\<lparr>rt_connections := AList.update cid (CTcp ?c) (rt_connections rt)\<rparr>, b)"
    using new(1,3) hp by (simp add: rt_route_def)
  then show ?thesis
    using that [of _ ?c] rt_send_flow(1) [OF f] new(2) c0(2-5)
    by (simp add: update_conv' tc_wf_def delivered_def quiet_def tcb_new_def)
qed

subsection \<open>QUIC\<close>

text \<open>QUIC opens no connection. Over IPv4 the device is told at once, room permitting.\<close>

lemma rt_quic:
  assumes q: "rt_is_quic p" "\<not> is_icmp_echo_request p" and p: "p = PkV4 q'" "packet_wf p" and b: "sb_wf b"
  defines "r \<equiv> port_unreachable (v4_source (p4_ip q')) (v4_destination (p4_ip q'))
    (unat (v4_header_length (p4_ip q'))) (p4_raw q')"
  shows "\<exists>b'. rt_send_to_network w p (rt, b) = Some (rt, b') \<and>
    (if length r \<le> sb_remaining b then sb_content b' = sb_content b @ r else b' = b)"
proof -
  have "build_port_unreachable p = Some (Some r)"
    using build_port_unreachable_ok [of q'] p by (simp add: r_def Let_def)
  then show ?thesis
    using q send_raw_to_client_ok [OF b, of r]
    by (auto simp: rt_send_to_network_def appended_def)
qed

end
