(* ===== verification/Framing.thy ===== *)
theory Framing
  imports Ip_Packet_Buffer
begin

text \<open>
  Cutting the device's byte stream into packets. \<open>device_frame\<close> says which bytes are a packet that
  \<open>IpPacket::parse\<close> takes; the locale \<open>frame_source\<close> states what the client's loop relies on, and is
  interpreted on the \<open>IpPacketBuffer\<close>.
\<close>

subsection \<open>The packets of the device\<close>

definition transport_fits :: "protocol \<Rightarrow> byte list \<Rightarrow> bool" where
  "transport_fits protocol seg \<longleftrightarrow>
     (case protocol of
        Tcp \<Rightarrow> 20 \<le> length seg \<and> 20 \<le> 4 * (unat (seg ! 12) div 16) \<and>
          4 * (unat (seg ! 12) div 16) \<le> length seg
      | Udp \<Rightarrow> 8 \<le> length seg
      | _ \<Rightarrow> True)"

definition device_frame :: "byte list \<Rightarrow> bool" where
  "device_frame p \<longleftrightarrow> is_frame p \<and>
     (if drop_bit 4 (p ! 0) = 4
      then 20 \<le> 4 * (unat (p ! 0) mod 16) \<and> 4 * (unat (p ! 0) mod 16) \<le> length p \<and>
        transport_fits (ipv4_protocol_of_byte (p ! 9)) (drop (4 * (unat (p ! 0) mod 16)) p)
      else transport_fits (ipv6_protocol_of_byte (p ! 6)) (drop 40 p))"

text \<open>The transport header agrees with the protocol named in the IP header.\<close>

definition names_transport :: "protocol \<Rightarrow> transport_header_data option \<Rightarrow> bool" where
  "names_transport protocol t \<longleftrightarrow>
     (case t of None \<Rightarrow> True | Some td \<Rightarrow> protocol = (if td_is_udp td then Udp else Tcp))"

lemma tcp_offset_byte:
  "unat (ucast (drop_bit 10 (u16_of_bytes b c AND 0xF000)) :: byte) = 4 * (unat b div 16)"
proof -
  let ?w = "u16_of_bytes b c"
  have b: "unat b < 256" by (rule unat_byte_less)
  have "drop_bit 10 (?w AND 0xF000) = push_bit 2 (drop_bit 12 ?w)"
    unfolding word_masks by (rule bit_word_eqI) (auto simp: bit_simps dest: bit_imp_le_length)
  moreover have d: "unat (drop_bit 12 ?w) = unat b div 16"
  proof -
    have "unat (drop_bit 12 ?w) = unat ?w div 4096"
      by (simp only: unat_drop_bit_eq) (simp add: drop_bit_eq_div)
    also have "\<dots> = (unat b * 256 + unat c) div (256 * 16)" by (simp add: unat_u16_of_bytes)
    also have "\<dots> = (unat b * 256 + unat c) div 256 div 16" by (rule div_mult2_eq)
    also have "(unat b * 256 + unat c) div 256 = unat b" using unat_byte_less [of c] by simp
    finally show ?thesis .
  qed
  moreover have "unat (push_bit 2 (drop_bit 12 ?w)) = 4 * (unat b div 16)"
  proof -
    have "unat b div 16 * 4 < 65536" using b by linarith
    then show ?thesis by (simp add: push_bit_eq_mult unat_word_ariths d)
  qed
  ultimately have "unat (drop_bit 10 (?w AND 0xF000)) = 4 * (unat b div 16)" by simp
  moreover have "4 * (unat b div 16) < 256" using b by linarith
  ultimately show ?thesis by (simp only: unsigned_ucast_eq) (simp add: take_bit_nat_eq_self)
qed

lemma tcp_parse_offset:
  assumes "tcp_parse raw = Some d"
  shows "unat (tcp_header_length d) = 4 * (unat (raw ! 12) div 16)"
  using assms tcp_parse_eq [OF tcp_parse_length [OF assms]]
    tcp_offset_byte [of "raw ! 12" "raw ! 13"] by auto

lemma transport_parse_fits:
  assumes "transport_fits protocol seg"
  obtains t where "transport_parse protocol (seg @ rest) = Some t" "names_transport protocol t"
    "\<And>td. t = Some td \<Longrightarrow> segment_wf td seg"
proof (cases protocol)
  case Tcp
  let ?n = "4 * (unat (seg ! 12) div 16)"
  have l: "20 \<le> length seg" "20 \<le> ?n" "?n \<le> length seg"
    using assms Tcp by (simp_all add: transport_fits_def)
  have "seg \<noteq> []" using l by auto
  then obtain d where d: "tcp_parse (seg @ rest) = Some d" "tcp_parse (take ?n seg) = Some d"
    using l by (simp add: tcp_parse_eq nth_append)
  have "unat (tcp_header_length d) = ?n"
    using tcp_parse_offset [OF d(1)] l(1) by (simp add: nth_append)
  then show ?thesis
    using that [of "Some (TdTcp d)"] d l Tcp by (simp add: transport_parse_def names_transport_def)
next
  case Udp
  have l: "8 \<le> length seg" using assms Udp by (simp add: transport_fits_def)
  have "seg \<noteq> []" using l by auto
  then obtain d where d: "udp_parse (seg @ rest) = Some d" "udp_parse (take 8 seg) = Some d"
    using l by (simp add: udp_parse_eq nth_append)
  then show ?thesis
    using that [of "Some (TdUdp d)"] l Udp by (simp add: transport_parse_def names_transport_def)
qed (use that [of None] in \<open>simp_all add: transport_parse_def names_transport_def\<close>)

lemma device_frame_parses:
  assumes p: "device_frame p"
  obtains pkt where "ip_packet_parse (p @ rest) = Some (Some pkt)" "ip_raw pkt = p" "packet_wf pkt"
    "names_transport (hd_protocol (fst (ip_headers_data pkt))) (snd (ip_headers_data pkt))"
proof -
  have "is_frame p" using p by (simp add: device_frame_def)
  then show ?thesis
  proof (cases rule: is_frame_cases)
    case v4
    let ?hl = "4 * (unat (p ! 0) mod 16)"
    have f: "20 \<le> ?hl" "?hl \<le> length p" "transport_fits (ipv4_protocol_of_byte (p ! 9)) (drop ?hl p)"
      using p v4 by (simp_all add: device_frame_def)
    have ne: "p \<noteq> []" using v4(1) by auto
    then obtain d where d: "ipv4_parse (p @ rest) = Some d" "ipv4_parse (take ?hl p) = Some d"
      "v4_total_length d = u16_of_bytes (p ! 2) (p ! 3)" "v4_protocol d = ipv4_protocol_of_byte (p ! 9)"
      using v4(1) f(1,2) by (simp add: ipv4_parse_eq nth_append)
    have hl: "unat (v4_header_length d) = ?hl"
      using ipv4_header_length_bound(1) [OF d(1)] ne by (simp add: nth_append)
    obtain t where t: "transport_parse (v4_protocol d) (drop ?hl p @ rest) = Some t"
      "names_transport (v4_protocol d) t" "\<And>td. t = Some td \<Longrightarrow> segment_wf td (drop ?hl p)"
      using transport_parse_fits [OF f(3), of rest] d(4) by metis
    let ?q = "\<lparr>p4_raw = p, p4_ip = d, p4_transport = t\<rparr>"
    have "ipv4_packet_parse (p @ rest) = Some ?q"
      using d(1,3) t(1) f(2) v4(3) hl by (simp add: ipv4_packet_parse_def slice_simps)
    then have "ip_packet_parse (p @ rest) = Some (Some (PkV4 ?q))"
      using v4(2) ne by (simp add: ip_packet_parse_def slice_simps nth_append)
    moreover have "packet_wf (PkV4 ?q)"
      using f d(2,3) v4(3) hl t(3) by (simp split: option.split)
    ultimately show ?thesis using that t(2) by simp
  next
    case v6
    have f: "transport_fits (ipv6_protocol_of_byte (p ! 6)) (drop 40 p)"
      using p v6(3) by (simp add: device_frame_def)
    obtain d where d: "ipv6_parse (p @ rest) = Some d" "ipv6_parse (take 40 p) = Some d"
      "v6_payload_length d = u16_of_bytes (p ! 4) (p ! 5)" "v6_next_header d = ipv6_protocol_of_byte (p ! 6)"
      using v6(1) by (simp add: ipv6_parse_eq nth_append drop_take)
    have tl: "unat (ipv6_total_length d) = length p"
      using v6(4,5) d(3) by (simp add: ipv6_total_length_def unat_word_ariths)
    obtain t where t: "transport_parse (v6_next_header d) (drop 40 p @ []) = Some t"
      "names_transport (v6_next_header d) t" "\<And>td. t = Some td \<Longrightarrow> segment_wf td (drop 40 p)"
      using transport_parse_fits [OF f, of "[]"] d(4) by metis
    let ?q = "\<lparr>p6_raw = p, p6_ip = d, p6_transport = t\<rparr>"
    have ne: "p \<noteq> []" using v6(1) by auto
    have "ipv6_packet_parse (p @ rest) = Some ?q"
      using d(1) t(1) v6(1) tl by (simp add: ipv6_packet_parse_def slice_simps)
    then have "ip_packet_parse (p @ rest) = Some (Some (PkV6 ?q))"
      using v6(2,3) ne by (simp add: ip_packet_parse_def slice_simps nth_append)
    moreover have "packet_wf (PkV6 ?q)"
      using v6(1) d(2) tl t(3) by (simp split: option.split)
    ultimately show ?thesis using that t(2) by simp
  qed
qed

subsection \<open>What the client's loop relies on\<close>

text \<open>The loop of \<open>Client::feed_device_data\<close> without what it does with a packet: take packets while
  there is one, skip malformed bytes, else stop. The outer option is fuel, the inner one the panic.\<close>

fun cut ::
    "('q \<Rightarrow> 'p option option) \<Rightarrow> ('q \<Rightarrow> 'q option) \<Rightarrow> ('q \<Rightarrow> (bool \<times> 'q) option) \<Rightarrow>
     nat \<Rightarrow> 'q \<Rightarrow> ('p list \<times> 'q) option option" where
  "cut packet advance skip 0 q = None"
| "cut packet advance skip (Suc fuel) q =
     (case packet q of
        None \<Rightarrow> Some None
      | Some (Some p) \<Rightarrow>
          (case advance q of
             None \<Rightarrow> Some None
           | Some q' \<Rightarrow> map_option (map_option (apfst (Cons p))) (cut packet advance skip fuel q'))
      | Some None \<Rightarrow>
          (case skip q of
             None \<Rightarrow> Some None
           | Some (True, q') \<Rightarrow> cut packet advance skip fuel q'
           | Some (False, q') \<Rightarrow> Some (Some ([], q'))))"

text \<open>What a device sends: packets, and perhaps bytes that no packet starts with.\<close>

datatype item = Junk byte | Frame "byte list"

fun item_ok :: "item \<Rightarrow> bool" where
  "item_ok (Junk x) \<longleftrightarrow> drop_bit 4 x \<noteq> 4 \<and> drop_bit 4 x \<noteq> 6"
| "item_ok (Frame p) \<longleftrightarrow> device_frame p"

fun item_bytes :: "item \<Rightarrow> byte list" where
  "item_bytes (Junk x) = [x]"
| "item_bytes (Frame p) = p"

fun item_frames :: "item \<Rightarrow> byte list list" where
  "item_frames (Junk x) = []"
| "item_frames (Frame p) = [p]"

abbreviation items_bytes :: "item list \<Rightarrow> byte list" where
  "items_bytes items \<equiv> concat (map item_bytes items)"

abbreviation items_frames :: "item list \<Rightarrow> byte list list" where
  "items_frames items \<equiv> concat (map item_frames items)"

text \<open>The packet of a frame.\<close>

definition frame_packet :: "byte list \<Rightarrow> ip_packet" where
  "frame_packet p = the (the (ip_packet_parse p))"

text \<open>\<open>partial bs\<close>: a beginning of a frame, not yet the whole.\<close>

definition partial :: "byte list \<Rightarrow> bool" where
  "partial bs \<longleftrightarrow> bs = [] \<or> (\<exists>p k. device_frame p \<and> k < length p \<and> bs = take k p)"

locale frame_source =
  fixes wf :: "'q \<Rightarrow> bool"
    and content :: "'q \<Rightarrow> byte list"
    and packet :: "'q \<Rightarrow> ip_packet option option"
    and advance :: "'q \<Rightarrow> 'q option"
    and skip :: "'q \<Rightarrow> (bool \<times> 'q) option"
  assumes packet_ok: "wf q \<Longrightarrow> content q = p @ rest \<Longrightarrow> device_frame p \<Longrightarrow>
      packet q = ip_packet_parse (p @ rest)"
    and advance_ok: "wf q \<Longrightarrow> content q = p @ rest \<Longrightarrow> device_frame p \<Longrightarrow>
      \<exists>q'. advance q = Some q' \<and> wf q' \<and> content q' = rest"
    and partial_ok: "wf q \<Longrightarrow> partial (content q) \<Longrightarrow> packet q = Some None \<and> skip q = Some (False, q)"
    and junk_ok: "wf q \<Longrightarrow> content q = x # rest \<Longrightarrow> item_ok (Junk x) \<Longrightarrow>
      packet q = Some None \<and> (\<exists>q'. skip q = Some (True, q') \<and> wf q' \<and> content q' = rest)"
begin

text \<open>Enough fuel is one more than the number of items: the loop returns, its packets are the frames
  in order and the partial frame stays.\<close>

lemma cut_items:
  assumes "wf q" "content q = items_bytes items @ tail" "list_all item_ok items" "partial tail"
    "length items < fuel"
  shows "\<exists>ps q'. cut packet advance skip fuel q = Some (Some (ps, q')) \<and> wf q' \<and>
    content q' = tail \<and> map ip_raw ps = items_frames items \<and>
    list_all (\<lambda>p. packet_wf p \<and>
      names_transport (hd_protocol (fst (ip_headers_data p))) (snd (ip_headers_data p))) ps"
  using assms
proof (induction items arbitrary: q fuel)
  case Nil
  then obtain n where "fuel = Suc n" by (cases fuel) auto
  then show ?case using partial_ok [OF Nil(1)] Nil by simp
next
  case (Cons i items)
  obtain n where n: "fuel = Suc n" "length items < n" using Cons.prems(5) by (cases fuel) auto
  have ok: "list_all item_ok items" using Cons.prems(3) by simp
  show ?case
  proof (cases i)
    case (Junk x)
    then obtain q' where "packet q = Some None" "skip q = Some (True, q')" "wf q'"
      "content q' = items_bytes items @ tail"
      using junk_ok [OF Cons.prems(1), of x "items_bytes items @ tail"] Cons.prems(2,3) by auto
    then show ?thesis
      using Cons.IH [OF _ _ ok Cons.prems(4) n(2), of q'] n(1) Junk by simp
  next
    case (Frame p)
    let ?rest = "items_bytes items @ tail"
    have c: "content q = p @ ?rest" and p: "device_frame p" using Cons.prems(2,3) Frame by simp_all
    obtain pkt where pkt: "ip_packet_parse (p @ ?rest) = Some (Some pkt)" "ip_raw pkt = p"
      "packet_wf pkt" "names_transport (hd_protocol (fst (ip_headers_data pkt))) (snd (ip_headers_data pkt))"
      by (rule device_frame_parses [OF p])
    have "packet q = Some (Some pkt)"
      using packet_ok [OF Cons.prems(1) c p] pkt(1) by simp
    moreover obtain q' where "advance q = Some q'" "wf q'" "content q' = ?rest"
      using advance_ok [OF Cons.prems(1) c p] by blast
    moreover from Cons.IH [OF this(2,3) ok Cons.prems(4) n(2)] obtain ps q'' where
      "cut packet advance skip n q' = Some (Some (ps, q''))" "wf q''" "content q'' = tail"
      "map ip_raw ps = items_frames items" "list_all (\<lambda>p. packet_wf p \<and>
        names_transport (hd_protocol (fst (ip_headers_data p))) (snd (ip_headers_data p))) ps"
      by blast
    ultimately show ?thesis using n(1) Frame pkt by simp
  qed
qed

end

subsection \<open>The \<open>IpPacketBuffer\<close> is such a source\<close>

lemma device_frame_version:
  assumes "device_frame p"
  shows "p \<noteq> []" "drop_bit 4 (p ! 0) = 4 \<or> drop_bit 4 (p ! 0) = 6" "is_frame p"
  using assms by (auto simp: device_frame_def is_frame_def)

text \<open>The buffer of the client has room for the largest packet.\<close>

definition pb_ok :: "ip_packet_buffer \<Rightarrow> bool" where
  "pb_ok b \<longleftrightarrow> pb_wf b \<and> bb_capacity (pb_buf b) = MAX_PACKET_LENGTH"

lemma pb_ok_new [simp]: "pb_ok pb_new" "pb_content pb_new = []"
  by (simp_all add: pb_ok_def pb_wf_def pb_content_def pb_new_def)

lemma pb_peek: "pb_ok b \<Longrightarrow> bb_peek (pb_buf b) = Some (pb_content b)"
  by (simp add: pb_ok_def pb_wf_def pb_content_def bb_peek_content)

lemma pb_consume:
  assumes "pb_ok b" "n \<le> length (pb_content b)"
  obtains buf' where "bb_consume n (pb_buf b) = Some buf'" "pb_ok (b\<lparr>pb_buf := buf'\<rparr>)"
    "pb_content (b\<lparr>pb_buf := buf'\<rparr>) = drop n (pb_content b)"
  using bb_consume_ok [of "pb_buf b" n] assms
  by (auto simp: pb_ok_def pb_wf_def pb_content_def)

lemma pb_next_frame:
  assumes "pb_ok b" "pb_content b = p @ rest" "is_frame p"
  shows "\<exists>b'. pb_next b = Some b' \<and> pb_ok b' \<and> pb_content b' = rest"
proof -
  obtain v len where a: "available_packet_info b = Some (Some (v, len))" "unat len = length p"
    using available_frame assms unfolding pb_ok_def by blast
  have "length p \<le> length (pb_content b)" using assms(2) by simp
  then obtain buf' where "bb_consume (length p) (pb_buf b) = Some buf'" "pb_ok (b\<lparr>pb_buf := buf'\<rparr>)"
    "pb_content (b\<lparr>pb_buf := buf'\<rparr>) = drop (length p) (pb_content b)"
    by (rule pb_consume [OF assms(1)])
  then show ?thesis using a assms(2) by (simp add: pb_next_def)
qed

lemma available_junk:
  assumes "pb_ok b" "pb_content b = x # rest" "item_ok (Junk x)"
  shows "available_packet_info b = Some None"
  using assms by (simp add: available_packet_info_def pb_peek slice_simps)

lemma pb_skip_junk:
  assumes "pb_ok b" "pb_content b = x # rest" "item_ok (Junk x)"
  shows "\<exists>b'. pb_skip_malformed b = Some (True, b') \<and> pb_ok b' \<and> pb_content b' = rest"
proof -
  have "1 \<le> length (pb_content b)" using assms(2) by simp
  then obtain buf' where "bb_consume 1 (pb_buf b) = Some buf'" "pb_ok (b\<lparr>pb_buf := buf'\<rparr>)"
    "pb_content (b\<lparr>pb_buf := buf'\<rparr>) = drop 1 (pb_content b)"
    by (rule pb_consume [OF assms(1)])
  then show ?thesis
    using assms by (simp add: pb_skip_malformed_def pb_peek slice_simps)
qed

text \<open>Reading what fits appends it.\<close>

lemma pb_read_from_ok:
  assumes "pb_ok b" "length (pb_content b) + length data \<le> MAX_PACKET_LENGTH"
  obtains b' where "pb_read_from \<lparr>rx = [Inr data], tx = t, sent = o'\<rparr> b =
      Some (Inr (data \<noteq> []), \<lparr>rx = [], tx = t, sent = o'\<rparr>, b')"
    "pb_ok b'" "pb_content b' = pb_content b @ data"
proof -
  let ?s = "\<lparr>rx = [Inr data], tx = t, sent = o'\<rparr>"
  have w: "bb_wf (pb_buf b)" "bb_capacity (pb_buf b) = MAX_PACKET_LENGTH"
    using assms(1) by (simp_all add: pb_ok_def pb_wf_def)
  have "length data \<le> bb_capacity (pb_buf b) - bb_head (pb_buf b)"
    using assms(2) w length_bb_content [OF w(1)] by (simp add: pb_content_def)
  then have "stream_read (bb_capacity (pb_buf b) - bb_head (pb_buf b)) ?s = (Inr data, ?s\<lparr>rx := []\<rparr>)"
    by (simp add: stream_read.simps)
  from bb_read_from_ok [OF w(1) this] obtain buf' where
    "bb_read_from ?s (pb_buf b) = Some (Inr (data \<noteq> []), ?s\<lparr>rx := []\<rparr>, buf')" "bb_wf buf'"
    "bb_content buf' = bb_content (pb_buf b) @ data" "bb_capacity buf' = bb_capacity (pb_buf b)"
    by blast
  then show ?thesis
    using that [of "b\<lparr>pb_buf := buf'\<rparr>"] w(2)
    by (simp add: pb_read_from_def pb_ok_def pb_wf_def pb_content_def)
qed

lemma available_empty: "pb_ok b \<Longrightarrow> pb_content b = [] \<Longrightarrow> available_packet_info b = Some None"
  by (simp add: available_packet_info_def pb_peek)

lemma pb_partial:
  assumes b: "pb_ok b" and c: "partial (pb_content b)"
  shows "as_ip_packet b = Some None \<and> pb_skip_malformed b = Some (False, b)"
proof (cases "pb_content b = []")
  case True
  then show ?thesis
    using b by (simp add: as_ip_packet_def available_empty pb_skip_malformed_def pb_peek)
next
  case False
  then obtain p k where p: "device_frame p" "k < length p" "pb_content b = take k p"
    using c by (auto simp: partial_def)
  note v = device_frame_version [OF p(1)]
  have "available_packet_info b = Some None"
    using available_partial_frame [OF _ p(3) v(3) p(2)] b by (simp add: pb_ok_def)
  moreover have "take k p ! 0 = p ! 0" "take k p \<noteq> []" using False p by (auto simp: nth_take)
  ultimately show ?thesis
    using b p(3) v(2) by (auto simp: as_ip_packet_def pb_skip_malformed_def pb_peek slice_simps)
qed

interpretation pbs: frame_source pb_ok pb_content as_ip_packet pb_next pb_skip_malformed
proof (unfold_locales, goal_cases)
  case (1 q p rest)
  then show ?case
    using available_frame [of q p rest] device_frame_version [of p]
    by (auto simp: as_ip_packet_def pb_peek pb_ok_def [of q])
next
  case (2 q p rest)
  then show ?case using pb_next_frame device_frame_version by blast
next
  case (3 q)
  then show ?case by (rule pb_partial)
next
  case (4 q x rest)
  then show ?case using pb_skip_junk available_junk by (auto simp: as_ip_packet_def)
qed

end
