(* ===== verification/Client.thy ===== *)
theory Client
  imports Routing Framing
begin

text \<open>
  \<open>relay/client.rs\<close>: one device. Its byte stream is cut into packets, which the router forwards; what
  the connections answer waits in the shared buffer, is drained into \<open>pending_outgoing\<close> and written
  to the device as its socket takes it. \<open>run_blocking\<close> is \<open>run_start\<close> followed by iterations of
  \<open>run_iteration\<close>; what the operating system answers during one of them is the record \<open>tick\<close>.
\<close>

record client =
  cl_id :: u32
  cl_serial :: "string option"
  cl_label :: string
  cl_client_to_network :: ip_packet_buffer
  cl_network_to_client :: stream_buffer
  cl_router :: router
  cl_closed :: bool
  cl_signalled :: bool

definition client_label :: "u32 \<Rightarrow> string option \<Rightarrow> string" where
  "client_label i serial =
     (case serial of
        Some s \<Rightarrow> ''#'' @ show_dec (unat i) @ '' ('' @ s @ '')''
      | None \<Rightarrow> ''#'' @ show_dec (unat i))"

text \<open>\<open>cl_signalled\<close> is the flag the close listener of \<open>run_blocking\<close> sets.\<close>

definition cl_create :: "u32 \<Rightarrow> string option \<Rightarrow> client io_result" where
  "cl_create i serial =
     (let label = client_label i serial;
          buffer = sb_new (64 * MAX_PACKET_LENGTH);
          router = rt_set_client_label label (rt_set_buffer rt_new)
      in Inr \<lparr>cl_id = i, cl_serial = serial, cl_label = label, cl_client_to_network = pb_new,
              cl_network_to_client = buffer, cl_router = router, cl_closed = False,
              cl_signalled = False\<rparr>)"

definition cl_close :: "client \<Rightarrow> client" where
  "cl_close cl = cl\<lparr>cl_closed := True, cl_router := rt_clear (cl_router cl), cl_signalled := True\<rparr>"

definition cl_clean_expired_connections :: "world \<Rightarrow> client \<Rightarrow> client" where
  "cl_clean_expired_connections w cl = cl\<lparr>cl_router := rt_clean_expired_connections w (cl_router cl)\<rparr>"

text \<open>The loop of \<open>feed_device_data\<close>; the outer option is fuel, the inner one the panic. \<open>ws\<close> is the
  world each packet meets.\<close>

fun feed_loop :: "nat \<Rightarrow> (nat \<Rightarrow> world) \<Rightarrow> nat \<Rightarrow> client \<Rightarrow> (nat \<times> client) option option" where
  "feed_loop 0 ws count cl = None"
| "feed_loop (Suc fuel) ws count cl =
     (case as_ip_packet (cl_client_to_network cl) of
        None \<Rightarrow> Some None
      | Some (Some packet) \<Rightarrow>
          (case rt_send_to_network (ws count) packet (cl_router cl, cl_network_to_client cl) of
             None \<Rightarrow> Some None
           | Some (router, channel) \<Rightarrow>
               (case pb_next (cl_client_to_network cl) of
                  None \<Rightarrow> Some None
                | Some buf \<Rightarrow> feed_loop fuel ws (count + 1)
                    (cl\<lparr>cl_router := router, cl_network_to_client := channel,
                        cl_client_to_network := buf\<rparr>)))
      | Some None \<Rightarrow>
          (case pb_skip_malformed (cl_client_to_network cl) of
             None \<Rightarrow> Some None
           | Some (True, buf) \<Rightarrow> feed_loop fuel ws count (cl\<lparr>cl_client_to_network := buf\<rparr>)
           | Some (False, buf) \<Rightarrow> Some (Some (count, cl\<lparr>cl_client_to_network := buf\<rparr>))))"

definition feed_device_data ::
  "nat \<Rightarrow> (nat \<Rightarrow> world) \<Rightarrow> byte list \<Rightarrow> client \<Rightarrow> (nat \<times> client) option option" where
  "feed_device_data fuel ws data cl =
     (let cursor = \<lparr>rx = [Inr data], tx = [], sent = []\<rparr> in
      case pb_read_from cursor (cl_client_to_network cl) of
        None \<Rightarrow> Some None
      | Some (r, _, buf) \<Rightarrow>
          (let cl' = cl\<lparr>cl_client_to_network := buf\<rparr> in
           case r of
             Inr True \<Rightarrow> feed_loop fuel ws 0 cl'
           | _ \<Rightarrow> Some (Some (0, cl'))))"

definition cl_poll_network_connections :: "world \<Rightarrow> client \<Rightarrow> client option" where
  "cl_poll_network_connections w cl = do {
     (router, buffer) \<leftarrow> rt_poll_connections w (cl_router cl, cl_network_to_client cl);
     Some (cl\<lparr>cl_router := router, cl_network_to_client := buffer\<rparr>)
   }"

text \<open>The \<open>Cursor\<close> over the zeroed vector takes what one \<open>write\<close> offers, up to its length.\<close>

definition drain_outgoing :: "client \<Rightarrow> (byte list \<times> client) option" where
  "drain_outgoing cl =
     (let buffer = cl_network_to_client cl; size = sb_size buffer in
      if size = 0 then Some ([], cl)
      else do {
        (_, buffer', cursor) \<leftarrow> sb_write_to buffer \<lparr>rx = [], tx = [Inr size], sent = []\<rparr>;
        let written = sent_bytes cursor;
        Some (written @ replicate (size - length written) 0, cl\<lparr>cl_network_to_client := buffer'\<rparr>)
      })"

definition has_outgoing :: "client \<Rightarrow> bool" where
  "has_outgoing cl \<longleftrightarrow> \<not> sb_is_empty (cl_network_to_client cl)"

subsection \<open>Helpers on the device's socket\<close>

definition write_partial :: "byte list \<Rightarrow> stream \<Rightarrow> nat io_result \<times> stream" where
  "write_partial buf s =
     (case stream_write buf s of
        (Inr n, s') \<Rightarrow> (Inr n, s')
      | (Inl e, s') \<Rightarrow> if e = WouldBlock then (Inr 0, s') else (Inl e, s'))"

text \<open>These two spin while the socket says \<open>WouldBlock\<close>; not returning is \<open>None\<close>.\<close>

partial_function (option) cl_write_all :: "nat \<Rightarrow> byte list \<Rightarrow> stream \<Rightarrow> (unit io_result \<times> stream) option" where
  "cl_write_all offset buf s =
     (if offset < length buf
      then (case stream_write (drop offset buf) s of
          (Inr n, s') \<Rightarrow>
            if n = 0 then Some (Inl WriteZero, s') else cl_write_all (offset + n) buf s'
        | (Inl e, s') \<Rightarrow>
            if e = WouldBlock then cl_write_all offset buf s' else Some (Inl e, s'))
      else Some (Inr (), s))"

partial_function (option) cl_read_exact :: "byte list \<Rightarrow> nat \<Rightarrow> stream \<Rightarrow> (byte list io_result \<times> stream) option" where
  "cl_read_exact acc n s =
     (if length acc < n
      then (case stream_read (n - length acc) s of
          (Inr bs, s') \<Rightarrow>
            if bs = [] then Some (Inl UnexpectedEof, s') else cl_read_exact (acc @ bs) n s'
        | (Inl e, s') \<Rightarrow>
            if e = WouldBlock then cl_read_exact acc n s' else Some (Inl e, s'))
      else Some (Inr acc, s))"



subsection \<open>\<open>run_blocking\<close>\<close>

record run_state =
  rs_client :: client
  rs_stream :: stream
  rs_pending_outgoing :: "byte list"
  rs_last_cleanup :: instant

record tick =
  tk_feed :: "nat \<Rightarrow> world"
  tk_poll_after_feed :: world
  tk_poll :: world
  tk_now :: instant
  tk_cleanup :: world

text \<open>Before the loop: the identifier goes to the device, then the client is created.\<close>

definition run_start :: "u32 \<Rightarrow> string option \<Rightarrow> instant \<Rightarrow> stream \<Rightarrow> (unit + run_state) option" where
  "run_start i serial now s = do {
     (r, s') \<leftarrow> cl_write_all 0 (bytes_of_u32 i) s;
     Some (case r of
         Inl _ \<Rightarrow> Inl ()
       | Inr _ \<Rightarrow>
           (case cl_create i serial of
              Inl _ \<Rightarrow> Inl ()
            | Inr cl \<Rightarrow> Inr \<lparr>rs_client = cl, rs_stream = s', rs_pending_outgoing = [],
                           rs_last_cleanup = now\<rparr>))
   }"

text \<open>How an iteration goes on: it breaks out of the loop, or carries \<open>made_progress\<close>.\<close>

datatype flow = Break | Progress bool

definition run_read :: "nat \<Rightarrow> tick \<Rightarrow> run_state \<Rightarrow> (flow \<times> run_state) option option" where
  "run_read fuel tk rs =
     (case stream_read MAX_PACKET_LENGTH (rs_stream rs) of
        (Inr data, s) \<Rightarrow>
          if data = [] then Some (Some (Break, rs\<lparr>rs_stream := s, rs_client := cl_close (rs_client rs)\<rparr>))
          else (case feed_device_data fuel (tk_feed tk) data (rs_client rs) of
              None \<Rightarrow> None
            | Some None \<Rightarrow> Some None
            | Some (Some (_, cl)) \<Rightarrow>
                Some (case cl_poll_network_connections (tk_poll_after_feed tk) cl of
                    None \<Rightarrow> None
                  | Some cl' \<Rightarrow> Some (Progress True, rs\<lparr>rs_stream := s, rs_client := cl'\<rparr>)))
      | (Inl e, s) \<Rightarrow>
          Some (Some (if e = WouldBlock then (Progress False, rs\<lparr>rs_stream := s\<rparr>)
            else (Break, rs\<lparr>rs_stream := s, rs_client := cl_close (rs_client rs)\<rparr>))))"

definition run_cleanup :: "tick \<Rightarrow> run_state \<Rightarrow> run_state" where
  "run_cleanup tk rs =
     (if 5 \<le> as_secs (duration_since (tk_now tk) (rs_last_cleanup rs))
      then rs\<lparr>rs_client := cl_clean_expired_connections (tk_cleanup tk) (rs_client rs),
              rs_last_cleanup := tk_now tk\<rparr>
      else rs)"

definition run_flush :: "bool \<Rightarrow> run_state \<Rightarrow> (flow \<times> run_state) option" where
  "run_flush made_progress rs = do {
     (outgoing, cl) \<leftarrow> drain_outgoing (rs_client rs);
     let pending = rs_pending_outgoing rs @ outgoing;
     let rs1 = rs\<lparr>rs_client := cl, rs_pending_outgoing := pending\<rparr>;
     Some (if pending \<noteq> [] then
         (case write_partial pending (rs_stream rs) of
            (Inr n, s) \<Rightarrow>
              (Progress (n \<noteq> 0 \<or> made_progress),
               rs1\<lparr>rs_stream := s, rs_pending_outgoing := drop n pending\<rparr>)
          | (Inl e, s) \<Rightarrow> (Break, rs1\<lparr>rs_stream := s\<rparr>))
       else (Progress made_progress, rs1))
   }"

definition run_iteration :: "nat \<Rightarrow> tick \<Rightarrow> run_state \<Rightarrow> (flow \<times> run_state) option option" where
  "run_iteration fuel tk rs =
     (if cl_closed (rs_client rs) \<or> cl_signalled (rs_client rs) then Some (Some (Break, rs))
      else case run_read fuel tk rs of
        None \<Rightarrow> None
      | Some None \<Rightarrow> Some None
      | Some (Some (Break, rs1)) \<Rightarrow> Some (Some (Break, rs1))
      | Some (Some (Progress made_progress, rs1)) \<Rightarrow>
          Some (do {
            cl \<leftarrow> (if \<not> cl_closed (rs_client rs1)
              then cl_poll_network_connections (tk_poll tk) (rs_client rs1)
              else Some (rs_client rs1));
            run_flush made_progress (run_cleanup tk (rs1\<lparr>rs_client := cl\<rparr>))
          }))"

text \<open>The loop over a sequence of ticks; \<open>Progress\<close> means that it still runs.\<close>

fun run_loop :: "nat \<Rightarrow> tick list \<Rightarrow> run_state \<Rightarrow> (flow \<times> run_state) option option" where
  "run_loop fuel [] rs = Some (Some (Progress False, rs))"
| "run_loop fuel (tk # tks) rs =
     (case run_iteration fuel tk rs of
        None \<Rightarrow> None
      | Some None \<Rightarrow> Some None
      | Some (Some (Break, rs1)) \<Rightarrow> Some (Some (Break, rs1))
      | Some (Some (Progress _, rs1)) \<Rightarrow> run_loop fuel tks rs1)"

subsection \<open>The helpers\<close>

text \<open>A socket that takes bytes, or makes the caller wait, until its script ends.\<close>

definition tx_waits :: "stream \<Rightarrow> bool" where
  "tx_waits s \<longleftrightarrow> list_all (\<lambda>r. case r of Inl e \<Rightarrow> e = WouldBlock | Inr n \<Rightarrow> 0 < n) (tx s)"

definition tx_accepts :: "stream \<Rightarrow> nat" where
  "tx_accepts s = length (filter (\<lambda>r. r \<noteq> Inl WouldBlock) (tx s))"

text \<open>\<open>write_all\<close> returns once the socket has taken everything, in order, however it splits it and
  however often it says \<open>WouldBlock\<close>.\<close>

lemma cl_write_all_ok:
  assumes "tx_waits s" "length buf - offset \<le> tx_accepts s"
  shows "\<exists>s'. cl_write_all offset buf s = Some (Inr (), s') \<and> sent_bytes s' = sent_bytes s @ drop offset buf \<and>
    rx s' = rx s"
  using assms
proof (induction "length (tx s)" arbitrary: s offset)
  case 0
  then have "length buf \<le> offset" by (simp add: tx_accepts_def)
  then show ?case by (subst cl_write_all.simps) simp
next
  case (Suc n)
  show ?case
  proof (cases "offset < length buf")
    case False
    then show ?thesis by (subst cl_write_all.simps) simp
  next
    case True
    obtain r t where tx: "tx s = r # t" using Suc.hyps(2) by (cases "tx s") auto
    show ?thesis
    proof (cases r)
      case (Inl e)
      then have e: "e = WouldBlock" using Suc.prems(1) tx by (simp add: tx_waits_def)
      have "\<exists>s'. cl_write_all offset buf (s\<lparr>tx := t\<rparr>) = Some (Inr (), s') \<and>
          sent_bytes s' = sent_bytes (s\<lparr>tx := t\<rparr>) @ drop offset buf \<and> rx s' = rx (s\<lparr>tx := t\<rparr>)"
        using Suc.hyps(2) Suc.prems tx Inl e
        by (intro Suc.hyps(1)) (simp_all add: tx_waits_def tx_accepts_def)
      then show ?thesis
        using True tx Inl e by (subst cl_write_all.simps) (simp add: stream_write.simps)
    next
      case (Inr k)
      then have k: "0 < k" using Suc.prems(1) tx by (simp add: tx_waits_def)
      let ?k = "min k (length buf - offset)"
      let ?s = "s\<lparr>tx := t, sent := sent s @ [take ?k (drop offset buf)]\<rparr>"
      have "\<exists>s'. cl_write_all (offset + ?k) buf ?s = Some (Inr (), s') \<and>
          sent_bytes s' = sent_bytes ?s @ drop (offset + ?k) buf \<and> rx s' = rx ?s"
        using Suc.hyps(2) Suc.prems tx Inr k True
        by (intro Suc.hyps(1)) (auto simp: tx_waits_def tx_accepts_def)
      moreover have "take ?k (drop offset buf) @ drop (offset + ?k) buf = drop offset buf"
        by (metis append_take_drop_id drop_drop add.commute)
      ultimately show ?thesis
        using True tx Inr k by (subst cl_write_all.simps) (auto simp: stream_write.simps)
    qed
  qed
qed

lemma write_partial_sent:
  assumes "write_partial buf s = (r, s')"
  shows "rx s' = rx s"
    and "r = Inr n \<Longrightarrow> n \<le> length buf \<and> sent_bytes s' = sent_bytes s @ take n buf"
    and "r = Inl e \<Longrightarrow> sent_bytes s' = sent_bytes s \<and> e \<noteq> WouldBlock"
  using assms by (auto simp: write_partial_def stream_write_rx stream_write_sent
    dest: stream_write_le stream_write_error_sent split: prod.splits sum.splits if_splits)

subsection \<open>Draining\<close>

text \<open>A buffer that has not wrapped is drained completely.\<close>

lemma drain_outgoing_ok:
  assumes b: "sb_wf (cl_network_to_client cl)" "sb_tail (cl_network_to_client cl) = 0"
  obtains b' where "drain_outgoing cl = Some (sb_content (cl_network_to_client cl),
      cl\<lparr>cl_network_to_client := b'\<rparr>)"
    "sb_wf b'" "sb_tail b' = 0" "sb_content b' = []" "sb_capacity b' = sb_capacity (cl_network_to_client cl)"
proof (cases "sb_head (cl_network_to_client cl) = 0")
  case True
  then show ?thesis
    using that [of "cl_network_to_client cl"] b by (simp add: drain_outgoing_def sb_size_def sb_content_def)
next
  case False
  let ?b = "cl_network_to_client cl"
  have l: "sb_head ?b < length (sb_buf ?b)" using b(1) by (simp add: sb_wf_def)
  then have "sb_buf ?b \<noteq> []" by auto
  have c: "sb_content ?b = take (sb_head ?b) (sb_buf ?b)" "sb_size ?b = sb_head ?b"
    using b(2) by (simp_all add: sb_content_def sb_size_def)
  have "sb_write_to ?b \<lparr>rx = [], tx = [Inr (sb_head ?b)], sent = []\<rparr> =
      Some (Inr (sb_head ?b), ?b\<lparr>sb_head := 0, sb_tail := 0\<rparr>,
        \<lparr>rx = [], tx = [], sent = [take (sb_head ?b) (sb_buf ?b)]\<rparr>)"
    using False b(2) l by (simp add: sb_write_to_def slice_simps stream_write.simps sb_optimize_def sb_is_empty_def)
  then show ?thesis
    using that [of "?b\<lparr>sb_head := 0, sb_tail := 0\<rparr>"] False c l \<open>sb_buf ?b \<noteq> []\<close>
    by (simp add: drain_outgoing_def sb_wf_def sb_content_def sb_capacity_def Let_def)
qed

text \<open>On a wrapped one, only the run up to the end of the array is drained, and the vector is filled
  up with zeros that were never queued.\<close>

lemma drain_wrapped_pads:
  assumes b: "sb_wf (cl_network_to_client cl)"
    and w: "sb_head (cl_network_to_client cl) < sb_tail (cl_network_to_client cl)"
  obtains cl' where "drain_outgoing cl = Some (drop (sb_tail (cl_network_to_client cl))
      (sb_buf (cl_network_to_client cl)) @ replicate (sb_head (cl_network_to_client cl)) 0, cl')"
    "sb_content (cl_network_to_client cl') =
      take (sb_head (cl_network_to_client cl)) (sb_buf (cl_network_to_client cl))"
proof -
  let ?b = "cl_network_to_client cl"
  let ?run = "drop (sb_tail ?b) (sb_buf ?b)"
  have l: "sb_tail ?b < length (sb_buf ?b)" using b by (simp add: sb_wf_def)
  have sz: "sb_size ?b = sb_head ?b + length ?run" using w l by (simp add: sb_size_def)
  let ?s = "\<lparr>rx = [], tx = [Inr (sb_size ?b)], sent = []\<rparr>"
  have run: "stream_write ?run ?s = (Inr (length ?run), \<lparr>rx = [], tx = [], sent = [?run]\<rparr>)"
    using sz by (simp add: stream_write.simps)
  have ne: "sb_head ?b \<noteq> sb_tail ?b" and nw: "\<not> sb_tail ?b < sb_head ?b" using w by simp_all
  obtain b' where b': "sb_write_to ?b ?s = Some (Inr (length ?run), b', \<lparr>rx = [], tx = [], sent = [?run]\<rparr>)"
    "sb_content b' = drop (length ?run) (sb_content ?b)"
    using sb_write_to_run(2) [OF b ne, unfolded if_not_P [OF nw], OF run] by blast
  have "sb_content b' = take (sb_head ?b) (sb_buf ?b)"
    using b'(2) w by (simp add: sb_content_def)
  then show ?thesis
    using that [of "cl\<lparr>cl_network_to_client := b'\<rparr>"] b'(1) sz l by (simp add: drain_outgoing_def Let_def)
qed

end
