(* ===== verification/Client_Loop.thy ===== *)
theory Client_Loop
  imports Client
begin

text \<open>
  What the client as a whole guarantees: its packets do not depend on how the device's bytes arrive,
  no step of the loop panics, and the device receives only whole, valid packets, in order.
\<close>

subsection \<open>Datagrams that fit behind the headers\<close>

definition short_datagrams :: "stream \<Rightarrow> bool" where
  "short_datagrams s \<longleftrightarrow> (\<forall>bs. Inr bs \<in> set (rx s) \<longrightarrow> length bs \<le> 65467)"

definition short_world :: "world \<Rightarrow> bool" where
  "short_world w \<longleftrightarrow> (\<forall>a d s. w_udp_open w a d = Inr s \<longrightarrow> short_datagrams s)"

lemma short_deliverable:
  assumes "uc_wf c" "short_datagrams (uc_socket c)"
  shows "uc_deliverable c"
proof -
  let ?pk = "uc_network_to_client c"
  have pk: "pk_wf ?pk" "td_is_udp (pk_transport ?pk)" using assms(1) by (simp_all add: uc_wf_def)
  then obtain d where "pk_transport ?pk = TdUdp d" by (cases "pk_transport ?pk") auto
  moreover have "unat (hd_header_length (pk_ip ?pk)) \<le> 60"
  proof (cases "pk_ip ?pk")
    case (HdV4 v4)
    then show ?thesis using pk(1) by (auto simp: pk_wf_def dest: ipv4_header_length_bound(2))
  qed simp
  ultimately have "pk_payload_index ?pk \<le> 68" using pk(1) by (auto simp: pk_wf_def)
  then show ?thesis
    using assms(2) by (fastforce simp: uc_deliverable_def short_datagrams_def MAX_PACKET_LENGTH_def)
qed

text \<open>\<open>cn_steady True\<close>: moreover, no packet for the device is deferred.\<close>

definition cn_steady :: "bool \<Rightarrow> connection \<Rightarrow> bool" where
  "cn_steady k connection \<longleftrightarrow> cn_deliverable connection \<and>
     (k \<longrightarrow> (case connection of CTcp c \<Rightarrow> tc_packet_for_client_length c = None | CUdp _ \<Rightarrow> True))"

lemma cn_send_steady:
  assumes run: "cn_send_to_network w p (connection, b) = Some (connection', b')"
    and s: "cn_steady k connection" and ok: "cn_ok cid connection" "out_wf b" and p: "routable p"
    and t: "snd (ip_headers_data p) = Some td"
    and cid: "ci_protocol cid = hd_protocol (fst (ip_headers_data p))"
  shows "cn_steady k connection'"
proof (cases connection)
  case (CTcp c)
  then have c: "tc_wf c" "ci_protocol cid = Tcp" using ok(1) by (simp_all add: cn_ok_def)
  have wf: "packet_wf p" using p by (simp add: routable_def)
  obtain payload where pl: "ip_payload p = Some (Some payload)" by (rule packet_wf_payload [OF wf t])
  have "\<not> td_is_udp td" using p t cid c(2) by (auto simp: routable_def split: if_splits)
  then obtain h where h: "td = TdTcp h" by (cases td) auto
  have "tcp_packet h payload p" using wf t h pl by (simp add: tcp_packet_def)
  moreover have "cfg_inv k (c, b)"
    using c ok(2) s CTcp by (simp add: cfg_inv_def cfg_wf_def cn_steady_def)
  ultimately have "step_ok k b (handle_packet (w_random w) p (c, b))"
    using handle_packet_step by blast
  then show ?thesis
    using run CTcp by (auto simp: step_ok_def cfg_inv_def cn_steady_def cn_deliverable_def
      split: option.splits Option.bind_splits)
next
  case (CUdp c)
  then show ?thesis
    using run s by (auto simp: cn_steady_def cn_deliverable_def uc_send_to_network_def
      uc_deliverable_def split: Option.bind_splits option.splits)
qed

lemma map_sum_Inr_iff: "map_sum f g x = Inr y \<longleftrightarrow> (\<exists>z. x = Inr z \<and> y = g z)"
  by (cases x) auto

lemma rt_create_steady:
  assumes "rt_create_connection w cid p = Some (Inr connection)" "cn_ok cid connection" "short_world w"
  shows "cn_steady k connection"
proof (cases connection)
  case (CUdp c)
  have "short_datagrams (uc_socket c)"
    using assms(1,3) CUdp by (auto simp: rt_create_connection_def udp_create_def udp_create_socket_def
      short_world_def map_sum_Inr_iff Let_def simp del: split_paired_All
      split: Option.bind_splits option.splits protocol.splits sum.splits)
  then show ?thesis using assms(2) CUdp short_deliverable
    by (simp add: cn_steady_def cn_deliverable_def cn_ok_def)
next
  case (CTcp c)
  then show ?thesis
    using assms(1) by (auto simp: rt_create_connection_def tcp_create_def cn_steady_def cn_deliverable_def
      map_sum_Inr_iff Let_def split: Option.bind_splits option.splits protocol.splits sum.splits
      transport_header.splits)
qed

abbreviation steady :: "bool \<Rightarrow> router \<Rightarrow> bool" where
  "steady k rt \<equiv> all_entries (\<lambda>_. cn_steady k) (rt_connections rt)"

lemma rt_send_steady:
  assumes rt: "rt_ok rt" "steady k rt" and p: "routable p" and w: "short_world w"
    and b: "out_wf b" and run: "rt_send_to_network w p (rt, b) = Some (rt', b')"
  shows "steady k rt'"
proof (cases "flow_id p (rt_client_label rt)")
  case None
  then show ?thesis using rt_send_no_flow [OF None run] rt(2) by simp
next
  case (Some cid)
  let ?rt = "rt_purge (w_now w) rt"
  note f = rt_send_flow [OF Some]
  obtain td where td: "snd (ip_headers_data p) = Some td" using f(3) by blast
  show ?thesis
  proof (cases "cid \<in> fst ` set (rt_recently_closed ?rt)")
    case True
    then show ?thesis using run f(1) rt(2) by auto
  next
    case False
    then have r: "rt_route w cid p (?rt, b) = Some (rt', b')" using run f(1) by simp
    have in_tab: "cn_steady k connection \<and> cn_ok cid connection" if "map_of (rt_connections rt) cid = Some connection" for connection
      using map_of_SomeD [OF that] rt by (auto simp: rt_ok_def)
    have keep: "all_entries (\<lambda>_. cn_steady k) (AList.update cid connection (rt_connections rt))"
      if "cn_steady k connection" for connection
      using that rt(2) set_AList_update [of cid connection "rt_connections rt"] by auto
    have less: "all_entries (\<lambda>_. cn_steady k) (AList.delete cid (rt_connections rt))"
      using rt(2) set_AList_delete [of cid "rt_connections rt"] by auto
    have new: "cn_steady k connection \<and> cn_ok cid connection" if "rt_create_connection w cid p = Some (Inr connection)" for connection
    proof -
      obtain r where "rt_create_connection w cid p = Some r"
        "\<And>connection. r = Inr connection \<Longrightarrow> cn_ok cid connection"
        by (rule rt_create_connection_ok [OF p td f(2)]) blast
      then show ?thesis using that rt_create_steady [OF that _ w] by simp
    qed
    show ?thesis
    proof (cases "map_of (rt_connections rt) cid")
      case (Some connection)
      then obtain connection' where "cn_send_to_network w p (connection, b) = Some (connection', b')"
        "rt_connections rt' = AList.update cid connection' (rt_connections rt) \<or>
         rt_connections rt' = AList.delete cid (rt_connections rt)"
        using r by (auto simp: rt_route_def split: Option.bind_splits if_splits)
      moreover from this(1) have "cn_steady k connection'"
        using cn_send_steady in_tab [OF Some] b p td f(2) by blast
      ultimately show ?thesis using keep less by metis
    next
      case None
      then consider "rt' = ?rt"
        | connection connection' where "rt_create_connection w cid p = Some (Inr connection)"
          "cn_send_to_network w p (connection, b) = Some (connection', b')"
          "rt_connections rt' = AList.update cid connection' (rt_connections rt)"
        using r by (auto simp: rt_route_def split: Option.bind_splits if_splits sum.splits)
      then show ?thesis
      proof cases
        case 1
        then show ?thesis using rt(2) by simp
      next
        case (2 connection connection')
        then have "cn_steady k connection'" using new cn_send_steady b p td f(2) by blast
        then show ?thesis using keep 2(3) by metis
      qed
    qed
  qed
qed

subsection \<open>The invariant of a client\<close>

definition cl_ok :: "bool \<Rightarrow> client \<Rightarrow> bool" where
  "cl_ok k cl \<longleftrightarrow> rt_ok (cl_router cl) \<and> steady k (cl_router cl) \<and> out_wf (cl_network_to_client cl) \<and>
     pb_ok (cl_client_to_network cl) \<and> partial (pb_content (cl_client_to_network cl))"

fun route_all :: "(nat \<Rightarrow> world) \<Rightarrow> nat \<Rightarrow> ip_packet list \<Rightarrow> rt_cfg \<Rightarrow> rt_cfg option" where
  "route_all ws n [] cfg = Some cfg"
| "route_all ws n (p # ps) cfg = do { cfg' \<leftarrow> rt_send_to_network (ws n) p cfg; route_all ws (n + 1) ps cfg' }"

lemma route_all_append:
  "route_all ws n (ps @ qs) cfg =
     do { cfg' \<leftarrow> route_all ws n ps cfg; route_all ws (n + length ps) qs cfg' }"
  by (induction ps arbitrary: n cfg) (simp_all split: Option.bind_split)

lemma route_all_shift: "route_all (\<lambda>k. ws (m + k)) n ps cfg = route_all ws (m + n) ps cfg"
  by (induction ps arbitrary: n cfg) (simp_all split: Option.bind_split)

lemma route_all_ok:
  assumes "rt_ok rt" "steady k rt" "out_wf b" "list_all routable ps" "\<And>k. short_world (ws k)"
  shows "\<exists>rt' b'. route_all ws n ps (rt, b) = Some (rt', b') \<and> rt_ok rt' \<and> steady k rt' \<and>
    out_wf b' \<and> queues b b'"
  using assms
proof (induction ps arbitrary: n rt b)
  case (Cons p ps)
  have p: "routable p" using Cons.prems(4) by simp
  obtain rt1 b1 where 1: "rt_send_to_network (ws n) p (rt, b) = Some (rt1, b1)" "rt_ok rt1" "out_wf b1"
    "queues b b1"
    by (rule rt_send_to_network_ok [OF Cons.prems(1,3) p])
  have "steady k rt1" by (rule rt_send_steady [OF Cons.prems(1,2) p Cons.prems(5,3) 1(1)])
  then show ?case
    using Cons.IH [of rt1 b1 "n + 1"] 1 Cons.prems(4,5) queues_trans by fastforce
qed simp

text \<open>The loop is: cut, then route.\<close>

lemma feed_loop_cut:
  assumes "cut as_ip_packet pb_next pb_skip_malformed fuel (cl_client_to_network cl) = Some (Some (ps, q'))"
  shows "feed_loop fuel ws count cl =
    Some (do {
      (rt, b) \<leftarrow> route_all ws count ps (cl_router cl, cl_network_to_client cl);
      Some (count + length ps, cl\<lparr>cl_router := rt, cl_network_to_client := b, cl_client_to_network := q'\<rparr>)
    })"
  using assms
proof (induction fuel arbitrary: cl ps count)
  case (Suc fuel)
  consider (packet) p where "as_ip_packet (cl_client_to_network cl) = Some (Some p)"
    | (none) "as_ip_packet (cl_client_to_network cl) = Some None"
    using Suc.prems by (auto split: option.splits)
  then show ?case
  proof cases
    case packet
    then obtain q ps1 where q: "pb_next (cl_client_to_network cl) = Some q"
      "cut as_ip_packet pb_next pb_skip_malformed fuel q = Some (Some (ps1, q'))" "ps = p # ps1"
      using Suc.prems by (auto split: option.splits)
    show ?thesis
    proof (cases "rt_send_to_network (ws count) p (cl_router cl, cl_network_to_client cl)")
      case None
      then show ?thesis using packet q by simp
    next
      case (Some cfg)
      obtain rt b where "cfg = (rt, b)" by fastforce
      then show ?thesis
        using packet q Some Suc.IH [of "cl\<lparr>cl_router := rt, cl_network_to_client := b,
          cl_client_to_network := q\<rparr>" ps1 "count + 1"]
        by (simp split: Option.bind_split)
    qed
  next
    case none
    then obtain more q where s: "pb_skip_malformed (cl_client_to_network cl) = Some (more, q)"
      using Suc.prems by (auto split: option.splits)
    show ?thesis
    proof (cases more)
      case True
      then show ?thesis
        using none s Suc.prems Suc.IH [of "cl\<lparr>cl_client_to_network := q\<rparr>" ps count]
        by (simp split: Option.bind_split)
    next
      case False
      then show ?thesis using none s Suc.prems by simp
    qed
  qed
qed simp

subsection \<open>Feeding\<close>

lemma frames_routable:
  assumes "list_all (\<lambda>p. packet_wf p \<and>
    names_transport (hd_protocol (fst (ip_headers_data p))) (snd (ip_headers_data p))) ps"
  shows "list_all routable ps"
  using assms by (auto simp: list_all_iff routable_def names_transport_def split: option.splits)

text \<open>A chunk that completes some items: their packets are routed in order, and the partial frame
  waits for the next chunk.\<close>

lemma feed_ok:
  assumes ok: "cl_ok k cl" and data: "data \<noteq> []"
    and bytes: "pb_content (cl_client_to_network cl) @ data = items_bytes items @ tail"
    and items: "list_all item_ok items" "partial tail" "length items < fuel"
    and fits: "length (pb_content (cl_client_to_network cl)) + length data \<le> MAX_PACKET_LENGTH"
    and ws: "\<And>k. short_world (ws k)"
  obtains ps cl' where "feed_device_data fuel ws data cl = Some (Some (length ps, cl'))" "cl_ok k cl'"
    "map ip_raw ps = items_frames items" "list_all routable ps"
    "pb_content (cl_client_to_network cl') = tail"
    "route_all ws 0 ps (cl_router cl, cl_network_to_client cl) =
      Some (cl_router cl', cl_network_to_client cl')"
    "queues (cl_network_to_client cl) (cl_network_to_client cl')"
    "cl_closed cl' = cl_closed cl" "cl_signalled cl' = cl_signalled cl"
proof -
  have o: "rt_ok (cl_router cl)" "steady k (cl_router cl)" "out_wf (cl_network_to_client cl)"
    "pb_ok (cl_client_to_network cl)"
    using ok by (simp_all add: cl_ok_def)
  obtain q where q: "pb_read_from \<lparr>rx = [Inr data], tx = [], sent = []\<rparr> (cl_client_to_network cl) =
      Some (Inr (data \<noteq> []), \<lparr>rx = [], tx = [], sent = []\<rparr>, q)"
    "pb_ok q" "pb_content q = pb_content (cl_client_to_network cl) @ data"
    by (rule pb_read_from_ok [OF o(4) fits])
  have "pb_content q = items_bytes items @ tail" using q(3) bytes by simp
  then obtain ps q' where c: "cut as_ip_packet pb_next pb_skip_malformed fuel q = Some (Some (ps, q'))"
    "pb_ok q'" "pb_content q' = tail" "map ip_raw ps = items_frames items" "list_all routable ps"
    using pbs.cut_items [OF q(2) _ items] frames_routable by blast
  obtain rt' b' where r: "route_all ws 0 ps (cl_router cl, cl_network_to_client cl) = Some (rt', b')"
    "rt_ok rt'" "steady k rt'" "out_wf b'" "queues (cl_network_to_client cl) b'"
    using route_all_ok [where ws = ws and n = 0, OF o(1-3) c(5) ws] by blast
  have "feed_loop fuel ws 0 (cl\<lparr>cl_client_to_network := q\<rparr>) = Some (Some (length ps,
      cl\<lparr>cl_client_to_network := q', cl_router := rt', cl_network_to_client := b'\<rparr>))"
    using feed_loop_cut [of fuel "cl\<lparr>cl_client_to_network := q\<rparr>"] c(1) r(1) by simp
  then show ?thesis
    using that [of ps "cl\<lparr>cl_client_to_network := q', cl_router := rt', cl_network_to_client := b'\<rparr>"]
      q(1) data c r items(2) by (simp add: feed_device_data_def cl_ok_def)
qed

text \<open>Any cut of the stream into chunks falls into items and a partial one.\<close>

lemma partial_take: "partial tail \<Longrightarrow> partial (take k tail)"
proof (cases "tail = []")
  case False
  assume "partial tail"
  then obtain p n where "device_frame p" "n < length p" "tail = take n p"
    using False by (auto simp: partial_def)
  then have "take k tail = take (min k n) p" "min k n < length p" by simp_all
  then show ?thesis using \<open>device_frame p\<close> unfolding partial_def by blast
qed simp

lemma split_items:
  assumes "list_all item_ok items" "partial tail" "items_bytes items @ tail = c @ rest"
    and bound: "list_all (\<lambda>p. length p \<le> m) (items_frames items)" "length tail < m"
  shows "\<exists>items1 items2 tail1. items = items1 @ items2 \<and> c = items_bytes items1 @ tail1 \<and>
    partial tail1 \<and> length tail1 < m \<and> tail1 @ rest = items_bytes items2 @ tail \<and>
    (rest = [] \<longrightarrow> items2 = [] \<and> tail1 = tail)"
  using assms
proof (induction items arbitrary: c)
  case Nil
  then have "c = take (length c) tail" by simp
  then have "partial c" using partial_take Nil(2) by metis
  moreover have "length c \<le> length tail" using Nil(3) by (metis append_Nil concat.simps(1) length_append le_add1 list.map(1))
  ultimately show ?case using Nil
    by (intro exI [of _ "[]"] exI [of _ "[]"] exI [of _ c]) auto
next
  case (Cons i items)
  let ?p = "item_bytes i"
  show ?case
  proof (cases "length c < length ?p")
    case True
    then have c: "c = take (length c) ?p"
      using Cons.prems(3) by (auto simp: append_eq_append_conv_if)
    have "partial c \<and> length c < m"
    proof (cases i)
      case (Junk x)
      then show ?thesis using True Cons.prems(5) by (simp add: partial_def)
    next
      case (Frame p)
      then show ?thesis using True c Cons.prems(1,4) by (auto simp: partial_def)
    qed
    moreover have "rest \<noteq> []" using True Cons.prems(3) by auto
    ultimately show ?thesis using Cons.prems(3)
      by (intro exI [of _ "[]"] exI [of _ "i # items"] exI [of _ c]) simp
  next
    case False
    then obtain c' where c': "c = ?p @ c'" "items_bytes items @ tail = c' @ rest"
      using False Cons.prems(3) append_eq_append_conv2 [of ?p "items_bytes items @ tail" c rest]
      by auto
    obtain items1 items2 tail1 where "items = items1 @ items2" "c' = items_bytes items1 @ tail1"
      "partial tail1" "length tail1 < m" "tail1 @ rest = items_bytes items2 @ tail"
      "rest = [] \<longrightarrow> items2 = [] \<and> tail1 = tail"
      using Cons.IH [of c'] Cons.prems c' by auto
    then show ?thesis using c'(1)
      by (intro exI [of _ "i # items1"] exI [of _ items2] exI [of _ tail1]) simp
  qed
qed

text \<open>Feeding the chunks one after the other.\<close>

fun feed_all :: "nat \<Rightarrow> (nat \<Rightarrow> world) \<Rightarrow> nat \<Rightarrow> byte list list \<Rightarrow> client \<Rightarrow> (nat \<times> client) option option" where
  "feed_all fuel ws n [] cl = Some (Some (n, cl))"
| "feed_all fuel ws n (c # cs) cl =
     (case feed_device_data fuel (\<lambda>k. ws (n + k)) c cl of
        None \<Rightarrow> None
      | Some None \<Rightarrow> Some None
      | Some (Some (count, cl')) \<Rightarrow> feed_all fuel ws (n + count) cs cl')"

text \<open>Whatever the chunks, as long as a chunk and the largest partial frame fit the buffer together,
  the packets are routed as if the whole stream had come at once.\<close>

lemma feed_all_ok:
  assumes "cl_ok k cl" "[] \<notin> set cs"
    and "pb_content (cl_client_to_network cl) @ concat cs = items_bytes items @ tail"
    and "list_all item_ok items" "partial tail" "length items < fuel"
    and "list_all (\<lambda>p. length p \<le> m) (items_frames items)" "length tail < m"
    and "length (pb_content (cl_client_to_network cl)) < m"
    and "\<forall>c \<in> set cs. m + length c \<le> MAX_PACKET_LENGTH + 1"
    and ws: "\<And>k. short_world (ws k)"
    and "cs = [] \<Longrightarrow> items = [] \<and> pb_content (cl_client_to_network cl) = tail"
  shows "\<exists>ps cl'. feed_all fuel ws n cs cl = Some (Some (n + length ps, cl')) \<and> cl_ok k cl' \<and>
    map ip_raw ps = items_frames items \<and> pb_content (cl_client_to_network cl') = tail \<and>
    route_all ws n ps (cl_router cl, cl_network_to_client cl) =
      Some (cl_router cl', cl_network_to_client cl')"
  using assms
proof (induction cs arbitrary: cl items n)
  case (Cons c cs)
  let ?pending = "pb_content (cl_client_to_network cl)"
  have all: "items_bytes items @ tail = (?pending @ c) @ concat cs" using Cons.prems(3) by simp
  obtain items1 items2 tail1 where s: "items = items1 @ items2" "?pending @ c = items_bytes items1 @ tail1"
    "partial tail1" "length tail1 < m" "tail1 @ concat cs = items_bytes items2 @ tail"
    "concat cs = [] \<longrightarrow> items2 = [] \<and> tail1 = tail"
    using split_items [OF Cons.prems(4,5) all Cons.prems(7,8)] by blast
  have i1: "list_all item_ok items1" "length items1 < fuel" "c \<noteq> []"
    "length ?pending + length c \<le> MAX_PACKET_LENGTH"
    using s(1) Cons.prems(2,4,6,9,10) by auto
  obtain ps1 cl1 where f: "feed_device_data fuel (\<lambda>k. ws (n + k)) c cl = Some (Some (length ps1, cl1))"
    "cl_ok k cl1" "map ip_raw ps1 = items_frames items1" "pb_content (cl_client_to_network cl1) = tail1"
    "route_all (\<lambda>k. ws (n + k)) 0 ps1 (cl_router cl, cl_network_to_client cl) =
      Some (cl_router cl1, cl_network_to_client cl1)"
    by (rule feed_ok [OF Cons.prems(1) i1(3) s(2) i1(1) s(3) i1(2,4) ws])
  have "\<exists>ps cl'. feed_all fuel ws (n + length ps1) cs cl1 = Some (Some (n + length ps1 + length ps, cl')) \<and>
      cl_ok k cl' \<and> map ip_raw ps = items_frames items2 \<and> pb_content (cl_client_to_network cl') = tail \<and>
      route_all ws (n + length ps1) ps (cl_router cl1, cl_network_to_client cl1) =
        Some (cl_router cl', cl_network_to_client cl')"
    using Cons.prems s f(2,4) by (intro Cons.IH) auto
  then obtain ps cl' where g: "feed_all fuel ws (n + length ps1) cs cl1 = Some (Some (n + length ps1 + length ps, cl'))"
    "cl_ok k cl'" "map ip_raw ps = items_frames items2" "pb_content (cl_client_to_network cl') = tail"
    "route_all ws (n + length ps1) ps (cl_router cl1, cl_network_to_client cl1) =
      Some (cl_router cl', cl_network_to_client cl')" by blast
  have "route_all ws n (ps1 @ ps) (cl_router cl, cl_network_to_client cl) =
      Some (cl_router cl', cl_network_to_client cl')"
    using f(5) g(5) by (simp add: route_all_append route_all_shift)
  then show ?case
    using f(1,3) g(1-4) s(1) by (intro exI [of _ "ps1 @ ps"] exI [of _ cl']) simp
qed simp

subsection \<open>The steps of an iteration\<close>

definition pending_free :: "client \<Rightarrow> bool" where
  "pending_free cl \<longleftrightarrow> all_entries (\<lambda>_. cn_pending_ok) (rt_connections (cl_router cl))"

definition drained :: "client \<Rightarrow> bool" where
  "drained cl \<longleftrightarrow> sb_tail (cl_network_to_client cl) = 0 \<and> sb_content (cl_network_to_client cl) = []"

lemma cl_ok_weaken: "cl_ok k cl \<Longrightarrow> cl_ok False cl"
  by (auto simp: cl_ok_def cn_steady_def)

lemma cl_ok_pending_free: "cl_ok True cl \<Longrightarrow> pending_free cl"
  by (fastforce simp: cl_ok_def cn_steady_def pending_free_def cn_pending_ok_def pending_ok_def
    split: connection.splits)

lemma cl_ok_create:
  assumes "cl_create i serial = Inr cl"
  shows "cl_ok True cl" "drained cl" "\<not> cl_closed cl" "\<not> cl_signalled cl" "rt_has_buffer (cl_router cl)"
    "pb_content (cl_client_to_network cl) = []"
proof -
  have "sb_tail (sb_new n) = 0" for n by (simp add: sb_new_def)
  then show "cl_ok True cl" "drained cl" "\<not> cl_closed cl" "\<not> cl_signalled cl"
    "rt_has_buffer (cl_router cl)" "pb_content (cl_client_to_network cl) = []"
    using assms by (auto simp: cl_create_def cl_ok_def drained_def rt_set_client_label_def
      rt_set_buffer_def rt_new_def rt_ok_def out_wf_def partial_def MAX_PACKET_LENGTH_def Let_def)
qed

lemma cl_close_ok [simp]:
  "cl_ok k cl \<Longrightarrow> cl_ok k (cl_close cl)" "drained (cl_close cl) \<longleftrightarrow> drained cl" "pending_free (cl_close cl)"
  by (auto simp: cl_ok_def drained_def pending_free_def cl_close_def rt_clear_def rt_ok_def)

lemma rt_remove_entries:
  assumes "rt_ok rt" "all_entries P (rt_connections rt)"
  shows "rt_ok (rt_remove now cid rt) \<and> all_entries P (rt_connections (rt_remove now cid rt))"
proof -
  have "all_entries P (AList.delete cid (rt_connections rt))"
    using assms(2) set_AList_delete [of cid "rt_connections rt"] by blast
  then show ?thesis using assms rt_ok_delete [OF assms(1), of cid] by (simp add: rt_remove_def)
qed

lemma rt_clean_entries:
  assumes "rt_ok rt" "all_entries P (rt_connections rt)"
  shows "rt_ok (rt_clean_expired_connections w rt) \<and>
    all_entries P (rt_connections (rt_clean_expired_connections w rt))"
proof -
  have "rt_ok (fold (rt_remove now) ids rt) \<and> all_entries P (rt_connections (fold (rt_remove now) ids rt))"
    for now ids
    using assms
  proof (induction ids arbitrary: rt)
    case (Cons i ids)
    show ?case
      unfolding fold_simps using rt_remove_entries [OF Cons.prems, of now i] by (intro Cons.IH) blast+
  qed simp
  then show ?thesis by (simp add: rt_clean_expired_connections_def)
qed

lemma cl_clean_ok:
  assumes "cl_ok k cl"
  shows "cl_ok k (cl_clean_expired_connections w cl)"
    "pending_free cl \<Longrightarrow> pending_free (cl_clean_expired_connections w cl)"
    "cl_network_to_client (cl_clean_expired_connections w cl) = cl_network_to_client cl"
proof -
  have o: "rt_ok (cl_router cl)" "steady k (cl_router cl)" using assms by (simp_all add: cl_ok_def)
  show "cl_ok k (cl_clean_expired_connections w cl)"
    using rt_clean_entries [OF o, of w] assms by (simp add: cl_ok_def cl_clean_expired_connections_def)
  show "pending_free (cl_clean_expired_connections w cl)" if "pending_free cl"
    using rt_clean_entries [OF o(1) that [unfolded pending_free_def], of w]
    by (simp add: pending_free_def cl_clean_expired_connections_def)
qed (simp add: cl_clean_expired_connections_def)

lemma cl_poll_ok:
  assumes ok: "cl_ok k cl"
  obtains cl' where "cl_poll_network_connections w cl = Some cl'" "cl_ok False cl'"
    "cl_closed cl' = cl_closed cl"
    "pending_free cl \<Longrightarrow> pending_free cl' \<and> queues (cl_network_to_client cl) (cl_network_to_client cl')"
proof -
  have o: "rt_ok (cl_router cl)" "all_entries (\<lambda>_. cn_deliverable) (rt_connections (cl_router cl))"
    "out_wf (cl_network_to_client cl)"
    using ok by (auto simp: cl_ok_def cn_steady_def)
  obtain rt' b' where p: "rt_poll_connections w (cl_router cl, cl_network_to_client cl) = Some (rt', b')"
    "rt_ok rt'" "out_wf b'" "all_entries (\<lambda>_. cn_deliverable) (rt_connections rt')"
    "all_entries (\<lambda>_. cn_pending_ok) (rt_connections (cl_router cl)) \<Longrightarrow>
       all_entries (\<lambda>_. cn_pending_ok) (rt_connections rt') \<and> queues (cl_network_to_client cl) b'"
    by (rule rt_poll_ok [where w = w, OF o]) blast
  show ?thesis
    by (rule that [of "cl\<lparr>cl_router := rt', cl_network_to_client := b'\<rparr>"])
      (use p ok in \<open>auto simp: cl_poll_network_connections_def cl_ok_def cn_steady_def pending_free_def\<close>)
qed

lemma drain_total:
  assumes "out_wf (cl_network_to_client cl)"
  obtains out b' where "drain_outgoing cl = Some (out, cl\<lparr>cl_network_to_client := b'\<rparr>)" "out_wf b'"
proof (cases "sb_size (cl_network_to_client cl) = 0")
  case True
  then show ?thesis
    using that [of "[]" "cl_network_to_client cl"] assms by (simp add: drain_outgoing_def)
next
  case False
  have "sb_wf (cl_network_to_client cl)" using assms by (simp add: out_wf_def)
  from sb_write_to_ok [OF this, of "\<lparr>rx = [], tx = [Inr (sb_size (cl_network_to_client cl))], sent = []\<rparr>"]
  show ?thesis using that False assms by (auto simp: drain_outgoing_def out_wf_def Let_def)
qed

text \<open>The end of an iteration: what was drained goes behind what is pending, and the socket takes a
  part of it from the front.\<close>

lemma run_flush_ok:
  assumes ok: "cl_ok k (rs_client rs)"
  obtains fl rs' where "run_flush made rs = Some (fl, rs')" "cl_ok k (rs_client rs')"
    "cl_router (rs_client rs') = cl_router (rs_client rs)"
    "sb_tail (cl_network_to_client (rs_client rs)) = 0 \<longrightarrow> drained (rs_client rs') \<and>
      sent_bytes (rs_stream rs') @ (if fl = Break then [] else rs_pending_outgoing rs') =
      sent_bytes (rs_stream rs) @ (if fl = Break then [] else
        rs_pending_outgoing rs @ sb_content (cl_network_to_client (rs_client rs)))"
proof -
  let ?cl = "rs_client rs" and ?b = "cl_network_to_client (rs_client rs)"
  have o: "out_wf ?b" using ok by (simp add: cl_ok_def)
  obtain out b' where d: "drain_outgoing ?cl = Some (out, ?cl\<lparr>cl_network_to_client := b'\<rparr>)" "out_wf b'"
    by (rule drain_total [OF o])
  have c: "sb_tail b' = 0 \<and> sb_content b' = [] \<and> out = sb_content ?b" if "sb_tail ?b = 0"
  proof -
    have "sb_wf ?b" using o by (simp add: out_wf_def)
    then show ?thesis
      by (rule drain_outgoing_ok [OF _ that]) (use d(1) in \<open>auto dest!: arg_cong [where f = cl_network_to_client]\<close>)
  qed
  define X where "X = rs_pending_outgoing rs @ out"
  obtain r s' where w: "write_partial X (rs_stream rs) = (r, s')" by fastforce
  define fl where "fl = (if X = [] then Progress made
    else case r of Inl e \<Rightarrow> Break | Inr n \<Rightarrow> Progress (n \<noteq> 0 \<or> made))"
  define rs' where "rs' = rs\<lparr>rs_client := ?cl\<lparr>cl_network_to_client := b'\<rparr>,
    rs_stream := (if X = [] then rs_stream rs else s'),
    rs_pending_outgoing := (case r of Inl e \<Rightarrow> X | Inr n \<Rightarrow> drop n X)\<rparr>"
  have "run_flush made rs = Some (fl, rs')"
    using d(1) w by (cases "X = []"; cases r) (auto simp: run_flush_def X_def fl_def rs'_def Let_def)
  moreover have "cl_ok k (rs_client rs')" using ok d(2) by (simp add: rs'_def cl_ok_def)
  moreover have "cl_router (rs_client rs') = cl_router ?cl" by (simp add: rs'_def)
  moreover have "sb_tail ?b = 0 \<longrightarrow> drained (rs_client rs') \<and>
      sent_bytes (rs_stream rs') @ (if fl = Break then [] else rs_pending_outgoing rs') =
      sent_bytes (rs_stream rs) @ (if fl = Break then [] else rs_pending_outgoing rs @ sb_content ?b)"
  proof
    assume t: "sb_tail ?b = 0"
    have X: "rs_pending_outgoing rs @ sb_content ?b = X" using c [OF t] by (simp add: X_def)
    show "drained (rs_client rs') \<and>
      sent_bytes (rs_stream rs') @ (if fl = Break then [] else rs_pending_outgoing rs') =
      sent_bytes (rs_stream rs) @ (if fl = Break then [] else rs_pending_outgoing rs @ sb_content ?b)"
      unfolding X using c [OF t] write_partial_sent [OF w]
      by (auto simp: drained_def rs'_def fl_def split: sum.splits)
  qed
  ultimately show ?thesis by (rule that)
qed

subsection \<open>An iteration\<close>

text \<open>What the device sends completes items and leaves a partial frame, within the buffer.\<close>

definition device_sends :: "nat \<Rightarrow> run_state \<Rightarrow> bool" where
  "device_sends fuel rs \<longleftrightarrow>
     (let pending = pb_content (cl_client_to_network (rs_client rs)) in
      \<forall>data s. stream_read MAX_PACKET_LENGTH (rs_stream rs) = (Inr data, s) \<longrightarrow> data \<noteq> [] \<longrightarrow>
        length pending + length data \<le> MAX_PACKET_LENGTH \<and>
        (\<exists>items tail. pending @ data = items_bytes items @ tail \<and> list_all item_ok items \<and>
           partial tail \<and> length items < fuel))"

definition queued :: "client \<Rightarrow> client \<Rightarrow> bool" where
  "queued cl cl' \<longleftrightarrow> pending_free cl' \<and> queues (cl_network_to_client cl) (cl_network_to_client cl')"

lemma queued_trans: "queued cl cl1 \<Longrightarrow> queued cl1 cl2 \<Longrightarrow> queued cl cl2"
  by (auto simp: queued_def intro: queues_trans)

text \<open>Reading: a packet may clobber a deferred one, so the packets queued are known to be valid if
  none is deferred, or if nothing was read.\<close>

definition undisturbed :: "bool \<Rightarrow> run_state \<Rightarrow> bool" where
  "undisturbed k rs \<longleftrightarrow>
     k \<or> pending_free (rs_client rs) \<and> isl (fst (stream_read MAX_PACKET_LENGTH (rs_stream rs)))"

definition after_read :: "bool \<Rightarrow> run_state \<Rightarrow> flow \<times> run_state \<Rightarrow> bool" where
  "after_read k rs = (\<lambda>(fl, rs').
     cl_ok False (rs_client rs') \<and> rs_pending_outgoing rs' = rs_pending_outgoing rs \<and>
     sent (rs_stream rs') = sent (rs_stream rs) \<and>
     (undisturbed k rs \<longrightarrow> queued (rs_client rs) (rs_client rs')) \<and>
     (fl = Break \<longrightarrow> cl_network_to_client (rs_client rs') = cl_network_to_client (rs_client rs)))"

lemma queued_close: "queued cl (cl_close cl)"
  by (simp add: queued_def) (simp add: cl_close_def)

lemma after_read_close:
  assumes "cl_ok k (rs_client rs)" "sent s = sent (rs_stream rs)"
  shows "after_read k rs (Break, rs\<lparr>rs_stream := s, rs_client := cl_close (rs_client rs)\<rparr>)"
  using assms cl_ok_weaken queued_close by (simp add: after_read_def) (simp add: cl_close_def)

lemma run_read_ok:
  assumes ok: "cl_ok k (rs_client rs)" and dev: "device_sends fuel rs"
    and ws: "\<And>n. short_world (tk_feed tk n)"
  obtains res where "run_read fuel tk rs = Some (Some res)" "after_read k rs res"
proof -
  let ?cl = "rs_client rs"
  obtain r s where rd: "stream_read MAX_PACKET_LENGTH (rs_stream rs) = (r, s)" by fastforce
  have snt: "sent s = sent (rs_stream rs)" using rd by (rule stream_read_sent)
  consider (wait) "r = Inl WouldBlock" | (error) e where "r = Inl e" "e \<noteq> WouldBlock"
    | (eof) "r = Inr []" | (data) data where "r = Inr data" "data \<noteq> []"
    by (cases r) auto
  then show ?thesis
  proof cases
    case wait
    then have "undisturbed k rs \<Longrightarrow> pending_free ?cl"
      using ok cl_ok_pending_free by (auto simp: undisturbed_def)
    then have "after_read k rs (Progress False, rs\<lparr>rs_stream := s\<rparr>)"
      using ok cl_ok_weaken snt by (auto simp: after_read_def queued_def)
    then show ?thesis using that wait rd by (simp add: run_read_def)
  next
    case error
    then show ?thesis using that after_read_close [OF ok snt] rd by (simp add: run_read_def)
  next
    case eof
    then show ?thesis using that after_read_close [OF ok snt] rd by (simp add: run_read_def)
  next
    case data
    obtain items tail where d: "pb_content (cl_client_to_network ?cl) @ data = items_bytes items @ tail"
      "list_all item_ok items" "partial tail" "length items < fuel"
      "length (pb_content (cl_client_to_network ?cl)) + length data \<le> MAX_PACKET_LENGTH"
      using dev rd data by (auto simp: device_sends_def Let_def)
    obtain ps :: "ip_packet list" and cl1 where f: "feed_device_data fuel (tk_feed tk) data ?cl = Some (Some (length ps, cl1))"
      "cl_ok k cl1" "queues (cl_network_to_client ?cl) (cl_network_to_client cl1)"
      by (rule feed_ok [where ws = "tk_feed tk", OF ok data(2) d ws])
    obtain cl2 where p: "cl_poll_network_connections (tk_poll_after_feed tk) cl1 = Some cl2" "cl_ok False cl2"
      "pending_free cl1 \<Longrightarrow> pending_free cl2 \<and> queues (cl_network_to_client cl1) (cl_network_to_client cl2)"
      by (rule cl_poll_ok [where w = "tk_poll_after_feed tk", OF f(2)]) blast
    have "queued ?cl cl2" if "undisturbed k rs"
    proof -
      have "k" using that rd data(1) by (simp add: undisturbed_def)
      then have "pending_free cl1" using f(2) cl_ok_pending_free by simp
      then show ?thesis using p(3) f(3) queues_trans by (auto simp: queued_def)
    qed
    then have "after_read k rs (Progress True, rs\<lparr>rs_stream := s, rs_client := cl2\<rparr>)"
      using p(2) snt by (simp add: after_read_def)
    then show ?thesis using that f(1) p(1) rd data by (simp add: run_read_def)
  qed
qed

text \<open>A whole iteration never panics and keeps the invariant. If it is undisturbed and the buffer was
  drained, then the buffer is drained again, and what the device has been sent, with what is pending,
  grows by whole valid packets.\<close>

definition delivers :: "run_state \<Rightarrow> flow \<times> run_state \<Rightarrow> bool" where
  "delivers rs = (\<lambda>(fl, rs'). fl = Break \<or>
     drained (rs_client rs') \<and> pending_free (rs_client rs') \<and>
     (\<exists>ps. list_all sound_packet ps \<and>
        sent_bytes (rs_stream rs') @ rs_pending_outgoing rs' =
        sent_bytes (rs_stream rs) @ rs_pending_outgoing rs @ concat (map ip_raw ps)))"

lemma run_iteration_ok:
  assumes ok: "cl_ok k (rs_client rs)" and dev: "device_sends fuel rs"
    and ws: "\<And>n. short_world (tk_feed tk n)"
  obtains fl rs' where "run_iteration fuel tk rs = Some (Some (fl, rs'))" "cl_ok False (rs_client rs')"
    "undisturbed k rs \<Longrightarrow> drained (rs_client rs) \<Longrightarrow> delivers rs (fl, rs')"
proof (cases "cl_closed (rs_client rs) \<or> cl_signalled (rs_client rs)")
  case True
  then show ?thesis
    using that [of Break rs] ok cl_ok_weaken by (simp add: run_iteration_def delivers_def)
next
  case False
  obtain res where "run_read fuel tk rs = Some (Some res)" "after_read k rs res"
    by (rule run_read_ok [OF ok dev ws])
  moreover obtain fl1 rs1 where "res = (fl1, rs1)" by fastforce
  ultimately have 1: "run_read fuel tk rs = Some (Some (fl1, rs1))" "after_read k rs (fl1, rs1)" by simp_all
  then have ok1: "cl_ok False (rs_client rs1)" by (simp add: after_read_def)
  show ?thesis
  proof (cases fl1)
    case Break
    then show ?thesis using that [of Break rs1] False 1 ok1 by (simp add: run_iteration_def delivers_def)
  next
    case (Progress made)
    define cl_poll where "cl_poll = (if \<not> cl_closed (rs_client rs1)
      then cl_poll_network_connections (tk_poll tk) (rs_client rs1) else Some (rs_client rs1))"
    obtain cl2 where 2: "cl_poll = Some cl2" "cl_ok False cl2"
      "pending_free (rs_client rs1) \<Longrightarrow> queued (rs_client rs1) cl2"
    proof (cases "cl_closed (rs_client rs1)")
      case True
      then show ?thesis using that ok1 by (simp add: cl_poll_def queued_def)
    next
      case False
      then show ?thesis
        using cl_poll_ok [OF ok1, of "tk_poll tk"] that by (auto simp: cl_poll_def queued_def)
    qed
    define rs2 where "rs2 = run_cleanup tk (rs1\<lparr>rs_client := cl2\<rparr>)"
    have 3: "cl_ok False (rs_client rs2)" "rs_stream rs2 = rs_stream rs1"
      "rs_pending_outgoing rs2 = rs_pending_outgoing rs1"
      "cl_network_to_client (rs_client rs2) = cl_network_to_client cl2"
      "pending_free cl2 \<Longrightarrow> pending_free (rs_client rs2)"
      using 2(2) cl_clean_ok [OF 2(2)] by (simp_all add: rs2_def run_cleanup_def)
    obtain fl rs' where 4: "run_flush made rs2 = Some (fl, rs')" "cl_ok False (rs_client rs')"
      "cl_router (rs_client rs') = cl_router (rs_client rs2)"
      "sb_tail (cl_network_to_client (rs_client rs2)) = 0 \<longrightarrow> drained (rs_client rs') \<and>
        sent_bytes (rs_stream rs') @ (if fl = Break then [] else rs_pending_outgoing rs') =
        sent_bytes (rs_stream rs2) @ (if fl = Break then [] else
          rs_pending_outgoing rs2 @ sb_content (cl_network_to_client (rs_client rs2)))"
      by (rule run_flush_ok [where made = made, OF 3(1)])
    have "delivers rs (fl, rs')" if u: "undisturbed k rs" "drained (rs_client rs)"
    proof -
      have q: "queued (rs_client rs) (rs_client rs1)" "sent (rs_stream rs1) = sent (rs_stream rs)"
        "rs_pending_outgoing rs1 = rs_pending_outgoing rs"
        using 1(2) u(1) by (simp_all add: after_read_def)
      then have "queued (rs_client rs) cl2" using 2(3) queued_trans by (auto simp: queued_def)
      then obtain ps where ps: "list_all sound_packet ps" "pending_free cl2"
        "sb_tail (cl_network_to_client cl2) = 0" "sb_content (cl_network_to_client cl2) = concat (map ip_raw ps)"
        using u(2) by (auto simp: queued_def queues_def drained_def)
      then show ?thesis
        using 3 4(3,4) q(2,3) by (auto simp: delivers_def pending_free_def)
    qed
    moreover have "run_iteration fuel tk rs = Some (Some (fl, rs'))"
      using False 1(1) Progress 2(1) 4(1)
      by (simp add: run_iteration_def cl_poll_def [symmetric] rs2_def [symmetric])
    ultimately show ?thesis using that 4(2) by blast
  qed
qed

subsection \<open>The start\<close>

lemma run_start_ok:
  assumes "tx_waits s" "4 \<le> tx_accepts s"
  obtains rs where "run_start i serial now s = Some (Inr rs)" "cl_ok True (rs_client rs)"
    "drained (rs_client rs)" "\<not> cl_closed (rs_client rs)" "\<not> cl_signalled (rs_client rs)"
    "sent_bytes (rs_stream rs) = sent_bytes s @ bytes_of_u32 i" "rs_pending_outgoing rs = []"
    "rx (rs_stream rs) = rx s" "pb_content (cl_client_to_network (rs_client rs)) = []"
proof -
  have "length (bytes_of_u32 i) - 0 \<le> tx_accepts s" using assms(2) by simp
  from cl_write_all_ok [OF assms(1) this] obtain s' where s':
    "cl_write_all 0 (bytes_of_u32 i) s = Some (Inr (), s')"
    "sent_bytes s' = sent_bytes s @ bytes_of_u32 i" "rx s' = rx s" by auto
  obtain cl where cl: "cl_create i serial = Inr cl" by (simp add: cl_create_def Let_def)
  show ?thesis
    using that [of "\<lparr>rs_client = cl, rs_stream = s', rs_pending_outgoing = [], rs_last_cleanup = now\<rparr>"]
      s' cl cl_ok_create [OF cl] by (simp add: run_start_def)
qed

subsection \<open>What malformed and long input does\<close>

text \<open>A header that says length zero is never consumed: if the router ignores the packet the loop
  does not end, whatever the fuel.\<close>

lemma feed_loop_stuck:
  assumes "as_ip_packet (cl_client_to_network cl) = Some (Some p)"
    and "pb_next (cl_client_to_network cl) = Some (cl_client_to_network cl)"
    and "\<And>n. rt_send_to_network (ws n) p (cl_router cl, cl_network_to_client cl) =
      Some (cl_router cl, cl_network_to_client cl)"
  shows "feed_loop fuel ws count cl = None"
  using assms by (induction fuel arbitrary: count) simp_all

text \<open>\<open>zero_length h\<close>: an IPv4 header of 20 bytes, total length 0, of a protocol the relay does not
  know.\<close>

definition zero_length :: "byte list \<Rightarrow> bool" where
  "zero_length h \<longleftrightarrow> length h = 20 \<and> h ! 0 = 0x45 \<and> h ! 2 = 0 \<and> h ! 3 = 0 \<and>
     ipv4_protocol_of_byte (h ! 9) = Other"

lemma zero_length_parses:
  assumes "zero_length h"
  obtains q where "ip_packet_parse (h @ rest) = Some (Some (PkV4 q))" "p4_raw q = []"
    "p4_transport q = None" "v4_protocol (p4_ip q) = Other" "v4_total_length (p4_ip q) = 0"
proof -
  have h: "20 \<le> length (h @ rest)" "h \<noteq> []" "h ! 0 = 0x45" "h ! 2 = 0" "h ! 3 = 0"
    "ipv4_protocol_of_byte (h ! 9) = Other" "length h = 20"
    using assms by (auto simp: zero_length_def)
  obtain d where d: "ipv4_parse (h @ rest) = Some d" "v4_total_length d = 0" "v4_protocol d = Other"
    using h by (simp add: ipv4_parse_eq nth_append u16_of_bytes_def)
  have "unat (v4_header_length d) = 20"
    using ipv4_header_length_bound(1) [OF d(1)] h by (simp add: nth_append)
  then have "ipv4_packet_parse (h @ rest) = Some \<lparr>p4_raw = [], p4_ip = d, p4_transport = None\<rparr>"
    using d h(1) by (simp add: ipv4_packet_parse_def transport_parse_def slice_simps)
  then show ?thesis
    using that [of "\<lparr>p4_raw = [], p4_ip = d, p4_transport = None\<rparr>"] h d
    by (simp add: ip_packet_parse_def slice_simps nth_append)
qed

lemma bb_consume_zero: "bb_wf b \<Longrightarrow> bb_consume 0 b = Some b"
  by (cases b) (auto simp: bb_consume_def bb_wf_def slice_simps Let_def)

lemma zero_length_livelock:
  assumes b: "pb_ok (cl_client_to_network cl)" and c: "pb_content (cl_client_to_network cl) = h @ rest"
    and h: "zero_length h"
  shows "feed_loop fuel ws count cl = None"
proof -
  let ?b = "cl_client_to_network cl"
  obtain q where q: "ip_packet_parse (h @ rest) = Some (Some (PkV4 q))" "p4_transport q = None"
    "v4_protocol (p4_ip q) = Other"
    by (rule zero_length_parses [OF h])
  have "h \<noteq> []" "length h = 20" "h ! 0 = 0x45" "h ! 2 = 0" "h ! 3 = 0"
    using h by (auto simp: zero_length_def)
  then have a: "available_packet_info ?b = Some (Some (4, 0))"
    using b c by (simp add: available_packet_info_def pb_peek slice_simps nth_append u16_of_bytes_def)
  have "bb_wf (pb_buf ?b)" using b by (simp add: pb_ok_def pb_wf_def)
  then have "pb_next ?b = Some ?b" using a by (simp add: pb_next_def bb_consume_zero)
  moreover have "as_ip_packet ?b = Some (Some (PkV4 q))"
    using a b c q(1) by (simp add: as_ip_packet_def pb_peek)
  moreover have "rt_send_to_network w (PkV4 q) cfg = Some cfg" for w cfg
    using q by (cases cfg) (simp add: rt_send_to_network_def rt_is_quic_def p4_is_valid_def)
  ultimately show ?thesis using feed_loop_stuck by blast
qed

text \<open>A chunk is read once: what does not fit behind a partial packet is lost.\<close>

lemma feed_overflow:
  assumes b: "pb_ok (cl_client_to_network cl)"
    and n: "n = MAX_PACKET_LENGTH - length (pb_content (cl_client_to_network cl))" "n < length data"
  shows "feed_device_data fuel ws data cl = feed_device_data fuel ws (take n data) cl"
proof -
  let ?buf = "pb_buf (cl_client_to_network cl)"
  have w: "bb_wf ?buf" "bb_capacity ?buf - bb_head ?buf = n"
    using b n(1) length_bb_content [of ?buf] by (simp_all add: pb_ok_def pb_wf_def pb_content_def)
  have "stream_read n \<lparr>rx = [Inr data], tx = [], sent = []\<rparr> =
      (Inr (take n data), \<lparr>rx = [Inr (drop n data)], tx = [], sent = []\<rparr>)"
    "stream_read n \<lparr>rx = [Inr (take n data)], tx = [], sent = []\<rparr> =
      (Inr (take n data), \<lparr>rx = [], tx = [], sent = []\<rparr>)"
    using n(2) by (simp_all add: stream_read.simps)
  then show ?thesis
    using w by (auto simp: feed_device_data_def pb_read_from_def bb_read_from_def bb_capacity_def
      bb_wf_def slice_simps Let_def split: option.split)
qed

end
