(* ===== verification/Client_Session.thy ===== *)
theory Client_Session
  imports Client_Loop Std_Io "HOL-Library.Sublist"
begin

text \<open>
  A whole session of a client: the identifier, then any number of iterations of the main loop. What the
  device sends is one stream, cut into reads in any way and with any pauses; the device receives a
  prefix of the identifier followed by whole, valid packets.
\<close>

subsection \<open>What the device sends\<close>

text \<open>The reads still to come: each completes items and leaves a partial frame. After an end of the
  stream nothing is read.\<close>

fun device_script :: "nat \<Rightarrow> byte list \<Rightarrow> (io_error_kind + byte list) list \<Rightarrow> bool" where
  "device_script fuel pending [] \<longleftrightarrow> True"
| "device_script fuel pending (Inl e # r) \<longleftrightarrow> device_script fuel pending r"
| "device_script fuel pending (Inr data # r) \<longleftrightarrow> data = [] \<or>
     length pending + length data \<le> MAX_PACKET_LENGTH \<and>
     (\<exists>items tail. pending @ data = items_bytes items @ tail \<and> list_all item_ok items \<and>
        partial tail \<and> length items < fuel \<and> device_script fuel tail r)"

lemma device_script_cut:
  assumes "pending @ concat (map (case_sum (\<lambda>_. []) (\<lambda>bs. bs)) script) = items_bytes items @ tail"
    and "list_all item_ok items" "partial tail" "length items < fuel"
    and "list_all (\<lambda>p. length p \<le> m) (items_frames items)" "length tail < m" "length pending < m"
    and "\<And>c. Inr c \<in> set script \<Longrightarrow> m + length c \<le> MAX_PACKET_LENGTH + 1"
  shows "device_script fuel pending script"
  using assms
proof (induction script arbitrary: pending items)
  case (Cons x script)
  let ?bytes = "concat (map (case_sum (\<lambda>_. []) (\<lambda>bs. bs)) script)"
  show ?case
  proof (cases x)
    case (Inl e)
    then show ?thesis using Cons.IH [OF _ Cons.prems(2-7)] Cons.prems(1,8) by simp
  next
    case (Inr c)
    then have all: "items_bytes items @ tail = (pending @ c) @ ?bytes" using Cons.prems(1) by simp
    obtain items1 items2 tail1 where s: "items = items1 @ items2" "pending @ c = items_bytes items1 @ tail1"
      "partial tail1" "length tail1 < m" "tail1 @ ?bytes = items_bytes items2 @ tail"
      using split_items [OF Cons.prems(2,3) all Cons.prems(5,6)] by blast
    have i: "list_all item_ok items1" "list_all item_ok items2" "length items1 < fuel" "length items2 < fuel"
      "list_all (\<lambda>p. length p \<le> m) (items_frames items2)"
      using s(1) Cons.prems(2,4,5) by auto
    have "device_script fuel tail1 script"
      using Cons.IH [OF s(5) i(2) Cons.prems(3) i(4,5) Cons.prems(6) s(4)] Cons.prems(8) by simp
    moreover have "length pending + length c \<le> MAX_PACKET_LENGTH"
      using Cons.prems(7,8) Inr by fastforce
    ultimately show ?thesis using Inr s(2,3) i(1,3) by auto
  qed
qed simp

definition scripted :: "nat \<Rightarrow> run_state \<Rightarrow> bool" where
  "scripted fuel rs \<longleftrightarrow>
     device_script fuel (pb_content (cl_client_to_network (rs_client rs))) (rx (rs_stream rs))"

lemma scripted_sends:
  assumes "scripted fuel rs"
  shows "device_sends fuel rs"
  unfolding device_sends_def Let_def
proof (intro allI impI)
  fix data s
  let ?pending = "pb_content (cl_client_to_network (rs_client rs))"
  assume "stream_read MAX_PACKET_LENGTH (rs_stream rs) = (Inr data, s)" "data \<noteq> []"
  then obtain r where r: "rx (rs_stream rs) = Inr data # r"
    using assms by (auto simp: scripted_def stream_read.simps split: list.splits sum.splits if_splits)
  show "length ?pending + length data \<le> MAX_PACKET_LENGTH \<and>
      (\<exists>items tail. ?pending @ data = items_bytes items @ tail \<and> list_all item_ok items \<and>
         partial tail \<and> length items < fuel)"
    using assms \<open>data \<noteq> []\<close> unfolding scripted_def r device_script.simps by blast
qed

subsection \<open>An iteration keeps the script\<close>

lemma cl_poll_buffer:
  "cl_poll_network_connections w cl = Some cl' \<Longrightarrow> cl_client_to_network cl' = cl_client_to_network cl"
  by (auto simp: cl_poll_network_connections_def split: Option.bind_splits)

lemma drain_outgoing_buffer:
  "drain_outgoing cl = Some (out, cl') \<Longrightarrow> cl_client_to_network cl' = cl_client_to_network cl"
  by (auto simp: drain_outgoing_def Let_def split: if_splits Option.bind_splits)

lemma run_flush_keeps:
  assumes "run_flush made rs = Some (fl, rs')"
  shows "cl_client_to_network (rs_client rs') = cl_client_to_network (rs_client rs)"
    "rx (rs_stream rs') = rx (rs_stream rs)"
    "fl = Break \<Longrightarrow> sent_bytes (rs_stream rs') = sent_bytes (rs_stream rs)"
  using assms by (auto simp: run_flush_def Let_def drain_outgoing_buffer write_partial_sent
    split: Option.bind_splits if_splits prod.splits sum.splits)

lemma run_cleanup_keeps:
  "cl_client_to_network (rs_client (run_cleanup tk rs)) = cl_client_to_network (rs_client rs)"
  "rs_stream (run_cleanup tk rs) = rs_stream rs"
  by (simp_all add: run_cleanup_def cl_clean_expired_connections_def)

lemma run_read_scripted:
  assumes ok: "cl_ok k (rs_client rs)" and sc: "scripted fuel rs" and ws: "\<And>n. short_world (tk_feed tk n)"
    and run: "run_read fuel tk rs = Some (Some (Progress made, rs'))"
  shows "scripted fuel rs'"
proof -
  let ?cl = "rs_client rs"
  obtain r s where rd: "stream_read MAX_PACKET_LENGTH (rs_stream rs) = (r, s)" by fastforce
  show ?thesis
  proof (cases r)
    case (Inl e)
    then have "rs' = rs\<lparr>rs_stream := s\<rparr>" using run rd by (auto simp: run_read_def split: if_splits)
    then show ?thesis
      using sc rd Inl by (auto simp: scripted_def stream_read.simps split: list.splits sum.splits if_splits)
  next
    case (Inr data)
    then have data: "data \<noteq> []" using run rd by (auto simp: run_read_def)
    then have x: "rx (rs_stream rs) = Inr data # rx s"
      using sc rd Inr by (auto simp: scripted_def stream_read.simps split: list.splits sum.splits if_splits)
    then obtain items tail where d: "pb_content (cl_client_to_network ?cl) @ data = items_bytes items @ tail"
      "list_all item_ok items" "partial tail" "length items < fuel"
      "length (pb_content (cl_client_to_network ?cl)) + length data \<le> MAX_PACKET_LENGTH"
      "device_script fuel tail (rx s)"
      using sc data by (auto simp: scripted_def)
    obtain ps :: "ip_packet list" and cl1 where f: "feed_device_data fuel (tk_feed tk) data ?cl = Some (Some (length ps, cl1))"
      "pb_content (cl_client_to_network cl1) = tail"
      by (rule feed_ok [where ws = "tk_feed tk", OF ok data d(1-5) ws])
    obtain cl2 where "cl_poll_network_connections (tk_poll_after_feed tk) cl1 = Some cl2"
      "rs' = rs\<lparr>rs_stream := s, rs_client := cl2\<rparr>"
      using run rd Inr data f(1) by (auto simp: run_read_def split: option.splits)
    then show ?thesis using cl_poll_buffer f(2) d(6) by (simp add: scripted_def)
  qed
qed

lemma run_iteration_scripted:
  assumes ok: "cl_ok k (rs_client rs)" and sc: "scripted fuel rs" and ws: "\<And>n. short_world (tk_feed tk n)"
    and run: "run_iteration fuel tk rs = Some (Some (Progress made, rs'))"
  shows "scripted fuel rs'"
proof -
  obtain m rs1 where 1: "run_read fuel tk rs = Some (Some (Progress m, rs1))"
    using run by (auto simp: run_iteration_def split: if_splits option.splits flow.splits)
  obtain cl where 2: "cl_client_to_network cl = cl_client_to_network (rs_client rs1)"
    "run_flush m (run_cleanup tk (rs1\<lparr>rs_client := cl\<rparr>)) = Some (Progress made, rs')"
    using run 1 cl_poll_buffer
    by (auto simp: run_iteration_def split: if_splits Option.bind_splits)
  have "scripted fuel rs1" by (rule run_read_scripted [OF ok sc ws 1])
  then show ?thesis using 2(1) run_flush_keeps(1,2) [OF 2(2)] by (simp add: scripted_def run_cleanup_keeps)
qed

text \<open>An iteration that ends the loop sends nothing.\<close>

lemma run_iteration_break:
  assumes "cl_ok k (rs_client rs)" "device_sends fuel rs" "\<And>n. short_world (tk_feed tk n)"
    and run: "run_iteration fuel tk rs = Some (Some (Break, rs'))"
  shows "sent_bytes (rs_stream rs') = sent_bytes (rs_stream rs)"
proof (cases "cl_closed (rs_client rs) \<or> cl_signalled (rs_client rs)")
  case True
  then show ?thesis using run by (simp add: run_iteration_def)
next
  case False
  obtain fl rs1 where 1: "run_read fuel tk rs = Some (Some (fl, rs1))" "after_read k rs (fl, rs1)"
    using run_read_ok [OF assms(1-3)] by (metis surj_pair)
  then have s: "sent (rs_stream rs1) = sent (rs_stream rs)" by (simp add: after_read_def)
  show ?thesis
  proof (cases fl)
    case Break
    then show ?thesis using run False 1(1) s by (simp add: run_iteration_def)
  next
    case (Progress m)
    let ?poll = "if \<not> cl_closed (rs_client rs1)
      then cl_poll_network_connections (tk_poll tk) (rs_client rs1) else Some (rs_client rs1)"
    have "do { cl \<leftarrow> ?poll; run_flush m (run_cleanup tk (rs1\<lparr>rs_client := cl\<rparr>)) } = Some (Break, rs')"
      using run False 1(1) Progress by (simp add: run_iteration_def)
    then obtain cl where "run_flush m (run_cleanup tk (rs1\<lparr>rs_client := cl\<rparr>)) = Some (Break, rs')"
      by (auto simp del: if_not_P split: Option.bind_splits)
    from run_flush_keeps(3) [OF this refl] show ?thesis using s by (simp add: run_cleanup_keeps)
  qed
qed

subsection \<open>The session\<close>

text \<open>No connection has a packet for the device that is deferred.\<close>

definition undeferred :: "client \<Rightarrow> bool" where
  "undeferred cl \<longleftrightarrow> (\<forall>(cid, connection) \<in> set (rt_connections (cl_router cl)).
     case connection of CTcp c \<Rightarrow> tc_packet_for_client_length c = None | CUdp _ \<Rightarrow> True)"

lemma cl_ok_undeferred: "cl_ok True cl \<longleftrightarrow> cl_ok False cl \<and> undeferred cl"
  by (fastforce simp: cl_ok_def cn_steady_def undeferred_def)

text \<open>That is so whenever an iteration begins.\<close>

fun calm :: "nat \<Rightarrow> tick list \<Rightarrow> run_state \<Rightarrow> bool" where
  "calm fuel [] rs \<longleftrightarrow> True"
| "calm fuel (tk # tks) rs \<longleftrightarrow> undeferred (rs_client rs) \<and>
     (case run_iteration fuel tk rs of
        Some (Some (Progress _, rs1)) \<Rightarrow> calm fuel tks rs1
      | _ \<Rightarrow> True)"

lemma run_loop_ok:
  assumes "cl_ok False (rs_client rs)" "scripted fuel rs" "\<And>tk n. tk \<in> set tks \<Longrightarrow> short_world (tk_feed tk n)"
  shows "\<exists>fl rs'. run_loop fuel tks rs = Some (Some (fl, rs')) \<and> cl_ok False (rs_client rs') \<and>
    (calm fuel tks rs \<longrightarrow> drained (rs_client rs) \<longrightarrow> (\<exists>ps. list_all sound_packet ps \<and>
      prefix (sent_bytes (rs_stream rs'))
        (sent_bytes (rs_stream rs) @ rs_pending_outgoing rs @ concat (map ip_raw ps))))"
  using assms
proof (induction tks arbitrary: rs)
  case Nil
  then show ?case by (auto intro!: exI [of _ "[]"])
next
  case (Cons tk tks)
  have ws: "short_world (tk_feed tk n)" for n using Cons.prems(3) by simp
  note dev = scripted_sends [OF Cons.prems(2)]
  obtain fl rs1 where 1: "run_iteration fuel tk rs = Some (Some (fl, rs1))" "cl_ok False (rs_client rs1)"
    by (rule run_iteration_ok [OF Cons.prems(1) dev ws])
  have d: "delivers rs (fl, rs1)" if "undeferred (rs_client rs)" "drained (rs_client rs)"
  proof -
    have "cl_ok True (rs_client rs)" using Cons.prems(1) that(1) cl_ok_undeferred by simp
    from run_iteration_ok [OF this dev ws] that(2) 1(1) show ?thesis by (auto simp: undisturbed_def)
  qed
  show ?case
  proof (cases fl)
    case Break
    then show ?thesis
      using 1 run_iteration_break [OF Cons.prems(1) dev ws 1(1) [unfolded Break]]
      by (auto intro!: exI [of _ "[]"])
  next
    case (Progress made)
    note it = 1(1) [unfolded Progress]
    obtain fl' rs' where 2: "run_loop fuel tks rs1 = Some (Some (fl', rs'))" "cl_ok False (rs_client rs')"
      "calm fuel tks rs1 \<Longrightarrow> drained (rs_client rs1) \<Longrightarrow> \<exists>ps. list_all sound_packet ps \<and>
        prefix (sent_bytes (rs_stream rs'))
          (sent_bytes (rs_stream rs1) @ rs_pending_outgoing rs1 @ concat (map ip_raw ps))"
      using Cons.IH [OF 1(2) run_iteration_scripted [OF Cons.prems(1,2) ws it]] Cons.prems(3) by auto
    have "\<exists>ps. list_all sound_packet ps \<and> prefix (sent_bytes (rs_stream rs'))
        (sent_bytes (rs_stream rs) @ rs_pending_outgoing rs @ concat (map ip_raw ps))"
      if c: "calm fuel (tk # tks) rs" and dr: "drained (rs_client rs)"
    proof -
      have "calm fuel tks rs1" "delivers rs (Progress made, rs1)" using c dr it d Progress by simp_all
      then obtain ps where ps: "drained (rs_client rs1)" "list_all sound_packet ps"
        "sent_bytes (rs_stream rs1) @ rs_pending_outgoing rs1 =
          sent_bytes (rs_stream rs) @ rs_pending_outgoing rs @ concat (map ip_raw ps)"
        by (auto simp: delivers_def)
      obtain ps' where ps': "list_all sound_packet ps'" "prefix (sent_bytes (rs_stream rs'))
          ((sent_bytes (rs_stream rs1) @ rs_pending_outgoing rs1) @ concat (map ip_raw ps'))"
        using 2(3) [OF \<open>calm fuel tks rs1\<close> ps(1)] by auto
      show ?thesis
        using ps(2) ps' unfolding ps(3) by (intro exI [of _ "ps @ ps'"]) simp
    qed
    then show ?thesis using 2(1,2) it by simp
  qed
qed

text \<open>Before it, the identifier.\<close>

lemma cl_write_all_sent:
  assumes "cl_write_all offset buf s = Some y"
  shows "fst y = Inr () \<longrightarrow> sent_bytes (snd y) = sent_bytes s @ drop offset buf \<and> rx (snd y) = rx s"
proof (rule cl_write_all.raw_induct [where P = "\<lambda>offset buf s y. fst y = Inr () \<longrightarrow>
    sent_bytes (snd y) = sent_bytes s @ drop offset buf \<and> rx (snd y) = rx s", OF _ assms])
  fix write_all offset buf s and y :: "unit io_result \<times> stream"
  assume IH: "\<And>offset buf s (y :: unit io_result \<times> stream). write_all offset buf s = Some y \<Longrightarrow> fst y = Inr () \<longrightarrow>
      sent_bytes (snd y) = sent_bytes s @ drop offset buf \<and> rx (snd y) = rx s"
  assume run: "(if offset < length buf
      then (case stream_write (drop offset buf) s of
          (Inr n, s') \<Rightarrow> if n = 0 then Some (Inl WriteZero, s') else write_all (offset + n) buf s'
        | (Inl e, s') \<Rightarrow> if e = WouldBlock then write_all offset buf s' else Some (Inl e, s'))
      else Some (Inr (), s)) = Some y"
  obtain r s' where w: "stream_write (drop offset buf) s = (r, s')" by fastforce
  show "fst y = Inr () \<longrightarrow> sent_bytes (snd y) = sent_bytes s @ drop offset buf \<and> rx (snd y) = rx s"
  proof (cases "offset < length buf")
    case True
    show ?thesis
    proof (cases r)
      case (Inl e)
      then show ?thesis
        using run True w IH [of offset buf s' y] stream_write_rx [OF w] stream_write_error_sent
        by (auto split: if_splits)
    next
      case (Inr n)
      have "take n (drop offset buf) @ drop (offset + n) buf = drop offset buf"
        by (metis append_take_drop_id drop_drop add.commute)
      then show ?thesis
        using run True w Inr IH [of "offset + n" buf s' y] stream_write_rx [OF w] stream_write_sent [of _ s n s']
        by (auto split: if_splits)
    qed
  qed (use run in auto)
qed

lemma run_start_state:
  assumes "run_start i serial now s = Some (Inr rs)"
  shows "cl_ok True (rs_client rs)" "drained (rs_client rs)" "rs_pending_outgoing rs = []"
    "sent_bytes (rs_stream rs) = sent_bytes s @ bytes_of_u32 i" "rx (rs_stream rs) = rx s"
    "pb_content (cl_client_to_network (rs_client rs)) = []"
proof -
  obtain cl s' where 1: "cl_write_all 0 (bytes_of_u32 i) s = Some (Inr (), s')" "cl_create i serial = Inr cl"
    "rs = \<lparr>rs_client = cl, rs_stream = s', rs_pending_outgoing = [], rs_last_cleanup = now\<rparr>"
    using assms by (auto simp: run_start_def split: Option.bind_splits sum.splits)
  then show "cl_ok True (rs_client rs)" "drained (rs_client rs)" "rs_pending_outgoing rs = []"
    "sent_bytes (rs_stream rs) = sent_bytes s @ bytes_of_u32 i" "rx (rs_stream rs) = rx s"
    "pb_content (cl_client_to_network (rs_client rs)) = []"
    using cl_ok_create [OF 1(2)] cl_write_all_sent [OF 1(1)] by simp_all
qed

text \<open>The largest packet has \<open>m\<close> bytes, and a read behind a part of it fits the buffer.\<close>

lemma session_ok:
  assumes start: "run_start i serial now s = Some (Inr rs)"
    and dev: "rx_bytes s = items_bytes items @ tail" "list_all item_ok items" "partial tail" "length items < fuel"
    and fits: "list_all (\<lambda>p. length p \<le> m) (items_frames items)" "length tail < m"
      "\<And>c. Inr c \<in> set (rx s) \<Longrightarrow> m + length c \<le> MAX_PACKET_LENGTH + 1"
    and ws: "\<And>tk n. tk \<in> set tks \<Longrightarrow> short_world (tk_feed tk n)"
  shows "\<exists>fl rs'. run_loop fuel tks rs = Some (Some (fl, rs')) \<and> cl_ok False (rs_client rs') \<and>
    (calm fuel tks rs \<longrightarrow> (\<exists>ps. list_all sound_packet ps \<and>
      prefix (sent_bytes (rs_stream rs')) (sent_bytes s @ bytes_of_u32 i @ concat (map ip_raw ps))))"
proof -
  note st = run_start_state [OF start]
  have ok: "cl_ok False (rs_client rs)" using st(1) cl_ok_weaken by blast
  have "scripted fuel rs"
    unfolding scripted_def st(5,6)
    by (rule device_script_cut [OF _ dev(2-4) fits(1,2)])
      (use dev(1) fits in \<open>auto simp: rx_bytes_def\<close>)
  from run_loop_ok [OF ok this ws] show ?thesis using st(2-4) by auto
qed

subsection \<open>A truncated packet\<close>

text \<open>\<open>truncated_segment p\<close>: an IPv4 packet of TCP, whose total length is right and leaves no room for
  the first 16 bytes of a TCP header.\<close>

definition truncated_segment :: "byte list \<Rightarrow> bool" where
  "truncated_segment p \<longleftrightarrow> 20 \<le> length p \<and> length p < 36 \<and> p ! 0 = 0x45 \<and>
     unat (u16_of_bytes (p ! 2) (p ! 3)) = length p \<and> ipv4_protocol_of_byte (p ! 9) = Tcp"

lemma truncated_parse:
  assumes "truncated_segment p"
  shows "ip_packet_parse p = None"
proof -
  have l: "20 \<le> length p" "length p < 36" "p ! 0 = 0x45" "ipv4_protocol_of_byte (p ! 9) = Tcp"
    using assms by (simp_all add: truncated_segment_def)
  then have "length (drop 20 p) < 16" by simp
  then have "tcp_parse (drop 20 p) = None"
    by (auto simp: tcp_parse_def read_u16_at_def slice_def Let_def split: Option.bind_splits)
  moreover from l(1) have "p \<noteq> []" by auto
  ultimately show ?thesis
    using l by (simp add: ip_packet_parse_def ipv4_packet_parse_def ipv4_parse_eq slice_simps transport_parse_def)
qed

lemma truncated_segment_stops:
  assumes q: "pb_ok (cl_client_to_network (rs_client rs))" "pb_content (cl_client_to_network (rs_client rs)) = []"
    and p: "truncated_segment p" and rx: "rx (rs_stream rs) = Inr p # r"
    and live: "\<not> cl_closed (rs_client rs)" "\<not> cl_signalled (rs_client rs)"
  shows "run_iteration (Suc fuel) tk rs = Some None"
proof -
  have l: "p \<noteq> []" "length p \<le> MAX_PACKET_LENGTH"
    using p by (auto simp: truncated_segment_def MAX_PACKET_LENGTH_def)
  have fits: "length (pb_content (cl_client_to_network (rs_client rs))) + length p \<le> MAX_PACKET_LENGTH"
    using q(2) l(2) by simp
  obtain q' where q': "pb_read_from \<lparr>rx = [Inr p], tx = [], sent = []\<rparr> (cl_client_to_network (rs_client rs)) =
      Some (Inr (p \<noteq> []), \<lparr>rx = [], tx = [], sent = []\<rparr>, q')" "pb_ok q'" "pb_content q' = p"
    by (rule pb_read_from_ok [OF q(1) fits]) (simp add: q(2))
  have f: "is_frame p" "pb_wf q'"
    using p q'(2) by (auto simp: truncated_segment_def is_frame_def pb_ok_def)
  have "as_ip_packet q' = None"
    using available_frame [OF f(2) _ f(1), of "[]"] q'(3) truncated_parse [OF p] f(2)
    by (auto simp: as_ip_packet_def pb_wf_def pb_content_def bb_peek_content)
  then have "feed_device_data (Suc fuel) (tk_feed tk) p (rs_client rs) = Some None"
    using q'(1) l(1) by (simp add: feed_device_data_def)
  then show ?thesis
    using rx l live by (simp add: run_iteration_def run_read_def stream_read.simps)
qed

end
