(* ===== verification/Dns_Cache.thy ===== *)
theory Dns_Cache
  imports Std_Text Io Std_Time "HOL-Library.AList"
begin

text \<open>
  \<open>relay/dns_cache.rs\<close>: a forwarder that keys the answers by the name in the query. The locked
  \<open>HashMap\<close> is an association list; \<open>to_lowercase\<close> of a label (the Unicode tables of the standard
  library) is the argument \<open>lower\<close>; the upstream server is an argument of each round.
\<close>

definition CACHE_TTL_SECONDS :: nat where
  "CACHE_TTL_SECONDS = 60"

record cache_entry =
  ce_response :: "byte list"
  ce_expires_at :: instant

type_synonym dns_entries = "(string \<times> cache_entry) list"

definition dns_new :: dns_entries where
  "dns_new = []"

subsection \<open>The name of a query\<close>

text \<open>The loop over the labels; the bits \<open>0xC0\<close> mark a compressed name. The recursion ends because
  \<open>offset\<close> grows.\<close>

function dns_labels :: "(string \<Rightarrow> string) \<Rightarrow> byte list \<Rightarrow> nat \<Rightarrow> string list \<Rightarrow> string list option" where
  "dns_labels lower packet offset labels =
     (if length packet \<le> offset then None
      else let len = unat (packet ! offset) in
        if len = 0 then Some labels
        else if packet ! offset AND 0xC0 = 0xC0 then Some labels
        else if length packet < offset + 1 + len then None
        else dns_labels lower packet (offset + 1 + len)
          (labels @ [lower (from_utf8_lossy (take len (drop (offset + 1) packet)))]))"
  by pat_completeness auto
termination by (relation "measure (\<lambda>(_, packet, offset, _). length packet - offset)") auto

declare dns_labels.simps [simp del]

definition extract_dns_name :: "(string \<Rightarrow> string) \<Rightarrow> byte list \<Rightarrow> string option" where
  "extract_dns_name lower packet =
     (if length packet < 12 then None
      else case dns_labels lower packet 12 [] of
          None \<Rightarrow> None
        | Some labels \<Rightarrow> if labels = [] then None else Some (join ''.'' labels))"

subsection \<open>The forwarding loop\<close>

text \<open>One round of the loop after \<open>recv_from\<close>. The answers of the upstream socket (the result of
  \<open>send_to\<close>, then of \<open>recv\<close> into 512 bytes) and the two times of the clock are arguments. The result
  is the datagram sent to the client, the query sent upstream, if any, and the cache.\<close>

record upstream =
  up_send :: "unit io_result"
  up_recv :: "byte list io_result"

definition cached_entry :: "string option \<Rightarrow> dns_entries \<Rightarrow> cache_entry option" where
  "cached_entry query_name cache =
     (case query_name of Some name \<Rightarrow> map_of cache name | None \<Rightarrow> None)"

definition dns_forward ::
    "string option \<Rightarrow> instant \<Rightarrow> upstream \<Rightarrow> byte list \<Rightarrow> dns_entries \<Rightarrow>
     byte list option \<times> byte list option \<times> dns_entries" where
  "dns_forward query_name later up query cache =
     (case up_send up of
        Inl _ \<Rightarrow> (None, None, cache)
      | Inr _ \<Rightarrow>
          (case up_recv up of
             Inl _ \<Rightarrow> (None, Some query, cache)
           | Inr datagram \<Rightarrow>
               (let response = take 512 datagram;
                    cache' = (case query_name of
                        Some name \<Rightarrow> AList.update name
                          \<lparr>ce_response = response, ce_expires_at = later + from_secs CACHE_TTL_SECONDS\<rparr> cache
                      | None \<Rightarrow> cache)
                in (Some response, Some query, cache'))))"

definition dns_round ::
    "(string \<Rightarrow> string) \<Rightarrow> instant \<Rightarrow> instant \<Rightarrow> upstream \<Rightarrow> byte list \<Rightarrow> dns_entries \<Rightarrow>
     byte list option \<times> byte list option \<times> dns_entries" where
  "dns_round lower now later up datagram cache =
     (let query = take 512 datagram;
          query_name = extract_dns_name lower query in
      case cached_entry query_name cache of
        Some entry \<Rightarrow>
          if now < ce_expires_at entry then (Some (ce_response entry), None, cache)
          else dns_forward query_name later up query cache
      | None \<Rightarrow> dns_forward query_name later up query cache)"


fun dns_run ::
    "(string \<Rightarrow> string) \<Rightarrow> (byte list \<times> instant \<times> instant \<times> upstream) list \<Rightarrow> dns_entries \<Rightarrow> byte list option list" where
  "dns_run lower [] cache = []"
| "dns_run lower ((datagram, now, later, up) # rounds) cache =
     (case dns_round lower now later up datagram cache of
        (answer, _, cache') \<Rightarrow> answer # dns_run lower rounds cache')"

subsection \<open>Names\<close>

text \<open>A name in the wire format of RFC 1035: its labels with their lengths, then a zero.\<close>

definition encode_name :: "string list \<Rightarrow> byte list" where
  "encode_name labels = concat (map (\<lambda>l. of_nat (length l) # bytes_of_string l) labels) @ [0]"

definition label_ok :: "string \<Rightarrow> bool" where
  "label_ok l \<longleftrightarrow> l \<noteq> [] \<and> length l \<le> 63 \<and> ascii l"

lemma label_byte:
  assumes "length l \<le> 63" "l \<noteq> []"
  shows "unat (of_nat (length l) :: byte) = length l" "(of_nat (length l) :: byte) AND 0xC0 \<noteq> 0xC0"
proof -
  show u: "unat (of_nat (length l) :: byte) = length l"
    using assms by (simp add: unat_of_nat)
  have "unat ((of_nat (length l) :: byte) AND 0xC0) \<le> unat (of_nat (length l) :: byte)"
    by (simp add: word_and_le2 word_le_nat_alt [symmetric])
  then show "(of_nat (length l) :: byte) AND 0xC0 \<noteq> 0xC0" using u assms by auto
qed

lemma dns_labels_step:
  assumes "label_ok l" "drop offset packet = of_nat (length l) # bytes_of_string l @ rest"
  shows "dns_labels lower packet offset labels = dns_labels lower packet (offset + 1 + length l) (labels @ [lower l])"
    "drop (offset + 1 + length l) packet = rest"
proof -
  have len: "length packet = offset + (1 + length l + length rest)"
    using arg_cong [OF assms(2), of length] by simp
  have at: "packet ! offset = of_nat (length l)" and
    d: "drop (offset + 1) packet = bytes_of_string l @ rest"
    using nth_via_drop [OF assms(2)] arg_cong [OF assms(2), of tl] by (simp_all add: drop_Suc tl_drop)
  have l: "length l \<le> 63" "l \<noteq> []" "from_utf8_lossy (bytes_of_string l) = l"
    using assms(1) from_utf8_lossy_valid [OF from_utf8_ascii, of l] by (simp_all add: label_ok_def)
  show "drop (offset + 1 + length l) packet = rest"
    using d by (metis add.commute append_eq_conv_conj drop_drop length_bytes_of_string)
  show "dns_labels lower packet offset labels = dns_labels lower packet (offset + 1 + length l) (labels @ [lower l])"
    using len label_byte [OF l(1,2)] l d at
    by (subst dns_labels.simps) (simp add: Let_def)
qed

lemma dns_labels_encoded:
  assumes "list_all label_ok ls" "drop offset packet = encode_name ls @ rest"
  shows "dns_labels lower packet offset labels = Some (labels @ map lower ls)"
  using assms
proof (induction ls arbitrary: offset labels)
  case Nil
  then have "packet ! offset = 0" "offset < length packet"
    by (auto simp: encode_name_def nth_via_drop intro: ccontr)
  then show ?case by (subst dns_labels.simps) simp
next
  case (Cons l ls)
  have ok: "label_ok l" "list_all label_ok ls" using Cons.prems(1) by simp_all
  have "drop offset packet = of_nat (length l) # bytes_of_string l @ encode_name ls @ rest"
    using Cons.prems(2) by (simp add: encode_name_def)
  note step = dns_labels_step [OF ok(1) this]
  show ?case using Cons.IH [OF ok(2) step(2)] step(1) by simp
qed

text \<open>The name of a query is its labels in lower case, joined by dots, whatever follows.\<close>

lemma extract_dns_name_encoded:
  assumes "length header = 12" "ls \<noteq> []" "list_all label_ok ls"
  shows "extract_dns_name lower (header @ encode_name ls @ rest) = Some (join ''.'' (map lower ls))"
  using assms dns_labels_encoded [of ls 12 "header @ encode_name ls @ rest" rest lower "[]"]
  by (simp add: extract_dns_name_def)

text \<open>The question of a query, in the format of RFC 1035: behind the header of 12 bytes, labels behind their
  lengths (whose two top bits are not both set), up to a zero or a byte that has both bits set.\<close>

definition marked :: "byte \<Rightarrow> bool" where
  "marked b \<longleftrightarrow> b AND 0xC0 = 0xC0"

definition asks_for :: "byte list \<Rightarrow> byte list list \<Rightarrow> bool" where
  "asks_for query labels \<longleftrightarrow> labels \<noteq> [] \<and> 12 \<le> length query \<and>
     (\<forall>l \<in> set labels. l \<noteq> [] \<and> length l < 256 \<and> \<not> marked (of_nat (length l))) \<and>
     (\<exists>end_byte rest. (end_byte = 0 \<or> marked end_byte) \<and>
        drop 12 query = concat (map (\<lambda>l. of_nat (length l) # l) labels) @ end_byte # rest)"

definition dotted :: "(string \<Rightarrow> string) \<Rightarrow> byte list list \<Rightarrow> string" where
  "dotted lower labels = join ''.'' (map (\<lambda>l. lower (from_utf8_lossy l)) labels)"

lemma dns_labels_asks:
  assumes "dns_labels lower packet offset known = Some names"
  shows "\<exists>labels end_byte rest. names = known @ map (\<lambda>l. lower (from_utf8_lossy l)) labels \<and>
    (\<forall>l \<in> set labels. l \<noteq> [] \<and> length l < 256 \<and> \<not> marked (of_nat (length l))) \<and> (end_byte = 0 \<or> marked end_byte) \<and>
    drop offset packet = concat (map (\<lambda>l. of_nat (length l) # l) labels) @ end_byte # rest"
  using assms
proof (induction lower packet offset known rule: dns_labels.induct)
  case (1 lower packet offset known)
  let ?b = "packet ! offset" and ?n = "unat (packet ! offset)"
  have lt: "offset < length packet" using "1.prems" by (subst (asm) dns_labels.simps) (simp split: if_splits)
  then have d: "drop offset packet = ?b # drop (offset + 1) packet" by (simp add: Cons_nth_drop_Suc)
  show ?case
  proof (cases "?n = 0 \<or> ?b AND 0xC0 = 0xC0")
    case True
    then have "names = known" using "1.prems" lt by (subst (asm) dns_labels.simps) (auto simp: Let_def split: if_splits)
    moreover have "?b = 0 \<or> marked ?b" using True by (auto simp: marked_def unat_eq_0)
    ultimately have "names = known @ map (\<lambda>l. lower (from_utf8_lossy l)) [] \<and>
        (\<forall>l \<in> set []. l \<noteq> [] \<and> length l < 256 \<and> \<not> marked (of_nat (length l))) \<and> (?b = 0 \<or> marked ?b) \<and>
        drop offset packet = concat (map (\<lambda>l. of_nat (length l) # l) []) @ ?b # drop (offset + 1) packet"
      unfolding d by simp
    then show ?thesis by (intro exI [of _ "[]"] exI [of _ ?b] exI [of _ "drop (offset + 1) packet"])
  next
    case False
    let ?l = "take ?n (drop (offset + 1) packet)"
    have fits: "offset + 1 + ?n \<le> length packet"
      and rec: "dns_labels lower packet (offset + 1 + ?n) (known @ [lower (from_utf8_lossy ?l)]) = Some names"
      using "1.prems" lt False by (subst (asm) dns_labels.simps; simp add: Let_def split: if_splits)+
    have "\<not> length packet \<le> offset" "?n \<noteq> 0" "\<not> ?b AND 0xC0 = 0xC0" "\<not> length packet < offset + 1 + ?n"
      using lt False fits by auto
    from "1.IH" [OF this(1) refl this(2-4) rec] obtain labels end_byte rest where
      ih: "names = (known @ [lower (from_utf8_lossy ?l)]) @ map (\<lambda>l. lower (from_utf8_lossy l)) labels"
      "\<forall>l \<in> set labels. l \<noteq> [] \<and> length l < 256 \<and> \<not> marked (of_nat (length l))" "end_byte = 0 \<or> marked end_byte"
      "drop (offset + 1 + ?n) packet = concat (map (\<lambda>l. of_nat (length l) # l) labels) @ end_byte # rest"
      by (elim exE conjE) (rule that)
    have l: "length ?l = ?n" using fits by simp
    have "?n < 256" using unsigned_less [of ?b, where ?'a = nat] by simp
    moreover have "drop offset packet = of_nat (length ?l) # ?l @ drop (offset + 1 + ?n) packet"
    proof -
      have "?l @ drop (offset + 1 + ?n) packet = drop (offset + 1) packet"
        by (metis append_take_drop_id drop_drop add.commute)
      then show ?thesis using d unfolding l by simp
    qed
    moreover have "?l \<noteq> []" "\<not> marked (of_nat (length ?l))" using False l unfolding marked_def by auto
    ultimately have "names = known @ map (\<lambda>l. lower (from_utf8_lossy l)) (?l # labels) \<and>
        (\<forall>l \<in> set (?l # labels). l \<noteq> [] \<and> length l < 256 \<and> \<not> marked (of_nat (length l))) \<and>
        (end_byte = 0 \<or> marked end_byte) \<and>
        drop offset packet = concat (map (\<lambda>l. of_nat (length l) # l) (?l # labels)) @ end_byte # rest"
      unfolding ih(1,4) using ih(2,3) l by (simp del: length_take)
    then show ?thesis by (intro exI [of _ "?l # labels"] exI [of _ end_byte] exI [of _ rest])
  qed
qed

text \<open>A name that is extracted is the one of the question, in lower case and joined by dots.\<close>

lemma extract_dns_name_asks:
  assumes "extract_dns_name lower query = Some name"
  obtains labels where "asks_for query labels" "name = dotted lower labels"
proof -
  obtain names where n: "12 \<le> length query" "dns_labels lower query 12 [] = Some names" "names \<noteq> []" "name = join ''.'' names"
    using assms by (auto simp: extract_dns_name_def split: if_splits option.splits)
  from dns_labels_asks [OF n(2)] n show ?thesis
    using that by (auto simp: asks_for_def dotted_def)
qed


text \<open>The question names \<open>ls\<close>: the converse, for labels of RFC 1035.\<close>

lemma asks_for_encoded:
  assumes "length header = 12" "ls \<noteq> []" "list_all label_ok ls"
  shows "asks_for (header @ encode_name ls @ rest) (map bytes_of_string ls)"
proof -
  have "\<not> marked (of_nat (length l))" "l \<noteq> []" "length l < 256" if "l \<in> set ls" for l
    using assms(3) that label_byte(2) [of l] by (auto simp: list_all_iff label_ok_def marked_def)
  then show ?thesis
    using assms(1,2) unfolding asks_for_def
    by (intro conjI ballI exI [of _ 0] exI [of _ rest])
      (auto simp: encode_name_def comp_def bytes_of_string_def)
qed

subsection \<open>Answers\<close>

text \<open>A round is answered by its own upstream, or by what the upstream answered to an earlier query
  with the same name at most 60 seconds ago.\<close>

definition upstream_answer :: "upstream \<Rightarrow> byte list option" where
  "upstream_answer up = (case (up_send up, up_recv up) of (Inr _, Inr r) \<Rightarrow> Some (take 512 r) | _ \<Rightarrow> None)"

definition stores ::
    "(string \<Rightarrow> string) \<Rightarrow> byte list \<times> instant \<times> instant \<times> upstream \<Rightarrow> string \<Rightarrow> cache_entry \<Rightarrow> bool" where
  "stores lower = (\<lambda>(datagram, now, later, up) name e.
     extract_dns_name lower (take 512 datagram) = Some name \<and> upstream_answer up = Some (ce_response e) \<and>
     ce_expires_at e = later + from_secs CACHE_TTL_SECONDS)"

lemma dns_round_stores:
  assumes "dns_round lower now later up datagram cache = (answer, query, cache')" "map_of cache' name = Some e"
  shows "map_of cache name = Some e \<or> stores lower (datagram, now, later, up) name e"
  using assms
  by (auto simp: dns_round_def dns_forward_def Let_def stores_def upstream_answer_def update_conv'
      split: option.splits if_splits sum.splits)

lemma dns_round_answer:
  assumes "dns_round lower now later up datagram cache = (Some a, query, cache')"
  shows "upstream_answer up = Some a \<or>
    (\<exists>name e. extract_dns_name lower (take 512 datagram) = Some name \<and> map_of cache name = Some e \<and>
      now < ce_expires_at e \<and> ce_response e = a)"
  using assms
  by (auto simp: dns_round_def dns_forward_def Let_def upstream_answer_def cached_entry_def
      split: option.splits if_splits sum.splits)

lemma dns_run_answers:
  assumes "i < length rounds" "dns_run lower rounds cache ! i = Some a"
    "rounds ! i = (datagram, now, later, up)"
  shows "upstream_answer up = Some a \<or>
    (\<exists>name e. extract_dns_name lower (take 512 datagram) = Some name \<and> ce_response e = a \<and>
      now < ce_expires_at e \<and> (map_of cache name = Some e \<or> (\<exists>j < i. stores lower (rounds ! j) name e)))"
  using assms
proof (induction rounds arbitrary: cache i)
  case (Cons r rounds)
  obtain d n l u where r: "r = (d, n, l, u)" by (cases r) auto
  obtain answer query cache' where s: "dns_round lower n l u d cache = (answer, query, cache')"
    using prod_cases3 by blast
  show ?case
  proof (cases i)
    case 0
    then show ?thesis using Cons.prems r s dns_round_answer [of lower n l u d cache a] by auto
  next
    case (Suc k)
    have "upstream_answer up = Some a \<or>
      (\<exists>name e. extract_dns_name lower (take 512 datagram) = Some name \<and> ce_response e = a \<and>
        now < ce_expires_at e \<and> (map_of cache' name = Some e \<or> (\<exists>j < k. stores lower (rounds ! j) name e)))"
      by (rule Cons.IH) (use Cons.prems Suc r s in auto)
    moreover have "map_of cache' name = Some e \<Longrightarrow> map_of cache name = Some e \<or> stores lower r name e" for name e
      using dns_round_stores [OF s] r by blast
    moreover have "stores lower r name e \<Longrightarrow> \<exists>j < i. stores lower ((r # rounds) ! j) name e" for name e
      using Suc by (intro exI [of _ 0]) simp
    moreover have "(\<exists>j < k. stores lower (rounds ! j) name e) \<Longrightarrow> \<exists>j < i. stores lower ((r # rounds) ! j) name e" for name e
      using Suc by (metis Suc_mono nth_Cons_Suc)
    ultimately show ?thesis by blast
  qed
qed simp

text \<open>Two queries that differ in their identifier only: the second is answered with the bytes of the
  first answer, the identifier included.\<close>

lemma cached_answer_keeps_id:
  assumes "extract_dns_name lower q1 = Some name" "extract_dns_name lower q2 = Some name"
    "length q1 \<le> 512" "length q2 \<le> 512" "length answer \<le> 512" "now2 < later1 + from_secs 60"
  shows "dns_run lower [(q1, now1, later1, \<lparr>up_send = Inr (), up_recv = Inr answer\<rparr>), (q2, now2, later2, up)] dns_new
    = [Some answer, Some answer]"
  using assms
  by (simp add: dns_round_def dns_forward_def dns_new_def cached_entry_def CACHE_TTL_SECONDS_def)

end
