(* ===== verification/Examples.thy ===== *)
theory Examples
  imports Client_Loop
begin

text \<open>
  Concrete packets, sockets, connections and clients: the inputs at which the witnesses of the
  properties apply them.
\<close>

definition demo_stream :: stream where
  "demo_stream = \<lparr>rx = [], tx = [], sent = []\<rparr>"

definition demo_out :: stream_buffer where
  "demo_out = sb_new (64 * MAX_PACKET_LENGTH)"

definition demo_world :: world where
  "demo_world = \<lparr>w_now = 0, w_later = 0, w_random = 1000, w_tcp_connect = (\<lambda>_. Inr demo_stream),
     w_set_options = (\<lambda>_. Inr ()), w_socks5_proxy = None, w_udp_open = (\<lambda>_ _. Inr demo_stream)\<rparr>"

text \<open>A SYN of 10.0.0.2:12345 to 93.184.216.34:80; a datagram to port 53 and one to port 443; an echo
  request.\<close>

definition demo_syn_bytes :: "byte list" where
  "demo_syn_bytes = [0x45, 0, 0, 40, 0, 0, 0, 0, 64, 6, 0, 0, 10, 0, 0, 2, 93, 184, 216, 34,
     0x30, 0x39, 0, 80, 0, 0, 0, 1, 0, 0, 0, 0, 0x50, 0x02, 0xFF, 0xFF, 0, 0, 0, 0]"

definition demo_datagram_bytes :: "byte list" where
  "demo_datagram_bytes = [0x45, 0, 0, 32, 0, 0, 0, 0, 64, 17, 0, 0, 10, 0, 0, 2, 8, 8, 8, 8,
     0x30, 0x39, 0, 53, 0, 12, 0, 0, 1, 2, 3, 4]"

definition demo_quic_bytes :: "byte list" where
  "demo_quic_bytes = [0x45, 0, 0, 32, 0, 0, 0, 0, 64, 17, 0, 0, 10, 0, 0, 2, 8, 8, 8, 8,
     0x30, 0x39, 1, 187, 0, 12, 0, 0, 1, 2, 3, 4]"

definition demo_ping_bytes :: "byte list" where
  "demo_ping_bytes = [0x45, 0, 0, 32, 0, 0, 0, 0, 64, 1, 0, 0, 10, 0, 0, 2, 8, 8, 8, 8,
     8, 0, 0, 0, 0, 1, 0, 1, 1, 2, 3, 4]"

definition demo_syn :: ip_packet where
  "demo_syn = frame_packet demo_syn_bytes"

definition demo_datagram :: ip_packet where
  "demo_datagram = frame_packet demo_datagram_bytes"

definition demo_quic :: ip_packet where
  "demo_quic = frame_packet demo_quic_bytes"

lemma demo_frames [simp]:
  "device_frame demo_syn_bytes" "device_frame demo_datagram_bytes" "device_frame demo_quic_bytes"
  "device_frame demo_ping_bytes"
  by code_simp+

lemma demo_lengths [simp]:
  "length demo_syn_bytes = 40" "length demo_datagram_bytes = 32" "length demo_quic_bytes = 32"
  "length demo_ping_bytes = 32" "demo_syn_bytes \<noteq> []" "demo_datagram_bytes \<noteq> []" "partial []"
  by (simp_all add: demo_syn_bytes_def demo_datagram_bytes_def demo_quic_bytes_def demo_ping_bytes_def
    partial_def)

lemma frame_packet_ok:
  assumes "device_frame p"
  shows "ip_packet_parse p = Some (Some (frame_packet p))" "ip_raw (frame_packet p) = p"
    "packet_wf (frame_packet p)" "routable (frame_packet p)"
proof -
  obtain pkt where pkt: "ip_packet_parse (p @ []) = Some (Some pkt)" "ip_raw pkt = p" "packet_wf pkt"
    "names_transport (hd_protocol (fst (ip_headers_data pkt))) (snd (ip_headers_data pkt))"
    by (rule device_frame_parses [OF assms])
  moreover from this have "routable pkt"
    by (auto simp: routable_def names_transport_def split: option.splits)
  moreover have "frame_packet p = pkt" using pkt(1) by (simp add: frame_packet_def)
  ultimately show "ip_packet_parse p = Some (Some (frame_packet p))" "ip_raw (frame_packet p) = p"
    "packet_wf (frame_packet p)" "routable (frame_packet p)" by simp_all
qed

lemmas demo_packet_ok [simp] =
  frame_packet_ok [OF demo_frames(1), folded demo_syn_def]
  frame_packet_ok [OF demo_frames(2), folded demo_datagram_def]
  frame_packet_ok [OF demo_frames(3), folded demo_quic_def]

definition demo_syn_header :: tcp_header_data where
  "demo_syn_header = \<lparr>tcp_source_port = 12345, tcp_destination_port = 80, tcp_sequence_number = 1,
     tcp_acknowledgement_number = 0, tcp_header_length = 20, tcp_flags = 2, tcp_window = 65535\<rparr>"

lemma demo_syn_facts [simp]:
  "snd (ip_headers_data demo_syn) = Some (TdTcp demo_syn_header)" "ip_payload demo_syn = Some (Some [])"
  "fst (ip_headers_data demo_syn) = HdV4 \<lparr>v4_version = 4, v4_header_length = 20, v4_total_length = 40,
     v4_protocol = Tcp, v4_source = 0x0A000002, v4_destination = 0x5DB8D822\<rparr>"
  unfolding demo_syn_def demo_syn_header_def frame_packet_def by code_simp+

lemma demo_syn_packet [simp]: "tcp_packet demo_syn_header [] demo_syn" "is_syn demo_syn_header"
  by (simp add: tcp_packet_def) code_simp

text \<open>The ACK that completes the handshake, with a byte of data behind it.\<close>

definition demo_ack_bytes :: "byte list" where
  "demo_ack_bytes = [0x45, 0, 0, 41, 0, 0, 0, 0, 64, 6, 0, 0, 10, 0, 0, 2, 93, 184, 216, 34,
     0x30, 0x39, 0, 80, 0, 0, 0, 2, 0, 0, 3, 0xE9, 0x50, 0x10, 0xFF, 0xFF, 0, 0, 0, 0, 7]"

definition demo_ack :: ip_packet where
  "demo_ack = frame_packet demo_ack_bytes"

definition demo_ack_header :: tcp_header_data where
  "demo_ack_header = \<lparr>tcp_source_port = 12345, tcp_destination_port = 80, tcp_sequence_number = 2,
     tcp_acknowledgement_number = 1001, tcp_header_length = 20, tcp_flags = 16, tcp_window = 65535\<rparr>"

lemma demo_ack_packet [simp]:
  "tcp_packet demo_ack_header [7] demo_ack" "tcp_sequence_number demo_ack_header = 2"
  "tcp_acknowledgement_number demo_ack_header = 1001"
  "is_ack demo_ack_header" "\<not> is_syn demo_ack_header" "\<not> is_rst demo_ack_header" "\<not> is_fin demo_ack_header"
proof -
  have "device_frame demo_ack_bytes" by code_simp
  moreover have "snd (ip_headers_data demo_ack) = Some (TdTcp demo_ack_header)"
    "ip_payload demo_ack = Some (Some [7])"
    unfolding demo_ack_def demo_ack_header_def frame_packet_def by code_simp+
  ultimately show "tcp_packet demo_ack_header [7] demo_ack"
    by (simp add: tcp_packet_def demo_ack_def frame_packet_ok)
qed (code_simp+)

text \<open>The connection the SYN opens.\<close>

definition demo_cid :: connection_id where
  "demo_cid = ci_from_headers (fst (ip_headers_data demo_syn)) (TdTcp demo_syn_header) []"

lemma demo_flow: "flow_id demo_syn [] = Some demo_cid"
proof -
  have "\<not> is_icmp_echo_request demo_syn" "\<not> rt_is_quic demo_syn" "ip_is_valid demo_syn"
    unfolding demo_syn_def frame_packet_def by code_simp+
  then show ?thesis by (simp add: flow_id_def demo_cid_def del: demo_syn_facts(3))
qed

definition demo_tcp :: tcp_connection where
  "demo_tcp = projr (the (case the (ip_headers demo_syn) of (ih, th) \<Rightarrow>
     tcp_create demo_cid (Inr demo_stream) ih (the th)))"

lemma demo_tcp_ok [simp]:
  "tc_wf demo_tcp" "tc_stream demo_tcp = demo_stream" "tc_tcb demo_tcp = tcb_new"
  "tc_packet_for_client_length demo_tcp = None" "\<not> tc_closed demo_tcp"
  "sb_content (tc_client_to_network demo_tcp) = []"
proof -
  obtain ih th where h: "ip_headers demo_syn = Some (ih, Some th)"
    using ip_headers_ok [OF demo_packet_ok(3) demo_syn_facts(1)] by metis
  obtain c where "tcp_create demo_cid (Inr demo_stream) ih th = Some (Inr c)" "tc_wf c"
    "tc_stream c = demo_stream" "tc_tcb c = tcb_new" "tc_packet_for_client_length c = None" "\<not> tc_closed c"
    "sb_content (tc_client_to_network c) = []"
    by (rule tcp_create_ok [OF demo_packet_ok(3) demo_syn_facts(1) h])
  moreover from this(1) h have "demo_tcp = c" by (simp add: demo_tcp_def)
  ultimately show "tc_wf demo_tcp" "tc_stream demo_tcp = demo_stream" "tc_tcb demo_tcp = tcb_new"
    "tc_packet_for_client_length demo_tcp = None" "\<not> tc_closed demo_tcp"
    "sb_content (tc_client_to_network demo_tcp) = []" by simp_all
qed

text \<open>The connection a datagram opens.\<close>

definition demo_udp :: udp_connection where
  "demo_udp = projr (the (case the (ip_headers demo_datagram) of (ih, th) \<Rightarrow>
     udp_create (\<lambda>_ _. Inr demo_stream) 0 demo_cid ih (the th)))"

lemma demo_udp_ok [simp]: "uc_wf demo_udp" "uc_socket demo_udp = demo_stream" "\<not> uc_closed demo_udp"
proof -
  have t: "snd (ip_headers_data demo_datagram) = Some (TdUdp \<lparr>udp_source_port = 12345, udp_destination_port = 53\<rparr>)"
    unfolding demo_datagram_def frame_packet_def by code_simp
  obtain ih th where h: "ip_headers demo_datagram = Some (ih, Some th)"
    using ip_headers_ok [OF demo_packet_ok(7) t] by metis
  obtain c where "udp_create (\<lambda>_ _. Inr demo_stream) 0 demo_cid ih th = Some (Inr c)" "uc_wf c"
    "uc_socket c = demo_stream" "\<not> uc_closed c"
    by (rule udp_create_ok [where now = 0, OF demo_packet_ok(7) t h, of "\<lambda>_ _. Inr demo_stream" demo_cid demo_stream])
      (simp_all add: udp_create_socket_def)
  moreover from this(1) h have "demo_udp = c" by (simp add: demo_udp_def)
  ultimately show "uc_wf demo_udp" "uc_socket demo_udp = demo_stream" "\<not> uc_closed demo_udp" by simp_all
qed

lemma demo_udp_deliverable [simp]: "uc_deliverable demo_udp"
  by (simp add: uc_deliverable_def demo_stream_def)

lemma demo_out_ok [simp]:
  "out_wf demo_out" "sb_wf demo_out" "sb_content demo_out = []" "sb_tail demo_out = 0"
  "sb_remaining demo_out = 4194304"
proof -
  show w: "sb_wf demo_out" and "sb_content demo_out = []" "out_wf demo_out"
    by (simp_all add: demo_out_def out_wf_def MAX_PACKET_LENGTH_def)
  then show "sb_remaining demo_out = 4194304"
    by (simp add: sb_remaining_content) (simp add: demo_out_def MAX_PACKET_LENGTH_def)
  show "sb_tail demo_out = 0" by (simp add: demo_out_def sb_new_def)
qed

definition demo_syn_sent :: tcp_connection where
  "demo_syn_sent = demo_tcp\<lparr>tc_tcb := tcb_new\<lparr>acknowledgement_number := 2, syn_sequence_number := 1,
     sequence_number := 1000, client_window := 65535, tcb_state := SynSent\<rparr>\<rparr>"

text \<open>It is established and the network has sent three bytes and its end.\<close>

definition demo_downloading :: tcp_connection where
  "demo_downloading = demo_tcp\<lparr>tc_tcb := tcb_new\<lparr>acknowledgement_number := 2, syn_sequence_number := 1,
     sequence_number := 1001, their_acknowledgement_number := 1001, client_window := 65535,
     tcb_state := Established\<rparr>, tc_stream := \<lparr>rx = [Inr [7, 8], Inr [9], Inr []], tx = [], sent = []\<rparr>\<rparr>"

lemma demo_cfg [simp]: "cfg_wf (demo_tcp\<lparr>tc_tcb := t, tc_stream := s\<rparr>, demo_out)" "cfg_inv k (demo_tcp, demo_out)"
  using demo_tcp_ok(1) by (simp_all add: cfg_wf_def cfg_inv_def tc_wf_def)

text \<open>Its packetizer after it built a packet of three bytes.\<close>

definition demo_built :: packetizer where
  "demo_built = snd (the (do {
     pk1 \<leftarrow> pk_store_payload [1, 2, 3] (tc_network_to_client demo_tcp);
     pk_build (of_nat (length [1, 2, 3 :: byte])) pk1 }))"

lemma demo_built_packet:
  obtains n p where "pk_inflate n demo_built = Some p" "unat n = length (ip_raw p)"
    "unat (ip_length p) = length (ip_raw p)" "tcp_pk_wf demo_built"
proof -
  let ?pk = "tc_network_to_client demo_tcp"
  have wf: "pk_wf ?pk" "tcp_pk_wf ?pk" using demo_tcp_ok(1) by (simp_all add: tc_wf_def tcp_pk_wf_def)
  have n: "pk_payload_index ?pk + length [1, 2, 3 :: byte] < MAX_PACKET_LENGTH"
    using pk_wf_bounds(2) [OF wf(1)] by (simp add: MAX_PACKET_LENGTH_def)
  obtain p pk' where p: "(do { pk1 \<leftarrow> pk_store_payload [1, 2, 3] ?pk;
      pk_build (of_nat (length [1, 2, 3 :: byte])) pk1 }) = Some (p, pk')" "built ?pk [1, 2, 3] p" "pk_wf pk'"
    "pk_transport pk' = pk_transport ?pk" "pk_ip pk' = fst (ip_headers_data p)"
    "ip_raw p = take (length (ip_raw p)) (pk_buffer pk')"
    by (rule pk_store_and_build_ok [OF wf(1) n])
  have b: "demo_built = pk'" by (simp only: demo_built_def p(1) option.sel snd_conv)
  have l: "length (ip_raw p) < 65536" "length (pk_buffer pk') = 65536"
    using p(2) n pk_wf_bounds(4) [OF p(3)] by (simp_all add: built_def MAX_PACKET_LENGTH_def)
  then have u: "unat (of_nat (length (ip_raw p)) :: u16) = length (ip_raw p)" by simp
  have "pk_inflate (of_nat (length (ip_raw p))) pk' = Some p"
    by (rule pk_inflate_built [OF p(2,6,5,4) u]) (use l in simp)
  then show ?thesis
    using that u b p(2,3,4) wf(2) packet_wf_length [of p] by (simp add: built_def tcp_pk_wf_def)
qed

lemma demo_world_short [simp]: "short_world demo_world"
  by (simp add: short_world_def demo_world_def short_datagrams_def demo_stream_def)

text \<open>A fresh client and its loop.\<close>

definition demo_client :: client where
  "demo_client = projr (cl_create 1 None)"

lemma demo_client_create: "cl_create 1 None = Inr demo_client"
  by (simp add: demo_client_def cl_create_def Let_def)

lemmas demo_client_ok [simp] = cl_ok_create [OF demo_client_create]

lemma demo_client_fields [simp]:
  "cl_network_to_client demo_client = demo_out" "rt_connections (cl_router demo_client) = []"
  "rt_recently_closed (cl_router demo_client) = []" "rt_client_label (cl_router demo_client) = ''#1''"
proof -
  have "client_label 1 None = ''#1''" by code_simp
  then show "cl_network_to_client demo_client = demo_out" "rt_connections (cl_router demo_client) = []"
    "rt_recently_closed (cl_router demo_client) = []" "rt_client_label (cl_router demo_client) = ''#1''"
    by (simp_all add: demo_client_def cl_create_def demo_out_def rt_set_client_label_def
      rt_set_buffer_def rt_new_def Let_def)
qed

definition demo_state :: "byte list \<Rightarrow> run_state" where
  "demo_state bs = \<lparr>rs_client = demo_client, rs_stream = \<lparr>rx = [Inr bs], tx = [], sent = []\<rparr>,
     rs_pending_outgoing = [], rs_last_cleanup = 0\<rparr>"

definition demo_tick :: tick where
  "demo_tick = \<lparr>tk_feed = (\<lambda>_. demo_world), tk_poll_after_feed = demo_world, tk_poll = demo_world,
     tk_now = 0, tk_cleanup = demo_world\<rparr>"

text \<open>A device that sends a SYN in two reads, with a pause.\<close>

definition demo_device :: stream where
  "demo_device = \<lparr>rx = [Inr (take 10 demo_syn_bytes), Inl WouldBlock, Inr (drop 10 demo_syn_bytes)],
     tx = [Inr 1, Inl WouldBlock, Inr 1, Inr 1, Inr 1], sent = []\<rparr>"

text \<open>A packet that ends with its IPv4 header, and announces TCP.\<close>

definition demo_header_bytes :: "byte list" where
  "demo_header_bytes = [0x45, 0, 0, 20, 0, 0, 0, 0, 64, 6, 0, 0, 10, 0, 0, 2, 93, 184, 216, 34]"

text \<open>A router with an open connection, on which nothing happens, and a closed one.\<close>

abbreviation demo_cid2 :: connection_id where
  "demo_cid2 \<equiv> demo_cid\<lparr>ci_source_port := 1\<rparr>"

definition demo_open_and_closed :: router where
  "demo_open_and_closed = rt_new\<lparr>rt_connections :=
     [(demo_cid, CTcp demo_tcp), (demo_cid2, CTcp (demo_tcp\<lparr>tc_closed := True\<rparr>))]\<rparr>"

lemma demo_cid_fields [simp]: "ci_protocol demo_cid = Tcp" "ci_source_port demo_cid = 12345" "demo_cid2 \<noteq> demo_cid"
proof -
  show p: "ci_protocol demo_cid = Tcp" "ci_source_port demo_cid = 12345"
    by (simp_all add: demo_cid_def ci_from_headers_def Let_def demo_syn_header_def)
  then show "demo_cid2 \<noteq> demo_cid" by (auto dest: arg_cong [where f = ci_source_port])
qed

lemma demo_polls:
  "cn_poll now (CTcp demo_tcp, b) = Some (Inl WouldBlock, CTcp demo_tcp, b)"
  "cn_poll now (CTcp (demo_tcp\<lparr>tc_closed := True\<rparr>), b) = Some (Inr (), CTcp (demo_tcp\<lparr>tc_closed := True\<rparr>), b)"
proof -
  have "sb_is_empty (tc_client_to_network demo_tcp)"
    using demo_tcp_ok(1,6) sb_is_empty_content by (simp add: tc_wf_def)
  then show "cn_poll now (CTcp demo_tcp, b) = Some (Inl WouldBlock, CTcp demo_tcp, b)"
    by (simp add: tcp_poll_def tc_poll_pending_def phase_def tc_poll_write_def tc_may_write_def
      tc_poll_read_def tc_may_read_def tc_poll_connect_def tcb_new_def)
qed (simp add: tcp_poll_def)

lemma demo_open_and_closed_ok:
  "rt_ok demo_open_and_closed" "all_entries (\<lambda>_. cn_deliverable) (rt_connections demo_open_and_closed)"
proof -
  have "tc_wf (demo_tcp\<lparr>tc_closed := True\<rparr>)" using demo_tcp_ok(1) by (simp add: tc_wf_def)
  then show "rt_ok demo_open_and_closed"
    "all_entries (\<lambda>_. cn_deliverable) (rt_connections demo_open_and_closed)"
    using demo_cid_fields(3) [symmetric] by (auto simp: rt_ok_def demo_open_and_closed_def rt_new_def cn_ok_def cn_deliverable_def)
qed

lemma demo_buffer: "sb_remaining (tc_client_to_network demo_tcp) \<ge> 1"
proof -
  obtain ih th where h: "ip_headers demo_syn = Some (ih, Some th)"
    using ip_headers_ok [OF demo_packet_ok(3) demo_syn_facts(1)] by metis
  obtain c where c: "tcp_create demo_cid (Inr demo_stream) ih th = Some (Inr c)"
    by (rule tcp_create_ok [OF demo_packet_ok(3) demo_syn_facts(1) h])
  then have "demo_tcp = c" by (simp add: demo_tcp_def h)
  moreover have "tc_client_to_network c = sb_new (32 * MAX_PACKET_LENGTH)"
    using c by (auto simp: tcp_create_def Let_def split: transport_header.splits Option.bind_splits sum.splits)
  ultimately show ?thesis by (simp add: sb_remaining_content) (simp add: MAX_PACKET_LENGTH_def)
qed

text \<open>A run of a connection that the SYN has opened: its socket becomes writable, and the client's ACK,
  which carries a byte, comes twice.\<close>

definition demo_connecting :: tcp_connection where
  "demo_connecting = demo_syn_sent\<lparr>tc_stream := \<lparr>rx = [], tx = [Inr 0], sent = []\<rparr>\<rparr>"

lemma demo_connecting_facts:
  "cfg_wf (demo_connecting, demo_out)" "cfg_inv True (demo_connecting, demo_out)" "\<not> tc_closed demo_connecting"
  "tcb_state (tc_tcb demo_connecting) = SynSent" "acknowledgement_number (tc_tcb demo_connecting) = 2"
  "delivered demo_connecting = []" "quiet demo_connecting"
  using demo_tcp_ok(1)
  by (simp_all add: demo_connecting_def demo_syn_sent_def cfg_inv_def cfg_wf_def tc_wf_def delivered_def
    quiet_def tcb_new_def)

lemma demo_run:
  obtains cfg where "tcp_run [7, 8] 1 (demo_connecting, demo_out) cfg" "quiet (fst cfg)"
    "tcb_state (tc_tcb (fst cfg)) = Established" "delivered (fst cfg) = [7]"
    "acknowledgement_number (tc_tcb (fst cfg)) = 3"
proof -
  note facts = demo_connecting_facts
  let ?run = "tcp_run [7, 8] 1 (demo_connecting, demo_out)"
  have e: "sb_is_empty (tc_client_to_network demo_connecting)" "sb_remaining (tc_client_to_network demo_connecting) \<ge> 1"
    using facts(1) demo_buffer demo_tcp_ok(1)
    by (simp_all add: demo_connecting_def demo_syn_sent_def sb_is_empty_content tc_wf_def)
  have w: "stream_write [] (tc_stream demo_connecting) = (Inr 0, \<lparr>rx = [], tx = [], sent = [[]]\<rparr>)"
    by (simp add: demo_connecting_def stream_write.simps)
  obtain pk b1 where poll: "tcp_poll (demo_connecting, demo_out) = Some (Inr (),
      tcb_update (\<lambda>t. t\<lparr>tcb_state := SynReceived, sequence_number := sequence_number t + 1\<rparr>) demo_connecting
        \<lparr>tc_network_to_client := pk, tc_stream := \<lparr>rx = [], tx = [], sent = [[]]\<rparr>\<rparr>, b1)"
    "tcp_pk_wf pk" "out_wf b1"
    by (rule poll_connect [OF facts(2,4,3) e(1) w])
  define c1 where "c1 = tcb_update (\<lambda>t. t\<lparr>tcb_state := SynReceived, sequence_number := sequence_number t + 1\<rparr>)
      demo_connecting\<lparr>tc_network_to_client := pk, tc_stream := \<lparr>rx = [], tx = [], sent = [[]]\<rparr>\<rparr>"
  define c2 where "c2 = tcb_update (\<lambda>t. t\<lparr>client_window := tcp_window demo_ack_header,
      their_acknowledgement_number := tcp_acknowledgement_number demo_ack_header, tcb_state := Established\<rparr>) c1"
  have seg: "client_segment [7, 8] 1 demo_ack_header [7]"
    by (auto simp: client_segment_def demo_ack_packet(2-) intro: exI [of _ 0])
  have r1: "?run (c1, b1)"
    using tcp_run.poll [OF tcp_run.start] poll(1) by (simp add: c1_def)
  have h2: "handle_packet 0 demo_ack (c1, b1) = Some (c2, b1)"
    unfolding c2_def
    by (rule handle_handshake_ack [OF demo_ack_packet(1)])
      (use facts in \<open>simp_all add: c1_def demo_ack_packet(2-) quiet_def\<close>)
  have r2: "?run (c2, b1)"
    by (rule tcp_run.packet [OF r1 demo_ack_packet(1) seg _ h2]) (simp add: c1_def)
  have wf: "cfg_wf (c2, b1)"
    using facts(1) poll(2,3) by (simp add: c2_def c1_def cfg_wf_def tc_wf_def)
  have c2: "tcb_state (tc_tcb c2) = Established" "quiet c2" "delivered c2 = []"
    "acknowledgement_number (tc_tcb c2) = 2" "sb_remaining (tc_client_to_network c2) \<ge> 1"
    using facts e(2) by (simp_all add: c2_def c1_def quiet_def delivered_def)
  obtain c3 b3 where h3: "handle_packet 0 demo_ack (c2, b1) = Some (c3, b3)" "quiet c3"
    "delivered c3 = delivered c2 @ [7]" "acknowledgement_number (tc_tcb c3) = acknowledgement_number (tc_tcb c2) + of_nat (length [7 :: byte])"
    "tcb_state (tc_tcb c3) = Established"
    by (rule handle_data [OF wf demo_ack_packet(1) c2(1,2)])
      (use c2 in \<open>simp_all add: demo_ack_packet(2-)\<close>)
  have "?run (c3, b3)"
    by (rule tcp_run.packet [OF r2 demo_ack_packet(1) seg _ h3(1)]) (simp add: c2(1))
  then show ?thesis using that [of "(c3, b3)"] h3(2-) c2 by simp
qed

text \<open>A client that waits for the end of a SYN, and a read of 65536 bytes that ends with the start of the
  next packet.\<close>

lemma items_of_junk:
  "items_bytes (replicate n (Junk x)) = replicate n x" "items_frames (replicate n (Junk x)) = []"
  "list_all item_ok (replicate n (Junk 0))"
  by (induction n) simp_all

definition demo_long_read :: "byte list" where
  "demo_long_read = drop 10 demo_syn_bytes @ replicate 65496 0 @ take 10 demo_syn_bytes"

lemma demo_half_fed:
  obtains cl where "cl_ok True cl" "pb_content (cl_client_to_network cl) = take 10 demo_syn_bytes"
    "cl_router cl = cl_router demo_client" "cl_network_to_client cl = demo_out"
proof -
  have "partial (take 10 demo_syn_bytes)"
    unfolding partial_def by (rule disjI2, intro exI [of _ demo_syn_bytes] exI [of _ 10]) simp
  then obtain ps cl' where "cl_ok True cl'" "map ip_raw ps = items_frames []"
    "pb_content (cl_client_to_network cl') = take 10 demo_syn_bytes"
    "route_all (\<lambda>_. demo_world) 0 ps (cl_router demo_client, cl_network_to_client demo_client) =
      Some (cl_router cl', cl_network_to_client cl')"
    by - (rule feed_ok [where k = True and cl = demo_client and data = "take 10 demo_syn_bytes" and items = "[]" and
      tail = "take 10 demo_syn_bytes" and fuel = 1 and ws = "\<lambda>_. demo_world"],
      simp_all add: MAX_PACKET_LENGTH_def demo_lengths)
  then show ?thesis using that [of cl'] by simp
qed
lemma demo_long_read_cut:
  "length demo_long_read = 65536" "take 65526 demo_long_read = drop 10 demo_syn_bytes @ replicate 65496 0"
  by (simp_all add: demo_long_read_def)

lemma demo_truncated_read:
  assumes "cl_ok True cl" "pb_content (cl_client_to_network cl) = take 10 demo_syn_bytes"
  shows "\<exists>cl'. feed_device_data 65498 (\<lambda>_. demo_world) (take 65526 demo_long_read) cl = Some (Some (1, cl')) \<and>
    pb_content (cl_client_to_network cl') = []"
proof -
  let ?items = "Frame demo_syn_bytes # replicate 65496 (Junk 0)"
  have data: "take 65526 demo_long_read \<noteq> []"
    unfolding demo_long_read_cut(2) by simp
  have bytes: "pb_content (cl_client_to_network cl) @ take 65526 demo_long_read = items_bytes ?items @ []"
    unfolding assms(2) demo_long_read_cut(2) by (simp add: items_of_junk)
  have items: "list_all item_ok ?items" "partial []" "length ?items < 65498"
    by (simp_all add: items_of_junk)
  have fits: "length (pb_content (cl_client_to_network cl)) + length (take 65526 demo_long_read)
      \<le> MAX_PACKET_LENGTH"
    unfolding assms(2) by (simp add: demo_long_read_cut(1) MAX_PACKET_LENGTH_def)
  obtain ps cl' where "feed_device_data 65498 (\<lambda>_. demo_world) (take 65526 demo_long_read) cl =
      Some (Some (length ps, cl'))" "map ip_raw ps = items_frames ?items" "pb_content (cl_client_to_network cl') = []"
    by (rule feed_ok [where ws = "\<lambda>_. demo_world", OF assms(1) data bytes items fits demo_world_short])
  moreover from this(2) have "length ps = 1"
    by (simp add: items_of_junk) (metis length_map length_Cons list.size(3) One_nat_def)
  ultimately show ?thesis by (simp del: take_replicate)
qed

end
