(* ===== verification/Serial_Registry.thy ===== *)
theory Serial_Registry
  imports Std_Time
begin

text \<open>
  \<open>relay/serial_registry.rs\<close>: the queue of the serials that are about to connect. The static \<open>Mutex\<close>
  is the queue passed explicitly (each operation holds the lock throughout); the clock is an argument.
\<close>

record pending_entry =
  pe_serial :: string
  pe_registered_at :: instant

type_synonym registry = "pending_entry list"

definition MATCH_WINDOW :: nat where
  "MATCH_WINDOW = from_secs 30"

definition MAX_PENDING :: nat where
  "MAX_PENDING = 8"

definition register_pending :: "instant \<Rightarrow> string \<Rightarrow> registry \<Rightarrow> registry" where
  "register_pending now serial q =
     (let q1 = filter (\<lambda>e. duration_since now (pe_registered_at e) < MATCH_WINDOW) q;
          q2 = (if MAX_PENDING \<le> length q1 then tl q1 else q1)
      in q2 @ [\<lparr>pe_serial = serial, pe_registered_at = now\<rparr>])"

fun drop_expired :: "instant \<Rightarrow> registry \<Rightarrow> registry" where
  "drop_expired now [] = []"
| "drop_expired now (front # q) =
     (if MATCH_WINDOW \<le> duration_since now (pe_registered_at front) then drop_expired now q
      else front # q)"

definition take_pending :: "instant \<Rightarrow> registry \<Rightarrow> string option \<times> registry" where
  "take_pending now q =
     (case drop_expired now q of
        [] \<Rightarrow> (None, [])
      | e # q' \<Rightarrow> (Some (pe_serial e), q'))"

text \<open>The queue is bounded and in the order of registration, none of it in the future.\<close>

definition registry_ok :: "instant \<Rightarrow> registry \<Rightarrow> bool" where
  "registry_ok now q \<longleftrightarrow> length q \<le> MAX_PENDING \<and> sorted (map pe_registered_at q) \<and>
     list_all (\<lambda>e. pe_registered_at e \<le> now) q"

text \<open>What the window lets through.\<close>

definition live :: "instant \<Rightarrow> registry \<Rightarrow> registry" where
  "live now q = filter (\<lambda>e. now < pe_registered_at e + MATCH_WINDOW) q"

lemma window_positive [simp]: "0 < MATCH_WINDOW"
  by (simp add: MATCH_WINDOW_def from_secs_def)

lemma in_window_iff: "duration_since now t < MATCH_WINDOW \<longleftrightarrow> now < t + MATCH_WINDOW"
  by (simp add: duration_since_less_iff)

lemma registry_ok_later: "registry_ok now q \<Longrightarrow> now \<le> now' \<Longrightarrow> registry_ok now' q"
  by (auto simp: registry_ok_def list_all_iff)

lemma registry_ok_filter: "registry_ok now q \<Longrightarrow> registry_ok now (filter P q)"
  by (auto simp: registry_ok_def list_all_iff sorted_filter intro: le_trans [OF length_filter_le])

text \<open>In an ordered queue the expired entries are in front.\<close>

lemma drop_expired_live: "registry_ok now q \<Longrightarrow> drop_expired now q = live now q"
proof (induction q)
  case (Cons e q)
  have ok: "registry_ok now q" using Cons.prems by (simp add: registry_ok_def)
  show ?case
  proof (cases "MATCH_WINDOW \<le> duration_since now (pe_registered_at e)")
    case True
    then show ?thesis using Cons.IH [OF ok] in_window_iff [of now "pe_registered_at e"]
      by (simp add: live_def)
  next
    case False
    then have "now < pe_registered_at e + MATCH_WINDOW" using in_window_iff by (simp add: not_le)
    moreover have "pe_registered_at e \<le> pe_registered_at f" if "f \<in> set q" for f
      using Cons.prems that by (simp add: registry_ok_def)
    ultimately have "\<forall>f \<in> set q. now < pe_registered_at f + MATCH_WINDOW"
      by (meson add_le_mono1 less_le_trans)
    with False \<open>now < _\<close> show ?thesis by (simp add: live_def)
  qed
qed (simp add: live_def)

lemma register_pending_live:
  assumes "registry_ok now q"
  shows "register_pending now serial q =
    drop (length (live now q) - 7) (live now q) @ [\<lparr>pe_serial = serial, pe_registered_at = now\<rparr>]"
proof -
  have "length (live now q) \<le> 8"
    using assms le_trans [OF length_filter_le] by (auto simp: registry_ok_def MAX_PENDING_def live_def)
  then have "length (live now q) - 7 = (if 8 \<le> length (live now q) then 1 else 0)" by simp
  then show ?thesis
    by (simp add: register_pending_def in_window_iff live_def [symmetric] MAX_PENDING_def Let_def drop_Suc)
qed

lemma register_pending_ok:
  assumes "registry_ok now q"
  shows "registry_ok now (register_pending now serial q)"
proof -
  let ?l = "live now q"
  have l: "registry_ok now ?l" unfolding live_def by (rule registry_ok_filter [OF assms])
  then have "sorted (map pe_registered_at (drop (length ?l - 7) ?l))"
    "\<And>e. e \<in> set (drop (length ?l - 7) ?l) \<Longrightarrow> pe_registered_at e \<le> now"
    by (auto simp: registry_ok_def drop_map [symmetric] list_all_iff sorted_wrt_drop dest: in_set_dropD)
  then show ?thesis
    unfolding register_pending_live [OF assms]
    by (auto simp: registry_ok_def MAX_PENDING_def sorted_append list_all_iff)
qed

lemma live_register:
  assumes "registry_ok now q"
  shows "live now (register_pending now serial q) =
    drop (length (live now q) - 7) (live now q) @ [\<lparr>pe_serial = serial, pe_registered_at = now\<rparr>]"
proof -
  have "live now (drop n (live now q)) = drop n (live now q)" for n
    unfolding live_def [of now "drop n (live now q)"]
    by (intro filter_True) (auto simp: live_def dest: in_set_dropD)
  then show ?thesis
    unfolding register_pending_live [OF assms]
    by (simp add: live_def [of now "_ @ _"] live_def [of now "drop _ _", symmetric])
qed

lemma take_pending_live:
  assumes "registry_ok now q"
  shows "take_pending now q =
    (case live now q of [] \<Rightarrow> (None, []) | e # r \<Rightarrow> (Some (pe_serial e), r))"
  by (simp add: take_pending_def drop_expired_live [OF assms])

lemma take_pending_ok:
  assumes "registry_ok now q"
  shows "registry_ok now (snd (take_pending now q))"
proof -
  have "registry_ok now (live now q)" unfolding live_def by (rule registry_ok_filter [OF assms])
  then show ?thesis
    unfolding take_pending_live [OF assms]
    by (auto simp: registry_ok_def split: list.split)
qed

text \<open>A device that registers and connects within the window gets its own serial when no other
  registration is live.\<close>

lemma take_after_register:
  assumes "registry_ok now q" "live now q = []" "now \<le> now'" "now' < now + MATCH_WINDOW"
  shows "take_pending now' (register_pending now serial q) = (Some serial, [])"
  using assms take_pending_live [OF registry_ok_later [OF register_pending_ok [OF assms(1)] assms(3)]]
  by (simp add: register_pending_live live_def)

end
