(* ===== verification/Host.thy ===== *)
theory Host
  imports Std_Text Io Serial_Registry "HOL-Library.State_Monad"
begin

text \<open>
  The host as the command line program sees it. A command is a computation of the library's state
  monad: its state holds what the program has done so far (\<open>hs_trace\<close>), its own statics, and the
  environment, which answers each request as a function of what was done before. A theorem about all
  environments is a theorem about all behaviours of \<open>adb\<close>, \<open>nmcli\<close>, the user and the file system.
\<close>

subsection \<open>Processes and the environment\<close>

text \<open>\<open>ExitStatus\<close> on Unix: an exit code, or a signal.\<close>

datatype exit_status = Exited int | Killed "int option"

fun success :: "exit_status \<Rightarrow> bool" where
  "success (Exited code) \<longleftrightarrow> code = 0"
| "success (Killed _) \<longleftrightarrow> False"

record process_output =
  out_status :: exit_status
  out_stdout :: "byte list"
  out_stderr :: "byte list"

text \<open>What the program does that others can see.\<close>

datatype effect =
    Exec string "string list"
  | Sleep nat
  | Registered string
  | Asked string
  | ReadLine
  | Drew
  | CreateDir string
  | RemoveFile string
  | RemoveDir string
  | SetPermissions string nat
  | OpenAppend string

text \<open>\<open>env_var\<close>: \<open>None\<close> when unset, \<open>Some None\<close> when it is not UTF-8.\<close>

record environment =
  ev_run :: "effect list \<Rightarrow> string \<Rightarrow> string list \<Rightarrow> process_output io_result"
  ev_line :: "effect list \<Rightarrow> string io_result"
  ev_terminal :: bool
  ev_var :: "string \<Rightarrow> string option option"
  ev_read_file :: "string \<Rightarrow> string io_result"
  ev_exists :: "effect list \<Rightarrow> string \<Rightarrow> bool"
  ev_file_op :: "effect list \<Rightarrow> effect \<Rightarrow> unit io_result"
  ev_current_exe :: "string io_result"
  ev_temp_dir :: string
  ev_random :: "effect list \<Rightarrow> u32"
  ev_now :: "effect list \<Rightarrow> instant"
  ev_pid :: nat
  ev_parse_socket_addr :: "string \<Rightarrow> socket_addr option"

record host =
  hs_env :: environment
  hs_trace :: "effect list"
  hs_adb_path :: "string option"
  hs_registry :: registry
  hs_socks5_proxy :: "socket_addr option"

type_synonym 'a action = "(host, 'a) state"

subsection \<open>The primitive actions\<close>

definition act :: "effect \<Rightarrow> (environment \<Rightarrow> effect list \<Rightarrow> 'a) \<Rightarrow> 'a action" where
  "act e answer = State (\<lambda>h. (answer (hs_env h) (hs_trace h), h\<lparr>hs_trace := hs_trace h @ [e]\<rparr>))"

definition look :: "(host \<Rightarrow> 'a) \<Rightarrow> 'a action" where
  "look f = State (\<lambda>h. (f h, h))"

text \<open>\<open>Command::new(program).args(args).output()\<close>; \<open>status()\<close> is its exit status.\<close>

definition exec :: "string \<Rightarrow> string list \<Rightarrow> process_output io_result action" where
  "exec program args = act (Exec program args) (\<lambda>env trace. ev_run env trace program args)"

definition sleep_ms :: "nat \<Rightarrow> unit action" where
  "sleep_ms ms = act (Sleep ms) (\<lambda>_ _. ())"

definition read_line :: "string io_result action" where
  "read_line = act ReadLine (\<lambda>env trace. ev_line env trace)"

definition random_u32 :: "u32 action" where
  "random_u32 = act Drew (\<lambda>env trace. ev_random env trace)"

definition file_op :: "effect \<Rightarrow> unit io_result action" where
  "file_op e = act e (\<lambda>env trace. ev_file_op env trace e)"

definition eprint_question :: "string \<Rightarrow> unit action" where
  "eprint_question question = act (Asked question) (\<lambda>_ _. ())"

definition set_adb_path :: "string \<Rightarrow> unit action" where
  "set_adb_path path = State (\<lambda>h. ((), h\<lparr>hs_adb_path :=
     (case hs_adb_path h of None \<Rightarrow> Some path | Some p \<Rightarrow> Some p)\<rparr>))"

text \<open>The same for \<open>tcp_connection::SOCKS5_PROXY\<close>, when the text parses as an address.\<close>

definition set_socks5_proxy :: "string option \<Rightarrow> unit action" where
  "set_socks5_proxy socks5 = State (\<lambda>h. ((),
     case Option.bind socks5 (ev_parse_socket_addr (hs_env h)) of
       None \<Rightarrow> h
     | Some addr \<Rightarrow> h\<lparr>hs_socks5_proxy :=
         (case hs_socks5_proxy h of None \<Rightarrow> Some addr | Some a \<Rightarrow> Some a)\<rparr>))"

text \<open>\<open>serial_registry::register_pending\<close> on the library's static.\<close>

definition register_serial :: "string \<Rightarrow> unit action" where
  "register_serial serial = State (\<lambda>h. ((), h\<lparr>hs_trace := hs_trace h @ [Registered serial],
     hs_registry := register_pending (ev_now (hs_env h) (hs_trace h)) serial (hs_registry h)\<rparr>))"

text \<open>The operator \<open>?\<close>, and \<open>let _ = ...\<close>.\<close>

definition ok_then :: "('e + 'a) action \<Rightarrow> ('a \<Rightarrow> ('e + 'b) action) \<Rightarrow> ('e + 'b) action" where
  "ok_then m f = do {
     r \<leftarrow> m;
     case r of Inl e \<Rightarrow> State_Monad.return (Inl e) | Inr x \<Rightarrow> f x
   }"

abbreviation ret :: "'a \<Rightarrow> 'a action" where
  "ret \<equiv> State_Monad.return"

definition skip :: "unit action" where
  "skip = ret ()"

definition ignoring :: "'a action \<Rightarrow> unit action" where
  "ignoring m = do { _ \<leftarrow> m; skip }"

fun for_all :: "'i list \<Rightarrow> ('i \<Rightarrow> unit action) \<Rightarrow> unit action" where
  "for_all [] f = skip"
| "for_all (i # is) f = do { f i; for_all is f }"

subsection \<open>What a computation does\<close>

named_theorems run_simps "running the actions of the model"

lemma run_act [run_simps]:
  "run_state (act e answer) h = (answer (hs_env h) (hs_trace h), h\<lparr>hs_trace := hs_trace h @ [e]\<rparr>)"
  by (simp add: act_def)

lemma run_look [run_simps]: "run_state (look f) h = (f h, h)"
  by (simp add: look_def)

lemma run_ok_then [run_simps]:
  "run_state (ok_then m f) h =
     (case run_state m h of (Inl e, h') \<Rightarrow> (Inl e, h') | (Inr x, h') \<Rightarrow> run_state (f x) h')"
  by (auto simp: ok_then_def split: prod.splits sum.splits)

lemma run_ignoring [run_simps]: "run_state (ignoring m) h = ((), snd (run_state m h))"
  by (simp add: ignoring_def skip_def split: prod.split)

lemma run_skip [run_simps]: "run_state skip h = ((), h)"
  by (simp add: skip_def)

lemmas primitive_defs = exec_def sleep_ms_def read_line_def random_u32_def file_op_def
  eprint_question_def

text \<open>\<open>does P m\<close>: whatever the host, \<open>m\<close> leaves the environment alone and adds to the trace effects that
  satisfy \<open>P\<close> only. It composes, so that the effects of a command are read off its text.\<close>

definition does :: "(effect \<Rightarrow> bool) \<Rightarrow> 'a action \<Rightarrow> bool" where
  "does P m \<longleftrightarrow> (\<forall>h. hs_env (snd (run_state m h)) = hs_env h \<and>
     (\<exists>t. hs_trace (snd (run_state m h)) = hs_trace h @ t \<and> list_all P t))"

named_theorems does_intros "what the actions do"

lemma doesD:
  assumes "does P m" "run_state m h = (r, h')"
  obtains t where "hs_env h' = hs_env h" "hs_trace h' = hs_trace h @ t" "list_all P t"
  using assms unfolding does_def by (metis snd_conv)

lemma does_return [does_intros, simp]: "does P (ret x)"
  by (simp add: does_def)

lemma does_skip [does_intros, simp]: "does P skip"
  by (simp add: skip_def)

lemma does_look [does_intros, simp]: "does P (look f)"
  by (simp add: does_def run_simps)

lemma does_act [does_intros]: "P e \<Longrightarrow> does P (act e answer)"
  by (simp add: does_def run_simps)

lemma does_bind [does_intros]:
  assumes "does P m" "\<And>x. does P (f x)"
  shows "does P (State_Monad.bind m f)"
  unfolding does_def
proof
  fix h
  obtain r h1 where m: "run_state m h = (r, h1)" by force
  obtain r' h2 where f: "run_state (f r) h1 = (r', h2)" by force
  obtain t where t: "hs_env h1 = hs_env h" "hs_trace h1 = hs_trace h @ t" "list_all P t"
    by (rule doesD [OF assms(1) m])
  obtain t' where "hs_env h2 = hs_env h1" "hs_trace h2 = hs_trace h1 @ t'" "list_all P t'"
    by (rule doesD [OF assms(2) f])
  then show "hs_env (snd (run_state (State_Monad.bind m f) h)) = hs_env h \<and>
      (\<exists>t. hs_trace (snd (run_state (State_Monad.bind m f) h)) = hs_trace h @ t \<and> list_all P t)"
    using m f t by simp
qed

lemma does_ok_then [does_intros]:
  assumes "does P m" "\<And>x. does P (f x)"
  shows "does P (ok_then m f)"
  unfolding ok_then_def
  by (rule does_bind [OF assms(1)]) (auto split: sum.split intro: assms(2))

lemma does_ignoring [does_intros]: "does P m \<Longrightarrow> does P (ignoring m)"
  unfolding ignoring_def by (rule does_bind) simp_all

lemma does_if [does_intros]: "(c \<Longrightarrow> does P m) \<Longrightarrow> (\<not> c \<Longrightarrow> does P n) \<Longrightarrow> does P (if c then m else n)"
  by simp

lemma does_case_sum [does_intros]:
  "(\<And>x. r = Inl x \<Longrightarrow> does P (f x)) \<Longrightarrow> (\<And>y. r = Inr y \<Longrightarrow> does P (g y)) \<Longrightarrow>
   does P (case r of Inl x \<Rightarrow> f x | Inr y \<Rightarrow> g y)"
  by (cases r) simp_all

lemma does_case_option [does_intros]:
  "(r = None \<Longrightarrow> does P f) \<Longrightarrow> (\<And>y. r = Some y \<Longrightarrow> does P (g y)) \<Longrightarrow>
   does P (case r of None \<Rightarrow> f | Some y \<Rightarrow> g y)"
  by (cases r) simp_all

lemma does_case_list [does_intros]:
  "(r = [] \<Longrightarrow> does P f) \<Longrightarrow> (\<And>x xs. r = x # xs \<Longrightarrow> does P (g x xs)) \<Longrightarrow>
   does P (case r of [] \<Rightarrow> f | x # xs \<Rightarrow> g x xs)"
  by (cases r) simp_all

lemma does_case_prod [does_intros]: "(\<And>x y. r = (x, y) \<Longrightarrow> does P (f x y)) \<Longrightarrow> does P (case r of (x, y) \<Rightarrow> f x y)"
  by (cases r) simp_all

lemma does_let [does_intros]: "does P (f x) \<Longrightarrow> does P (Let x f)"
  by simp

lemma does_for_all [does_intros]: "(\<And>i. i \<in> set is \<Longrightarrow> does P (f i)) \<Longrightarrow> does P (for_all is f)"
  by (induction "is") (auto intro!: does_bind)

lemma does_set_adb_path [does_intros, simp]: "does P (set_adb_path path)"
  by (simp add: does_def set_adb_path_def)

lemma does_set_socks5_proxy [does_intros, simp]: "does P (set_socks5_proxy socks5)"
  by (simp add: does_def set_socks5_proxy_def split: option.split)

lemma does_register_serial [does_intros]: "P (Registered serial) \<Longrightarrow> does P (register_serial serial)"
  by (simp add: does_def register_serial_def)

lemma does_primitives [does_intros]:
  "P (Exec program args) \<Longrightarrow> does P (exec program args)"
  "P (Sleep ms) \<Longrightarrow> does P (sleep_ms ms)"
  "P ReadLine \<Longrightarrow> does P read_line"
  "P Drew \<Longrightarrow> does P random_u32"
  "P e \<Longrightarrow> does P (file_op e)"
  "P (Asked question) \<Longrightarrow> does P (eprint_question question)"
  unfolding primitive_defs by (rule does_act, assumption)+

lemma does_mono: "does P m \<Longrightarrow> (\<And>e. P e \<Longrightarrow> Q e) \<Longrightarrow> does Q m"
  unfolding does_def by (metis (mono_tags, lifting) list.pred_mono_strong)

end
