(* ===== verification/Execution_Error.thy ===== *)
theory Execution_Error
  imports Host
begin

text \<open>
  \<open>execution_error.rs\<close>: what a command can fail with, how severe it is and what the user is told. An
  \<open>io::Error\<close> is its kind; its text, and the quoting of an argument (\<open>{:?}\<close> of a string), are the
  library's: the arguments \<open>io_text\<close> and \<open>debug\<close> of what prints them.
\<close>

datatype severity_level = Warning | Error

datatype process_termination = Value int | Signal int

text \<open>\<open>Termination::from\<close> on Unix.\<close>

fun termination_of :: "exit_status \<Rightarrow> process_termination" where
  "termination_of (Exited code) = Value code"
| "termination_of (Killed signal) = Signal (case signal of Some s \<Rightarrow> s | None \<Rightarrow> -1)"

record cmd =
  cmd_command :: string
  cmd_args :: "string list"

definition cmd_new :: "string \<Rightarrow> string list \<Rightarrow> cmd" where
  "cmd_new command args = \<lparr>cmd_command = command, cmd_args = args\<rparr>"

datatype command_execution_error =
    ProcessIo cmd io_error_kind
  | ProcessStatus cmd process_termination
  | Io io_error_kind

type_synonym 'a cmd_result = "command_execution_error + 'a"

text \<open>\<open>ProcessStatusError::new\<close>, \<open>ProcessIoError::new\<close>.\<close>

definition process_status_error :: "cmd \<Rightarrow> exit_status \<Rightarrow> command_execution_error" where
  "process_status_error c status = ProcessStatus c (termination_of status)"

definition process_io_error :: "cmd \<Rightarrow> io_error_kind \<Rightarrow> command_execution_error" where
  "process_io_error c error = ProcessIo c error"

fun severity :: "command_execution_error \<Rightarrow> severity_level" where
  "severity (Io kind) =
     (if kind \<in> {ConnectionReset, ConnectionAborted, TimedOut, WouldBlock} then Warning else Error)"
| "severity (ProcessStatus c t) = (if t = Value 1 then Warning else Error)"
| "severity (ProcessIo c kind) = Error"

fun suggestion :: "command_execution_error \<Rightarrow> string" where
  "suggestion (ProcessIo c kind) =
     (if kind = NotFound then ''Install adb or set the ADB env var''
      else ''Run `adb start-server`. Try a different USB cable or port'')"
| "suggestion (ProcessStatus c (Value code)) =
     (if code = 1 then ''Check that `gnirehtet.apk` is valid and the device screen is unlocked''
      else ''Restart ADB: `adb kill-server && adb start-server`'')"
| "suggestion (ProcessStatus c (Signal s)) = ''ADB was killed by the system. Restart the daemon''"
| "suggestion (Io kind) =
     (if kind = NotFound then
        ''APK not found. Download from releases, build with `make apk`, or set GNIREHTET_APK''
      else if kind = ConnectionRefused then
        ''Port in use or no device connected. Use `-p PORT` to change it''
      else if kind = TimedOut then ''High latency or device disconnected. Check the cable''
      else if kind = ConnectionReset then ''Connection reset. Cable issue or device unplugged''
      else ''Check USB connection and try again'')"

text \<open>The \<open>Display\<close> implementations; a list of strings is printed in brackets by \<open>{:?}\<close>.\<close>

definition show_int :: "int \<Rightarrow> string" where
  "show_int i = (if i < 0 then CHR ''-'' # show_dec (nat (- i)) else show_dec (nat i))"

definition display_cmd :: "(string \<Rightarrow> string) \<Rightarrow> cmd \<Rightarrow> string" where
  "display_cmd debug c = cmd_command c @ '' '' @ ''['' @ join '', '' (map debug (cmd_args c)) @ '']''"

fun display_process_status :: "(string \<Rightarrow> string) \<Rightarrow> cmd \<Rightarrow> process_termination \<Rightarrow> string" where
  "display_process_status debug c (Value code) = display_cmd debug c @ '' returned '' @ show_int code"
| "display_process_status debug c (Signal sig) = display_cmd debug c @ '' killed by signal '' @ show_int sig"

definition display_process_io :: "(string \<Rightarrow> string) \<Rightarrow> (io_error_kind \<Rightarrow> string) \<Rightarrow> cmd \<Rightarrow> io_error_kind \<Rightarrow> string" where
  "display_process_io debug io_text c error = display_cmd debug c @ '' failed: '' @ io_text error"

fun display_error :: "(string \<Rightarrow> string) \<Rightarrow> (io_error_kind \<Rightarrow> string) \<Rightarrow> command_execution_error \<Rightarrow> string" where
  "display_error debug io_text (ProcessIo c error) = display_process_io debug io_text c error"
| "display_error debug io_text (ProcessStatus c t) = display_process_status debug c t"
| "display_error debug io_text (Io error) = ''IO: '' @ io_text error"

text \<open>\<open>print_error\<close>: the line it writes to the standard error.\<close>

definition YELLOW :: string where "YELLOW = CHR 0x1B # ''[33m''"
definition RED :: string where "RED = CHR 0x1B # ''[31m''"
definition RESET :: string where "RESET = CHR 0x1B # ''[0m''"

definition error_line ::
    "(string \<Rightarrow> string) \<Rightarrow> (io_error_kind \<Rightarrow> string) \<Rightarrow> command_execution_error \<Rightarrow> string" where
  "error_line debug io_text err =
     (let severity_mark = (if severity err = Error then ''!'' else ''?'');
          prefix = (if severity err = Error then RED else YELLOW)
      in prefix @ severity_mark @ '' '' @ display_error debug io_text err @ ''. '' @ suggestion err @ RESET)"

text \<open>A process that ran is an error exactly when its status is not a success.\<close>

lemma success_iff: "success s \<longleftrightarrow> termination_of s = Value 0"
  by (cases s) simp_all

lemma suggestion_nonempty: "suggestion err \<noteq> []"
  by (cases err rule: suggestion.cases) simp_all

text \<open>The suggestions that speak of a cable or of the latency go with a warning, those of a missing
  file or port with an error.\<close>

lemma io_severity:
  "severity (Io kind) = Error \<longleftrightarrow> kind \<notin> {ConnectionReset, ConnectionAborted, TimedOut, WouldBlock}"
  by simp

end
