(* ===== verification/Adb.thy ===== *)
theory Adb
  imports Execution_Error
begin

text \<open>
  \<open>adb.rs\<close>: finding \<open>adb\<close> (the Linux build), running it, and deciding whether the client must be
  installed.
\<close>

definition REQUIRED_APK_VERSION_CODE :: string where
  "REQUIRED_APK_VERSION_CODE = ''2603''"

subsection \<open>The path of \<open>adb\<close>\<close>

text \<open>\<open>env_var.into_string()\<close>, with the fallback of the callers.\<close>

definition env_path :: "string \<Rightarrow> string option \<Rightarrow> string" where
  "env_path fallback value = (case value of Some p \<Rightarrow> p | None \<Rightarrow> fallback)"

definition get_adb_path :: "string action" where
  "get_adb_path = look (\<lambda>h. case hs_adb_path h of
       Some p \<Rightarrow> p
     | None \<Rightarrow> (case ev_var (hs_env h) ''ADB'' of
           Some env_adb \<Rightarrow> env_path ''adb'' env_adb
         | None \<Rightarrow> ''adb''))"

definition get_apk_path :: "string action" where
  "get_apk_path = look (\<lambda>h. case ev_var (hs_env h) ''GNIREHTET_APK'' of
       Some env_apk \<Rightarrow> env_path ''gnirehtet.apk'' env_apk
     | None \<Rightarrow> ''gnirehtet.apk'')"

text \<open>What the download can fail with: the constructor stands for the message.\<close>

datatype download_error =
    NoBinaryPath | NoBinaryDirectory | TempDirFailed | CurlFailed | DownloadFailed
  | UnzipFailed | ExtractionFailed | AdbMissing | PermissionsFailed

text \<open>\<open>Path::join\<close> and \<open>Path::parent\<close> of the absolute, normalised paths met here.\<close>

definition path_join :: "string \<Rightarrow> string \<Rightarrow> string" where
  "path_join dir file = (if dir \<noteq> [] \<and> last dir = CHR ''/'' then dir @ file else dir @ ''/'' @ file)"

definition path_parent :: "string \<Rightarrow> string option" where
  "path_parent path =
     (let rest = dropWhile (\<lambda>c. c \<noteq> CHR ''/'') (rev path) in
      if rest = [] then Some [] else if rest = ''/'' then (if path = ''/'' then None else Some ''/'')
      else Some (rev (tl rest)))"

definition get_platform :: string where
  "get_platform = ''linux''"

definition download :: "string \<Rightarrow> string \<Rightarrow> (download_error + unit) action" where
  "download url dest = do {
     r \<leftarrow> exec ''curl'' [''-fLo'', dest, url];
     ret (case r of
         Inl _ \<Rightarrow> Inl CurlFailed
       | Inr out \<Rightarrow> if success (out_status out) then Inr () else Inl DownloadFailed)
   }"

definition is_command_available :: "string \<Rightarrow> bool action" where
  "is_command_available command = do {
     r \<leftarrow> exec ''which'' [command];
     ret (case r of Inr out \<Rightarrow> success (out_status out) | Inl _ \<Rightarrow> False)
   }"

definition extract_adb :: "string \<Rightarrow> string \<Rightarrow> string \<Rightarrow> (download_error + unit) action" where
  "extract_adb zip_path dest_dir platform = do {
     let files_to_extract =
       (if platform = ''windows''
        then [''platform-tools/adb.exe'', ''platform-tools/AdbWinApi.dll'', ''platform-tools/AdbWinUsbApi.dll'']
        else [''platform-tools/adb'']);
     r \<leftarrow> exec ''unzip'' ([''-o'', zip_path] @ files_to_extract @ [''-d'', dest_dir]);
     ret (case r of
         Inl _ \<Rightarrow> Inl UnzipFailed
       | Inr out \<Rightarrow> if success (out_status out) then Inr () else Inl ExtractionFailed)
   }"

definition map_error :: "'e \<Rightarrow> ('d + 'a) \<Rightarrow> 'e + 'a" where
  "map_error e r = (case r of Inl _ \<Rightarrow> Inl e | Inr x \<Rightarrow> Inr x)"

definition binary_directory :: "(download_error + string) action" where
  "binary_directory = look (\<lambda>h.
     case ev_current_exe (hs_env h) of
       Inl _ \<Rightarrow> Inl NoBinaryPath
     | Inr exe \<Rightarrow> (case path_parent exe of None \<Rightarrow> Inl NoBinaryDirectory | Some dir \<Rightarrow> Inr dir))"

definition exists :: "string \<Rightarrow> bool action" where
  "exists path = look (\<lambda>h. ev_exists (hs_env h) (hs_trace h) path)"

definition make_executable :: "string \<Rightarrow> (download_error + string) action" where
  "make_executable adb_binary = do {
     present \<leftarrow> exists adb_binary;
     if \<not> present then ret (Inl AdbMissing)
     else ok_then (do { r \<leftarrow> file_op (SetPermissions adb_binary 0x1ED); ret (map_error PermissionsFailed r) })
       (\<lambda>_. do { ignoring (is_command_available ''apt''); ret (Inr adb_binary) })
   }"

definition download_and_extract_adb :: "(download_error + string) action" where
  "download_and_extract_adb =
     ok_then binary_directory (\<lambda>exe_dir. do {
       let adb_binary = path_join exe_dir ''adb'';
       present \<leftarrow> exists adb_binary;
       if present then ret (Inr adb_binary)
       else do {
         let url = ''https://dl.google.com/android/repository/platform-tools-latest-'' @ get_platform @ ''.zip'';
         temp_dir \<leftarrow> look (\<lambda>h. ev_temp_dir (hs_env h));
         let tmp_dir = path_join temp_dir ''gnirehtet-adb'';
         let zip_path = path_join tmp_dir ''platform-tools-latest.zip'';
         ok_then (do { r \<leftarrow> file_op (CreateDir tmp_dir); ret (map_error TempDirFailed r) }) (\<lambda>_.
         ok_then (download url zip_path) (\<lambda>_.
         ok_then (extract_adb zip_path exe_dir get_platform) (\<lambda>_. do {
           ignoring (file_op (RemoveFile zip_path));
           ignoring (file_op (RemoveDir tmp_dir));
           make_executable adb_binary
         })))
       }
     })"

definition ensure_adb :: "unit action" where
  "ensure_adb = do {
     known \<leftarrow> look hs_adb_path;
     if known \<noteq> None then skip
     else do {
       env_adb \<leftarrow> look (\<lambda>h. ev_var (hs_env h) ''ADB'');
       case env_adb of
         Some value \<Rightarrow> set_adb_path (env_path ''adb'' value)
       | None \<Rightarrow> do {
           r \<leftarrow> exec ''adb'' [''version''];
           if (case r of Inr out \<Rightarrow> success (out_status out) | Inl _ \<Rightarrow> False)
           then set_adb_path ''adb''
           else do {
             d \<leftarrow> download_and_extract_adb;
             set_adb_path (case d of Inr path \<Rightarrow> path | Inl _ \<Rightarrow> ''adb'')
           }
         }
     }
   }"

subsection \<open>Running it\<close>

definition create_adb_args :: "string option \<Rightarrow> string list \<Rightarrow> string list" where
  "create_adb_args serial args = (case serial of Some s \<Rightarrow> [''-s'', s] | None \<Rightarrow> []) @ args"

definition exec_adb :: "string option \<Rightarrow> string list \<Rightarrow> unit cmd_result action" where
  "exec_adb serial args = do {
     let adb_args = create_adb_args serial args;
     adb \<leftarrow> get_adb_path;
     r \<leftarrow> exec adb adb_args;
     ret (case r of
         Inr out \<Rightarrow>
           if success (out_status out) then Inr ()
           else Inl (process_status_error (cmd_new adb adb_args) (out_status out))
       | Inl err \<Rightarrow> Inl (process_io_error (cmd_new adb adb_args) err))
   }"

text \<open>The first line that starts with \<open>versionCode=\<close> decides; \<open>None\<close>: there is none. A line that
  starts so has a first word that does.\<close>

fun apk_version :: "string list \<Rightarrow> string option" where
  "apk_version [] = None"
| "apk_version (line # ls) =
     (let trimmed = trim line in
      if starts_with trimmed ''versionCode=''
      then (case split_whitespace trimmed of
          code_part # _ \<Rightarrow>
            (case strip_prefix code_part ''versionCode='' of
               Some code \<Rightarrow> Some code
             | None \<Rightarrow> apk_version ls)
        | [] \<Rightarrow> apk_version ls)
      else apk_version ls)"

definition must_install_client :: "string option \<Rightarrow> bool cmd_result action" where
  "must_install_client serial = do {
     let args = create_adb_args serial [''shell'', ''dumpsys'', ''package'', ''com.genymobile.gnirehtet''];
     adb \<leftarrow> get_adb_path;
     r \<leftarrow> exec adb args;
     ret (case r of
         Inr out \<Rightarrow>
           if success (out_status out)
           then Inr (case apk_version (lines (from_utf8_lossy (out_stdout out))) of
               Some code \<Rightarrow> code \<noteq> REQUIRED_APK_VERSION_CODE
             | None \<Rightarrow> True)
           else Inl (process_status_error (cmd_new adb args) (out_status out))
       | Inl err \<Rightarrow> Inl (process_io_error (cmd_new adb args) err))
   }"

lemma exec_adb_run:
  "run_state (exec_adb serial args) h =
     (let adb = fst (run_state get_adb_path h); adb_args = create_adb_args serial args in
      (case ev_run (hs_env h) (hs_trace h) adb adb_args of
         Inr out \<Rightarrow>
           if success (out_status out) then Inr ()
           else Inl (process_status_error (cmd_new adb adb_args) (out_status out))
       | Inl err \<Rightarrow> Inl (process_io_error (cmd_new adb adb_args) err),
       h\<lparr>hs_trace := hs_trace h @ [Exec adb adb_args]\<rparr>))"
  by (simp add: exec_adb_def get_adb_path_def run_simps exec_def Let_def)

lemma does_get_adb_path [does_intros, simp]: "does P get_adb_path"
  by (simp add: get_adb_path_def)

lemma does_exec_adb [does_intros]:
  "(\<And>adb. P (Exec adb (create_adb_args serial args))) \<Longrightarrow> does P (exec_adb serial args)"
  unfolding exec_adb_def Let_def by (intro does_intros)

text \<open>After \<open>ensure_adb\<close> the path is settled, and a second call does nothing.\<close>

lemma run_set_adb_path [run_simps]:
  "run_state (set_adb_path path) h = ((), h\<lparr>hs_adb_path :=
     (case hs_adb_path h of None \<Rightarrow> Some path | Some p \<Rightarrow> Some p)\<rparr>)"
  by (simp add: set_adb_path_def)

lemma ensure_adb_settles: "hs_adb_path (snd (run_state ensure_adb h)) \<noteq> None"
  by (auto simp: ensure_adb_def run_simps skip_def split: prod.split option.split sum.split if_split)

lemma ensure_adb_idempotent:
  "run_state ensure_adb (snd (run_state ensure_adb h)) = ((), snd (run_state ensure_adb h))"
  using ensure_adb_settles [of h]
  by (subst ensure_adb_def) (simp add: run_simps)

lemma does_ensure_adb:
  assumes "P (Exec ''adb'' [''version''])" "\<And>dest url. P (Exec ''curl'' [''-fLo'', dest, url])"
    "\<And>args. P (Exec ''unzip'' (''-o'' # args))" "\<And>c. P (Exec ''which'' [c])"
    "\<And>d. P (CreateDir d)" "\<And>d. P (RemoveFile d)" "\<And>d. P (RemoveDir d)" "\<And>d k. P (SetPermissions d k)"
  shows "does P ensure_adb"
  unfolding ensure_adb_def download_and_extract_adb_def binary_directory_def exists_def make_executable_def
    download_def extract_adb_def is_command_available_def Let_def append_Cons
  by (intro does_intros assms)

text \<open>The download fails if the extraction leaves no file where it is looked for. \<open>unzip\<close> puts
  \<open>platform-tools/adb\<close> into the directory \<open>platform-tools\<close>, as no option tells it to drop the path.\<close>

lemma download_without_binary:
  assumes "\<And>trace. \<not> ev_exists (hs_env h) trace (path_join dir ''adb'')"
    "ev_current_exe (hs_env h) = Inr exe" "path_parent exe = Some dir"
  shows "\<exists>e. fst (run_state download_and_extract_adb h) = Inl e"
  using assms
  by (auto simp: download_and_extract_adb_def binary_directory_def exists_def make_executable_def
      download_def extract_adb_def run_simps primitive_defs Let_def split: sum.split)

text \<open>The client is kept exactly when the first version line of the package names the version that
  this program was built with.\<close>

lemma apk_version_skip: "\<not> starts_with (trim l) ''versionCode='' \<Longrightarrow> apk_version (l # ls) = apk_version ls"
  by simp

lemma apk_version_example:
  "apk_version (lines ''  versionCode=2603 minSdk=14 targetSdk=34'') = Some ''2603''"
  by code_simp

end
