(* ===== verification/Transport.thy ===== *)
theory Transport
  imports Adb
begin

text \<open>\<open>transport.rs\<close>: the direction of the tunnel, from the preference and the SDK level of the device.\<close>

datatype transport_mode = Reverse | Forward

datatype transport_preference = PreferAuto | PreferReverse | PreferForward

text \<open>\<open>TransportPreference::parse\<close>; the error is the message.\<close>

definition transport_parse_preference :: "string \<Rightarrow> string + transport_preference" where
  "transport_parse_preference s =
     (if s = ''auto'' then Inr PreferAuto
      else if s = ''reverse'' then Inr PreferReverse
      else if s = ''forward'' then Inr PreferForward
      else Inl (''invalid transport '' @ CHR 0x27 # s @ CHR 0x27 # '' (expected auto, reverse or forward)''))"

text \<open>A \<open>u32\<close> is kept as its value.\<close>

definition query_device_sdk :: "string option \<Rightarrow> nat option action" where
  "query_device_sdk serial = do {
     adb \<leftarrow> get_adb_path;
     r \<leftarrow> exec adb ((case serial of Some s \<Rightarrow> [''-s'', s] | None \<Rightarrow> []) @ [''shell'', ''getprop'', ''ro.build.version.sdk'']);
     ret (case r of
         Inl _ \<Rightarrow> None
       | Inr out \<Rightarrow>
           if success (out_status out)
           then parse_unsigned 10 0x100000000 (trim (from_utf8_lossy (out_stdout out)))
           else None)
   }"

definition transport_resolve :: "transport_preference \<Rightarrow> string option \<Rightarrow> transport_mode action" where
  "transport_resolve preference serial =
     (case preference of
        PreferReverse \<Rightarrow> ret Reverse
      | PreferForward \<Rightarrow> ret Forward
      | PreferAuto \<Rightarrow> do {
          sdk \<leftarrow> query_device_sdk serial;
          ret (case sdk of Some n \<Rightarrow> if n < 21 then Forward else Reverse | None \<Rightarrow> Reverse)
        })"

lemma does_query_device_sdk [does_intros]:
  "(\<And>adb. P (Exec adb (create_adb_args serial [''shell'', ''getprop'', ''ro.build.version.sdk'']))) \<Longrightarrow>
   does P (query_device_sdk serial)"
  unfolding query_device_sdk_def create_adb_args_def by (intro does_intros)

lemma does_transport_resolve [does_intros]:
  assumes "\<And>adb. P (Exec adb (create_adb_args serial [''shell'', ''getprop'', ''ro.build.version.sdk'']))"
  shows "does P (transport_resolve preference serial)"
  unfolding transport_resolve_def
  by (cases preference) (auto intro!: does_intros assms)

text \<open>A device that prints its level \<open>n\<close>, then a line feed, is understood: below 21 the forward
  transport is used, from 21 on the reverse one.\<close>

lemma trim_word_newline:
  assumes "plain_word w"
  shows "trim (w @ [CHR 0x0A]) = w"
proof -
  have e: "trim_end (v @ [CHR 0x0A]) = v" if "list_all (\<lambda>c. (32 :: nat) < of_char c \<and> of_char c < (0x80 :: nat)) v" for v
    using that by (induction v) (simp_all add: space_length_word, simp add: space_length_def)
  moreover have "trim_start (w @ [CHR 0x0A]) = w @ [CHR 0x0A]"
    using assms by (cases w) (simp_all add: plain_word_def space_length_word)
  ultimately show ?thesis using assms by (simp add: trim_def plain_word_def)
qed

lemma digit_char_code: "d < 10 \<Longrightarrow> of_char (digit_char d) = 48 + d"
  by (simp add: digit_char_def)

lemma show_dec_digits: "list_all (\<lambda>c. \<exists>d < 10. c = digit_char d) (show_dec n) \<and> show_dec n \<noteq> []"
  using show_base_digits [of 10 n] by (auto simp: show_dec_def list_all_iff)

lemma plain_word_show_dec: "plain_word (show_dec n)"
proof -
  have "(32 :: nat) < of_char c \<and> of_char c < (0x80 :: nat)" if "c = digit_char d" "d < 10" for c d
    using digit_char_code [OF that(2)] that by simp
  then show ?thesis using show_dec_digits [of n] unfolding plain_word_def list_all_iff by blast
qed

lemma parse_show_dec:
  assumes "n < limit"
  shows "parse_unsigned 10 limit (show_dec n) = Some n"
proof -
  obtain c r d where c: "show_dec n = c # r" "c = digit_char d" "d < 10"
    using show_dec_digits [of n] by (cases "show_dec n") auto
  have "c \<noteq> CHR ''+''"
  proof
    assume "c = CHR ''+''"
    then have "of_char c = (43 :: nat)" by simp
    then show False using digit_char_code [OF c(3)] c(2) by simp
  qed
  then show ?thesis
    using parse_show_base [of 10 n limit] assms c(1) by (simp add: parse_unsigned_def show_dec_def)
qed

definition prints_sdk :: "host \<Rightarrow> string option \<Rightarrow> nat \<Rightarrow> bool" where
  "prints_sdk h serial n \<longleftrightarrow> n < 0x100000000 \<and>
     (\<exists>err. ev_run (hs_env h) (hs_trace h) (fst (run_state get_adb_path h))
        (create_adb_args serial [''shell'', ''getprop'', ''ro.build.version.sdk'']) =
      Inr \<lparr>out_status = Exited 0, out_stdout = bytes_of_string (show_dec n @ [CHR 0x0A]), out_stderr = err\<rparr>)"

lemma sdk_printed:
  assumes "prints_sdk h serial n"
  shows "fst (run_state (query_device_sdk serial) h) = Some n"
proof -
  have "ascii (show_dec n @ [CHR 0x0A])"
    using plain_word_show_dec [of n] by (auto simp: plain_word_def list_all_iff)
  then have decoded: "from_utf8_lossy (bytes_of_string (show_dec n @ [CHR 0x0A])) = show_dec n @ [CHR 0x0A]"
    by (rule from_utf8_lossy_valid [OF from_utf8_ascii])
  obtain adb where adb: "run_state get_adb_path h = (adb, h)"
    by (simp add: get_adb_path_def run_simps)
  obtain err where "ev_run (hs_env h) (hs_trace h) adb
      (create_adb_args serial [''shell'', ''getprop'', ''ro.build.version.sdk'']) =
    Inr \<lparr>out_status = Exited 0, out_stdout = bytes_of_string (show_dec n @ [CHR 0x0A]), out_stderr = err\<rparr>"
    and n: "n < 0x100000000"
    using assms adb by (auto simp: prints_sdk_def)
  then have "fst (run_state (query_device_sdk serial) h) =
      parse_unsigned 10 0x100000000 (trim (show_dec n @ [CHR 0x0A]))"
    by (simp add: query_device_sdk_def adb exec_def run_simps create_adb_args_def decoded)
  then show ?thesis
    by (simp only: trim_word_newline [OF plain_word_show_dec] parse_show_dec [OF n])
qed

lemma transport_resolve_auto:
  assumes "prints_sdk h serial n"
  shows "fst (run_state (transport_resolve PreferAuto serial) h) = (if n < 21 then Forward else Reverse)"
  using sdk_printed [OF assms] by (auto simp: transport_resolve_def split: prod.split)

end
