(* ===== verification/Adb_Monitor.thy ===== *)
theory Adb_Monitor
  imports Std_Text Std_Io Byte_Buffer "HOL-Library.Sublist"
begin

text \<open>
  \<open>adb_monitor.rs\<close>: follows the devices that the ADB daemon reports on its \<open>track-devices\<close> stream.
  The callback's calls are recorded in order in \<open>am_announced\<close>; \<open>am_listings\<close> is what the next runs of
  \<open>adb devices -l\<close> print (\<open>None\<close>: the command fails), used by \<open>filter_usb_only\<close>.
\<close>

record adb_monitor =
  am_buf :: byte_buffer
  am_connected_devices :: "string list"
  am_usb_only :: bool
  am_announced :: "string list"
  am_listings :: "byte list option list"

definition TRACK_DEVICES_REQUEST :: "byte list" where
  "TRACK_DEVICES_REQUEST = bytes_of_string ''0012host:track-devices''"

definition BUFFER_SIZE :: nat where
  "BUFFER_SIZE = 65536"

definition am_new :: "byte list option list \<Rightarrow> adb_monitor" where
  "am_new listings = \<lparr>am_buf = bb_new BUFFER_SIZE, am_connected_devices = [], am_usb_only = True,
     am_announced = [], am_listings = listings\<rparr>"

definition set_usb_only :: "bool \<Rightarrow> adb_monitor \<Rightarrow> adb_monitor" where
  "set_usb_only enabled m = m\<lparr>am_usb_only := enabled\<rparr>"

subsection \<open>Packets\<close>

text \<open>Four hexadecimal digits, then as many bytes. The outer option of the fallible operations is the
  panic.\<close>

definition parse_length :: "byte list \<Rightarrow> nat io_result option" where
  "parse_length data =
     (if length data \<noteq> 4 then None
      else Some (case from_utf8 data of
          None \<Rightarrow> Inl InvalidInput
        | Some hexa \<Rightarrow>
            (case parse_unsigned 0x10 0x100000000 hexa of
               None \<Rightarrow> Inl InvalidInput
             | Some len \<Rightarrow> Inr len)))"

definition available_packet_length :: "byte list \<Rightarrow> nat option io_result option" where
  "available_packet_length input =
     (if length input < 4 then Some (Inr None)
      else do {
        field \<leftarrow> slice 0 4 input;
        r \<leftarrow> parse_length field;
        Some (case r of
            Inl e \<Rightarrow> Inl e
          | Inr len \<Rightarrow>
              if BUFFER_SIZE < len then Inl InvalidInput
              else if len \<le> length input - 4 then Inr (Some (4 + len))
              else Inr None)
      })"

definition binary_to_string :: "byte list \<Rightarrow> string io_result" where
  "binary_to_string data = (case from_utf8 data of Some s \<Rightarrow> Inr s | None \<Rightarrow> Inl InvalidInput)"

definition read_packet :: "byte_buffer \<Rightarrow> (string option io_result \<times> byte_buffer) option" where
  "read_packet buf = do {
     input \<leftarrow> bb_peek buf;
     packet_length \<leftarrow> available_packet_length input;
     case packet_length of
       Inl e \<Rightarrow> Some (Inl e, buf)
     | Inr None \<Rightarrow> Some (Inr None, buf)
     | Inr (Some len) \<Rightarrow> do {
         data \<leftarrow> slice 4 len input;
         case binary_to_string data of
           Inl e \<Rightarrow> Some (Inl e, buf)
         | Inr packet \<Rightarrow> do { buf' \<leftarrow> bb_consume len buf; Some (Inr (Some packet), buf') }
       }
   }"

definition fill_buffer_from :: "stream \<Rightarrow> byte_buffer \<Rightarrow> (unit io_result \<times> stream \<times> byte_buffer) option" where
  "fill_buffer_from stream buf = do {
     (r, stream', buf') \<leftarrow> bb_read_from stream buf;
     Some (case r of Inr False \<Rightarrow> Inl UnexpectedEof | Inr True \<Rightarrow> Inr () | Inl e \<Rightarrow> Inl e, stream', buf')
   }"

text \<open>These loops end when the stream says so; not returning is \<open>None\<close>.\<close>

partial_function (option) next_packet ::
    "stream \<Rightarrow> byte_buffer \<Rightarrow> (string io_result \<times> stream \<times> byte_buffer) option" where
  "next_packet stream buf = do {
     (packet, buf1) \<leftarrow> read_packet buf;
     case packet of
       Inl e \<Rightarrow> Some (Inl e, stream, buf1)
     | Inr (Some p) \<Rightarrow> Some (Inr p, stream, buf1)
     | Inr None \<Rightarrow> do {
         (r, stream', buf2) \<leftarrow> fill_buffer_from stream buf1;
         case r of
           Inl e \<Rightarrow> Some (Inl e, stream', buf2)
         | Inr _ \<Rightarrow> next_packet stream' buf2
       }
   }"

partial_function (option) consume_okay ::
    "stream \<Rightarrow> byte_buffer \<Rightarrow> (bool io_result \<times> stream \<times> byte_buffer) option" where
  "consume_okay stream buf = do {
     data \<leftarrow> bb_peek buf;
     if length data < 4 then do {
       (r, stream', buf') \<leftarrow> bb_read_from stream buf;
       case r of
         Inl e \<Rightarrow> Some (Inl e, stream', buf')
       | Inr _ \<Rightarrow> consume_okay stream' buf'
     } else do {
       head \<leftarrow> slice 0 4 data;
       buf' \<leftarrow> bb_consume 4 buf;
       Some (Inr (head = bytes_of_string ''OKAY''), stream, buf')
     }
   }"

subsection \<open>Devices\<close>

text \<open>The first two words of a line, if there are two.\<close>

definition device_of_line :: "string \<Rightarrow> string option" where
  "device_of_line line =
     (case split_whitespace line of
        serial # state # _ \<Rightarrow> if state = ''device'' then Some serial else None
      | _ \<Rightarrow> None)"

definition parse_connected_devices :: "string \<Rightarrow> string list" where
  "parse_connected_devices packet = List.map_filter device_of_line (lines packet)"

definition filter_usb_only :: "byte list option \<Rightarrow> string list \<Rightarrow> string list" where
  "filter_usb_only listing serials =
     (case listing of
        None \<Rightarrow> serials
      | Some stdout \<Rightarrow>
          (let usb_serials = List.map_filter device_of_line
             (filter (\<lambda>line. \<not> contains line ''tcp:'') (lines (from_utf8_lossy stdout)))
           in filter (\<lambda>s. s \<in> set usb_serials) serials))"

fun next_listing :: "byte list option list \<Rightarrow> byte list option \<times> byte list option list" where
  "next_listing [] = (None, [])"
| "next_listing (l # ls) = (l, ls)"

definition handle_devices_packet :: "string \<Rightarrow> adb_monitor \<Rightarrow> adb_monitor" where
  "handle_devices_packet packet m =
     (let current_connected_devices = parse_connected_devices packet;
          (filtered_devices, listings) =
            (if am_usb_only m
             then let (listing, rest) = next_listing (am_listings m)
                  in (filter_usb_only listing current_connected_devices, rest)
             else (current_connected_devices, am_listings m));
          new_devices = filter (\<lambda>serial. serial \<notin> set (am_connected_devices m)) filtered_devices
      in m\<lparr>am_connected_devices := filtered_devices, am_announced := am_announced m @ new_devices,
           am_listings := listings\<rparr>)"

subsection \<open>The stream\<close>

partial_function (option) track_loop ::
    "stream \<Rightarrow> adb_monitor \<Rightarrow> (io_error_kind \<times> stream \<times> adb_monitor) option" where
  "track_loop stream m = do {
     (packet, stream', buf') \<leftarrow> next_packet stream (am_buf m);
     case packet of
       Inl e \<Rightarrow> Some (e, stream', m\<lparr>am_buf := buf'\<rparr>)
     | Inr p \<Rightarrow> track_loop stream' (handle_devices_packet p (m\<lparr>am_buf := buf'\<rparr>))
   }"

definition track_devices_on_stream ::
    "stream \<Rightarrow> adb_monitor \<Rightarrow> (unit io_result \<times> stream \<times> adb_monitor) option" where
  "track_devices_on_stream stream m =
     (case write_all_blocking TRACK_DEVICES_REQUEST stream of
        (Inl e, stream1) \<Rightarrow> Some (Inl e, stream1, m)
      | (Inr _, stream1) \<Rightarrow> do {
          (ok, stream2, buf) \<leftarrow> consume_okay stream1 (am_buf m);
          let m1 = m\<lparr>am_buf := buf\<rparr>;
          case ok of
            Inl e \<Rightarrow> Some (Inl e, stream2, m1)
          | Inr False \<Rightarrow> Some (Inr (), stream2, m1)
          | Inr True \<Rightarrow> do {
              (e, stream3, m2) \<leftarrow> track_loop stream2 m1;
              Some (Inl e, stream3, m2)
            }
        })"

definition track_devices ::
    "stream io_result \<Rightarrow> adb_monitor \<Rightarrow> (unit io_result \<times> adb_monitor) option" where
  "track_devices connected m =
     (case connected of
        Inl e \<Rightarrow> Some (Inl e, m)
      | Inr stream \<Rightarrow> do { (r, _, m') \<leftarrow> track_devices_on_stream stream m; Some (r, m') })"

text \<open>\<open>monitor\<close> never returns: over the connections given (each with whether \<open>adb start-server\<close> would
  succeed after it) it returns the delays slept, in milliseconds, and the monitor.\<close>

definition repair_adb_daemon :: "bool \<Rightarrow> nat" where
  "repair_adb_daemon started = (if started then 1000 else 5000)"

fun monitor :: "(stream io_result \<times> bool) list \<Rightarrow> adb_monitor \<Rightarrow> (nat list \<times> adb_monitor) option" where
  "monitor [] m = Some ([], m)"
| "monitor ((connected, started) # cs) m = do {
     (r, m') \<leftarrow> track_devices connected m;
     (delays, m'') \<leftarrow> monitor cs m';
     Some ((case r of Inl _ \<Rightarrow> [repair_adb_daemon started] | Inr _ \<Rightarrow> []) @ delays, m'')
   }"

subsection \<open>What the daemon sends\<close>

text \<open>The length of a packet as the daemon writes it, and the packet.\<close>

definition hex4 :: "nat \<Rightarrow> string" where
  "hex4 n = map (\<lambda>k. digit_char (n div 16 ^ k mod 16)) [3, 2, 1, 0]"

definition adb_frame :: "byte list \<Rightarrow> byte list" where
  "adb_frame payload = bytes_of_string (hex4 (length payload)) @ payload"

definition payload_ok :: "byte list \<Rightarrow> bool" where
  "payload_ok payload \<longleftrightarrow> length payload \<le> 65532 \<and> from_utf8 payload \<noteq> None"

lemma length_hex4 [simp]: "length (hex4 n) = 4"
  by (simp add: hex4_def)

lemma length_adb_frame [simp]: "length (adb_frame p) = 4 + length p"
  by (simp add: adb_frame_def)

lemma digit_char_ascii: "d < 16 \<Longrightarrow> of_char (digit_char d) < (0x80 :: nat) \<and> digit_char d \<noteq> CHR ''+''"
proof -
  assume "d < 16"
  then have "of_char (digit_char d) = (if d < 10 then 48 + d else 87 + d)"
    by (simp add: digit_char_def)
  moreover have "digit_char d = CHR ''+'' \<Longrightarrow> of_char (digit_char d) = (43 :: nat)" by simp
  ultimately show ?thesis using \<open>d < 16\<close> by (auto split: if_splits)
qed

lemma parse_hex4:
  assumes "n < 65536"
  shows "parse_unsigned 16 0x100000000 (hex4 n) = Some n"
proof -
  have d: "n div k mod 16 < 16" for k by simp
  have "((n div 4096 mod 16 * 16 + n div 256 mod 16) * 16 + n div 16 mod 16) * 16 + n mod 16 = n"
  proof -
    have "n div 256 = n div 16 div 16" "n div 4096 = n div 16 div 16 div 16"
      by (simp_all add: div_mult2_eq [symmetric])
    moreover have "n div 16 div 16 div 16 < 16" using assms by (simp add: div_mult2_eq [symmetric])
    ultimately show ?thesis
      using mult_div_mod_eq [of 16 n] mult_div_mod_eq [of 16 "n div 16"] mult_div_mod_eq [of 16 "n div 16 div 16"]
      by simp
  qed
  then show ?thesis
    using digit_char_ascii [OF d, of 4096] assms
    by (simp add: parse_unsigned_def hex4_def digit_value_char)
qed

lemma parse_length_hex4:
  assumes "n < 65536"
  shows "parse_length (bytes_of_string (hex4 n)) = Some (Inr n)"
proof -
  have "ascii (hex4 n)" using digit_char_ascii by (simp add: hex4_def)
  then show ?thesis by (simp add: parse_length_def from_utf8_ascii parse_hex4 [OF assms])
qed

text \<open>A whole frame at the front is taken; of a beginning of a frame nothing is.\<close>

lemma read_packet_frame:
  assumes "bb_wf buf" "bb_content buf = adb_frame p @ rest" "payload_ok p"
  obtains buf' where "read_packet buf = Some (Inr (from_utf8 p), buf')" "bb_wf buf'"
    "bb_content buf' = rest" "bb_capacity buf' = bb_capacity buf"
proof -
  obtain s where s: "from_utf8 p = Some s" "length p < 65536" using assms(3) by (auto simp: payload_ok_def)
  have a: "available_packet_length (bb_content buf) = Some (Inr (Some (4 + length p)))"
    using assms(3) parse_length_hex4 [OF s(2)]
    by (simp add: assms(2) available_packet_length_def slice_simps adb_frame_def BUFFER_SIZE_def payload_ok_def)
  have c: "take (length p) (drop 4 (bb_content buf)) = p" by (simp add: assms(2) adb_frame_def)
  have "4 + length p \<le> length (bb_content buf)" by (simp add: assms(2))
  then obtain buf' where b: "bb_consume (4 + length p) buf = Some buf'" "bb_wf buf'"
    "bb_content buf' = drop (4 + length p) (bb_content buf)" "bb_capacity buf' = bb_capacity buf"
    using bb_consume_ok [OF assms(1)] by blast
  moreover have "drop (4 + length p) (bb_content buf) = rest" by (simp add: assms(2))
  moreover have "read_packet buf = Some (Inr (from_utf8 p), buf')"
    using b(1) a c s(1) by (simp add: read_packet_def bb_peek_content [OF assms(1)] slice_simps
      binary_to_string_def assms(2))
  ultimately show ?thesis using that by simp
qed

lemma read_packet_partial:
  assumes "bb_wf buf" "bb_content buf = take k (adb_frame p)" "k < 4 + length p" "payload_ok p"
  shows "read_packet buf = Some (Inr None, buf)"
proof -
  have l: "length (bb_content buf) = k" using assms(2,3) by simp
  have "available_packet_length (bb_content buf) = Some (Inr None)"
  proof (cases "k < 4")
    case True
    then show ?thesis using l by (simp add: available_packet_length_def)
  next
    case False
    have p: "length p < 65536" using assms(4) by (simp add: payload_ok_def)
    have "take 4 (bb_content buf) = bytes_of_string (hex4 (length p))"
      using False by (simp add: assms(2) adb_frame_def min_def)
    then show ?thesis
      using False l assms(3,4) parse_length_hex4 [OF p]
      by (simp add: available_packet_length_def slice_simps BUFFER_SIZE_def payload_ok_def)
  qed
  then show ?thesis by (simp add: read_packet_def bb_peek_content [OF assms(1)])
qed

subsection \<open>However the stream is cut\<close>

text \<open>A stream that yields \<open>data\<close> in non-empty chunks, and then what \<open>fin\<close> says.\<close>

definition yields :: "byte list \<Rightarrow> (io_error_kind + byte list) list \<Rightarrow> stream \<Rightarrow> bool" where
  "yields data fin s \<longleftrightarrow> (\<exists>chunks. rx s = map Inr chunks @ fin \<and> [] \<notin> set chunks \<and> concat chunks = data)"

lemma yields_read:
  assumes "yields data fin s" "data \<noteq> []" "0 < n"
  obtains bs rest s' where "stream_read n s = (Inr bs, s')" "bs \<noteq> []" "data = bs @ rest" "yields rest fin s'"
proof -
  obtain c cs where cs: "rx s = Inr c # map Inr cs @ fin" "c \<noteq> []" "[] \<notin> set cs" "data = c @ concat cs"
  proof -
    obtain chunks where "rx s = map Inr chunks @ fin" "[] \<notin> set chunks" "concat chunks = data"
      using assms(1) by (auto simp: yields_def)
    then show ?thesis using that assms(2) by (cases chunks) auto
  qed
  show ?thesis
  proof (cases "length c \<le> n")
    case True
    have "yields (concat cs) fin (s\<lparr>rx := map Inr cs @ fin\<rparr>)" using cs(3) by (auto simp: yields_def)
    with True show ?thesis using that cs by (simp add: stream_read.simps)
  next
    case False
    have "yields (drop n c @ concat cs) fin (s\<lparr>rx := Inr (drop n c) # map Inr cs @ fin\<rparr>)"
      using cs(3) False by (auto simp: yields_def intro!: exI [of _ "drop n c # cs"])
    with False show ?thesis
      using that [of "take n c" _ "drop n c @ concat cs"] cs assms(3) by (simp add: stream_read.simps)
  qed
qed

text \<open>The buffer of the monitor: well formed, of the full size.\<close>

definition mon_buf :: "byte_buffer \<Rightarrow> byte list \<Rightarrow> bool" where
  "mon_buf buf content \<longleftrightarrow> bb_wf buf \<and> bb_capacity buf = BUFFER_SIZE \<and> bb_content buf = content"

lemma mon_buf_read:
  assumes "mon_buf buf content" "length content < BUFFER_SIZE" "yields data fin s" "data \<noteq> []"
  obtains bs rest s' buf' where "bb_read_from s buf = Some (Inr True, s', buf')" "bs \<noteq> []"
    "data = bs @ rest" "yields rest fin s'" "mon_buf buf' (content @ bs)"
proof -
  have w: "bb_wf buf" and c: "bb_content buf = content" "bb_capacity buf = BUFFER_SIZE"
    using assms(1) by (simp_all add: mon_buf_def)
  have "0 < bb_capacity buf - bb_head buf"
    using assms(2) c length_bb_content [OF w] by simp
  from yields_read [OF assms(3,4) this] obtain bs rest s' where
    r: "stream_read (bb_capacity buf - bb_head buf) s = (Inr bs, s')" "bs \<noteq> []" "data = bs @ rest"
      "yields rest fin s'" .
  then show ?thesis
    using bb_read_from_ok [OF w r(1)] that c by (auto simp: mon_buf_def)
qed

text \<open>\<open>next_packet\<close> returns the next frame whatever the chunks.\<close>

lemma next_packet_frame:
  assumes "mon_buf buf content" "content @ data = adb_frame p @ after" "payload_ok p" "yields data fin s"
  obtains s' buf' content' data' where "next_packet s buf = Some (Inr (the (from_utf8 p)), s', buf')"
    "mon_buf buf' content'" "content' @ data' = after" "yields data' fin s'"
  using assms
proof (induction "length data" arbitrary: thesis content data s buf rule: less_induct)
  case less
  have w: "bb_wf buf" and c: "bb_content buf = content" using less.prems(2) by (simp_all add: mon_buf_def)
  show ?case
  proof (cases "length (adb_frame p) \<le> length content")
    case True
    then have "content = adb_frame p @ drop (length (adb_frame p)) content"
      using arg_cong [OF less.prems(3), of "take (length (adb_frame p))"]
        append_take_drop_id [of "length (adb_frame p)" content] by simp
    then obtain rest where rest: "content = adb_frame p @ rest" "rest @ data = after"
      using less.prems(3) by (metis append.assoc same_append_eq)
    then obtain buf' where "read_packet buf = Some (Inr (from_utf8 p), buf')" "mon_buf buf' rest"
      using read_packet_frame [OF w _ less.prems(4), of rest] c less.prems(2) by (auto simp: mon_buf_def)
    then show ?thesis
      using less.prems(1,4,5) rest(2) by (subst (asm) next_packet.simps) (auto simp: payload_ok_def)
  next
    case False
    then have l: "length content < 4 + length p" by simp
    have k: "content = take (length content) (adb_frame p)"
      using arg_cong [OF less.prems(3), of "take (length content)"] l by simp
    have "data \<noteq> []"
      using arg_cong [OF less.prems(3), of length] l by auto
    note k = k l this
    have "read_packet buf = Some (Inr None, buf)"
      using read_packet_partial [OF w _ k(2) less.prems(4)] c k(1) by simp
    moreover have "length content < BUFFER_SIZE"
      using k(2) less.prems(4) by (simp add: payload_ok_def BUFFER_SIZE_def)
    then obtain bs rest s1 buf1 where r: "bb_read_from s buf = Some (Inr True, s1, buf1)" "bs \<noteq> []"
      "data = bs @ rest" "yields rest fin s1" "mon_buf buf1 (content @ bs)"
      by (rule mon_buf_read [OF less.prems(2) _ less.prems(5) k(3)])
    ultimately have step: "next_packet s buf = next_packet s1 buf1"
      by (subst next_packet.simps) (simp add: fill_buffer_from_def)
    have "length rest < length data" "(content @ bs) @ rest = adb_frame p @ after"
      using r(2,3) less.prems(3) by auto
    from less.hyps [OF this(1) _ r(5) this(2) less.prems(4) r(4)] show ?thesis
      using less.prems(1) step by auto
  qed
qed

text \<open>After the frames, at the end of the stream in the middle of the next one.\<close>

lemma next_packet_end:
  assumes "mon_buf buf content" "content @ data = take k (adb_frame p)" "k < 4 + length p" "payload_ok p"
    "yields data (Inr [] # fin) s"
  obtains s' buf' where "next_packet s buf = Some (Inl UnexpectedEof, s', buf')"
    "mon_buf buf' (content @ data)" "rx s' = fin"
  using assms
proof (induction "length data" arbitrary: thesis content data s buf rule: less_induct)
  case less
  have w: "bb_wf buf" and c: "bb_content buf = content" using less.prems(2) by (simp_all add: mon_buf_def)
  have k: "content = take (length content) (adb_frame p)" "length content < 4 + length p"
  proof -
    have l: "length content + length data = k" using arg_cong [OF less.prems(3), of length] less.prems(4) by simp
    then show "length content < 4 + length p" using less.prems(4) by simp
    show "content = take (length content) (adb_frame p)"
      using arg_cong [OF less.prems(3), of "take (length content)"] l by (simp add: min_def)
  qed
  have rp: "read_packet buf = Some (Inr None, buf)"
    using read_packet_partial [OF w _ k(2) less.prems(5)] c k(1) by simp
  have l: "length content < BUFFER_SIZE"
    using k(2) less.prems(5) by (simp add: payload_ok_def BUFFER_SIZE_def)
  show ?case
  proof (cases "data = []")
    case True
    have rx: "rx s = Inr [] # fin"
    proof -
      obtain chunks where ch: "rx s = map Inr chunks @ Inr [] # fin" "[] \<notin> set chunks" "concat chunks = []"
        using less.prems(6) True by (auto simp: yields_def)
      then have "chunks = []" by (cases chunks) auto
      with ch(1) show ?thesis by simp
    qed
    then have "stream_read n s = (Inr [], s\<lparr>rx := fin\<rparr>)" for n by (simp add: stream_read.simps)
    from bb_read_from_ok [OF w this] obtain buf1 where
      "bb_read_from s buf = Some (Inr False, s\<lparr>rx := fin\<rparr>, buf1)" "mon_buf buf1 (content @ data)"
      using less.prems(2) True by (auto simp: mon_buf_def)
    then show ?thesis
      using less.prems(1) rp by (subst (asm) next_packet.simps) (simp add: fill_buffer_from_def)
  next
    case False
    obtain bs rest s1 buf1 where r: "bb_read_from s buf = Some (Inr True, s1, buf1)" "bs \<noteq> []"
      "data = bs @ rest" "yields rest (Inr [] # fin) s1" "mon_buf buf1 (content @ bs)"
      by (rule mon_buf_read [OF less.prems(2) l less.prems(6) False])
    then have step: "next_packet s buf = next_packet s1 buf1"
      using rp by (subst next_packet.simps) (simp add: fill_buffer_from_def)
    have "length rest < length data" "(content @ bs) @ rest = take k (adb_frame p)"
      using r(2,3) less.prems(3) by auto
    from less.hyps [OF this(1) _ r(5) this(2) less.prems(4,5) r(4)] show ?thesis
      using less.prems(1) step r(3) by auto
  qed
qed

text \<open>The loop: every whole packet is handled in order, the rest stays in the buffer.\<close>

lemma fold_handle_buf [simp]:
  "am_buf (fold handle_devices_packet ps m) = am_buf m"
  by (induction ps arbitrary: m) (simp_all add: handle_devices_packet_def Let_def split: prod.split)

lemma handle_buf_update [simp]:
  "handle_devices_packet p (m\<lparr>am_buf := b\<rparr>) = (handle_devices_packet p m)\<lparr>am_buf := b\<rparr>"
  by (simp add: handle_devices_packet_def Let_def split: prod.split)

abbreviation payload_string :: "byte list \<Rightarrow> string" where
  "payload_string p \<equiv> the (from_utf8 p)"

lemma track_loop_frames:
  assumes "mon_buf (am_buf m) content" "content @ data = concat (map adb_frame ps) @ take k (adb_frame q)"
    "list_all payload_ok (q # ps)" "k < 4 + length q" "yields data (Inr [] # fin) s"
  shows "\<exists>s' m'. track_loop s m = Some (UnexpectedEof, s', m') \<and> rx s' = fin \<and>
    mon_buf (am_buf m') (take k (adb_frame q)) \<and>
    m' = (fold handle_devices_packet (map payload_string ps) m)\<lparr>am_buf := am_buf m'\<rparr>"
  using assms
proof (induction ps arbitrary: content data s m)
  case Nil
  then have "content @ data = take k (adb_frame q)" "payload_ok q" by simp_all
  from next_packet_end [OF Nil(1) this(1) Nil(4) this(2) Nil(5)] obtain s' buf' where
    "next_packet s (am_buf m) = Some (Inl UnexpectedEof, s', buf')" "mon_buf buf' (content @ data)" "rx s' = fin" .
  then show ?case using Nil(2) by (subst track_loop.simps) simp
next
  case (Cons p ps)
  have p: "payload_ok p" and qs: "list_all payload_ok (q # ps)" using Cons.prems(3) by simp_all
  have "content @ data = adb_frame p @ (concat (map adb_frame ps) @ take k (adb_frame q))"
    using Cons.prems(2) by simp
  from next_packet_frame [OF Cons.prems(1) this p Cons.prems(5)] obtain s1 buf1 content1 data1 where
    n: "next_packet s (am_buf m) = Some (Inr (payload_string p), s1, buf1)" "mon_buf buf1 content1"
      "content1 @ data1 = concat (map adb_frame ps) @ take k (adb_frame q)" "yields data1 (Inr [] # fin) s1" .
  let ?m = "(handle_devices_packet (payload_string p) m)\<lparr>am_buf := buf1\<rparr>"
  have "mon_buf (am_buf ?m) content1" using n(2) by simp
  from Cons.IH [OF this n(3) qs Cons.prems(4) n(4)] obtain s' m' where
    "track_loop s1 ?m = Some (UnexpectedEof, s', m')" "rx s' = fin" "mon_buf (am_buf m') (take k (adb_frame q))"
    "m' = (fold handle_devices_packet (map payload_string ps) ?m)\<lparr>am_buf := am_buf m'\<rparr>"
    by blast
  moreover have "fold handle_devices_packet ps' (m0\<lparr>am_buf := b\<rparr>) = (fold handle_devices_packet ps' m0)\<lparr>am_buf := b\<rparr>" for ps' m0 b
    by (induction ps' arbitrary: m0) simp_all
  ultimately show ?case using n(1) by (subst track_loop.simps) simp
qed

lemma consume_okay_ok:
  assumes "mon_buf buf content" "content @ data = bytes_of_string ''OKAY'' @ after" "yields data fin s"
  obtains s' buf' content' data' where "consume_okay s buf = Some (Inr True, s', buf')"
    "mon_buf buf' content'" "content' @ data' = after" "yields data' fin s'"
  using assms
proof (induction "length data" arbitrary: thesis content data s buf rule: less_induct)
  case less
  have w: "bb_wf buf" and c: "bb_content buf = content" using less.prems(2) by (simp_all add: mon_buf_def)
  note peek = bb_peek_content [OF w, unfolded c]
  show ?case
  proof (cases "4 \<le> length content")
    case True
    then obtain buf' where b: "bb_consume 4 buf = Some buf'" "mon_buf buf' (drop 4 content)"
      using bb_consume_ok [OF w, of 4] c less.prems(2) by (auto simp: mon_buf_def)
    moreover have "take 4 content = bytes_of_string ''OKAY''" "drop 4 content @ data = after"
      using arg_cong [OF less.prems(3), of "take 4"] arg_cong [OF less.prems(3), of "drop 4"] True by simp_all
    moreover from this have "consume_okay s buf = Some (Inr True, s, buf')"
      using True peek b(1) by (subst consume_okay.simps) (simp add: slice_simps)
    ultimately show ?thesis
      using less.prems(1) [OF _ b(2) _ less.prems(4)] by simp
  next
    case False
    then have l: "length content < 4" by simp
    have d: "data \<noteq> []"
      using arg_cong [OF less.prems(3), of length] l by auto
    have "length content < BUFFER_SIZE" using l by (simp add: BUFFER_SIZE_def)
    then obtain bs rest s1 buf1 where r: "bb_read_from s buf = Some (Inr True, s1, buf1)" "bs \<noteq> []"
      "data = bs @ rest" "yields rest fin s1" "mon_buf buf1 (content @ bs)"
      by (rule mon_buf_read [OF less.prems(2) _ less.prems(4) d])
    then have step: "consume_okay s buf = consume_okay s1 buf1"
      using peek l by (subst consume_okay.simps) simp
    have "length rest < length data" "(content @ bs) @ rest = bytes_of_string ''OKAY'' @ after"
      using r(2,3) less.prems(3) by auto
    from less.hyps [OF this(1) _ r(5) this(2) r(4)] show ?thesis
      using less.prems(1) step by auto
  qed
qed

text \<open>The end of the stream does not end \<open>consume_okay\<close>: it reads again, every time.\<close>

lemma consume_okay_ignores_eof:
  assumes "mon_buf buf content" "length content < 4"
  shows "consume_okay (s\<lparr>rx := replicate n (Inr []) @ fin\<rparr>) buf = consume_okay (s\<lparr>rx := fin\<rparr>) buf"
proof (induction n)
  case (Suc n)
  have w: "bb_wf buf" and c: "bb_content buf = content" "bb_capacity buf = BUFFER_SIZE"
    using assms(1) by (simp_all add: mon_buf_def)
  have h: "bb_head buf = length content" using length_bb_content [OF w] c by simp
  let ?s = "s\<lparr>rx := replicate n (Inr []) @ fin\<rparr>"
  have "bb_read_from (s\<lparr>rx := replicate (Suc n) (Inr []) @ fin\<rparr>) buf = Some (Inr False, ?s, buf)"
    using w h by (simp add: bb_read_from_def bb_wf_def slice_simps stream_read.simps)
  then have "consume_okay (s\<lparr>rx := replicate (Suc n) (Inr []) @ fin\<rparr>) buf = consume_okay ?s buf"
    using bb_peek_content [OF w, unfolded c] assms(2) by (subst consume_okay.simps) simp
  then show ?case using Suc.IH by simp
qed simp

text \<open>What is left of the previous connection is taken for the answer of the next.\<close>

lemma stale_bytes_refuse:
  assumes "mon_buf buf content" "4 \<le> length content" "take 4 content \<noteq> bytes_of_string ''OKAY''"
  shows "\<exists>buf'. consume_okay s buf = Some (Inr False, s, buf')"
proof -
  have w: "bb_wf buf" and c: "bb_content buf = content" using assms(1) by (simp_all add: mon_buf_def)
  obtain buf' where "bb_consume 4 buf = Some buf'"
    using bb_consume_ok [OF w, of 4] c assms(2) by auto
  then show ?thesis
    using bb_peek_content [OF w, unfolded c] assms(2,3)
    by (subst consume_okay.simps) (simp add: slice_simps)
qed

subsection \<open>Devices announced\<close>

text \<open>The list of devices as the daemon prints it: serial, tabulator, state, line feed.\<close>

definition device_lines :: "(string \<times> string) list \<Rightarrow> string" where
  "device_lines ds = concat (map (\<lambda>(serial, state). serial @ CHR 0x09 # state @ [CHR 0x0A]) ds)"

lemma device_of_device_line:
  assumes "plain_word serial" "plain_word state"
  shows "device_of_line (serial @ CHR 0x09 # state) = (if state = ''device'' then Some serial else None)"
  using assms by (simp add: device_of_line_def split_whitespace_two)

lemma parse_device_lines:
  assumes "list_all (\<lambda>(serial, state). plain_word serial \<and> plain_word state) ds"
  shows "parse_connected_devices (device_lines ds) = map fst (filter (\<lambda>(_, state). state = ''device'') ds)"
proof -
  have "lines (device_lines ds) = map (\<lambda>(serial, state). serial @ CHR 0x09 # state) ds"
    using assms
  proof (induction ds)
    case (Cons d ds)
    obtain serial state where d: "d = (serial, state)" by force
    have w: "plain_word serial" "plain_word state" using Cons.prems d by simp_all
    have "lines ((serial @ CHR 0x09 # state) @ CHR 0x0A # device_lines ds) =
        (serial @ CHR 0x09 # state) # lines (device_lines ds)"
      by (rule lines_Cons) (use w in \<open>auto simp: plain_word_def list_all_iff\<close>)
    then show ?case using Cons d by (simp add: device_lines_def)
  qed (simp add: device_lines_def lines_def)
  moreover have "List.map_filter device_of_line (map (\<lambda>(serial, state). serial @ CHR 0x09 # state) ds) =
      map fst (filter (\<lambda>(_, state). state = ''device'') ds)"
    using assms by (induction ds) (auto simp: List.map_filter_simps device_of_device_line)
  ultimately show ?thesis by (simp add: parse_connected_devices_def)
qed

text \<open>The specification of the callback: a device is announced when a list shows it and the list before
  did not. With \<open>usb_only\<close> a list shows the devices that the next run of \<open>adb devices -l\<close> has in a line
  without \<open>tcp:\<close>, as the first word before the word \<open>device\<close>; when that run fails, all of them.\<close>

definition usb_listed :: "byte list option \<Rightarrow> string \<Rightarrow> bool" where
  "usb_listed listing serial \<longleftrightarrow>
     (case listing of
        None \<Rightarrow> True
      | Some stdout \<Rightarrow> (\<exists>line \<in> set (lines (from_utf8_lossy stdout)).
          \<not> sublist ''tcp:'' line \<and> take 2 (split_whitespace line) = [serial, ''device'']))"

fun announcements :: "bool \<Rightarrow> byte list option list \<Rightarrow> string list \<Rightarrow> (string \<times> string) list list \<Rightarrow> string list" where
  "announcements usb listings known [] = []"
| "announcements usb listings known (ds # updates) =
     (let connected = map fst (filter (\<lambda>(_, state). state = ''device'') ds);
          (listing, rest) = next_listing listings;
          shown = filter (\<lambda>serial. usb \<longrightarrow> usb_listed listing serial) connected
      in filter (\<lambda>serial. serial \<notin> set known) shown @ announcements usb rest shown updates)"

lemma contains_iff: "contains s p \<longleftrightarrow> sublist p s"
proof (induction s)
  case (Cons c s)
  have "starts_with (c # s) p \<longleftrightarrow> prefix p (c # s)" by (auto simp: starts_with_iff prefix_def)
  then show ?case using Cons by (auto simp: sublist_Cons_right)
qed simp

lemma device_of_line_iff: "device_of_line line = Some serial \<longleftrightarrow> take 2 (split_whitespace line) = [serial, ''device'']"
  by (auto simp: device_of_line_def split: list.splits)

lemma filter_usb_only_eq: "filter_usb_only listing serials = filter (usb_listed listing) serials"
proof (cases listing)
  case (Some stdout)
  have "s \<in> set (List.map_filter device_of_line (filter (\<lambda>line. \<not> contains line ''tcp:'') (lines (from_utf8_lossy stdout))))
      \<longleftrightarrow> usb_listed listing s" for s
    by (auto simp: Some usb_listed_def contains_iff device_of_line_iff [symmetric] List.map_filter_def image_iff)
  then show ?thesis by (simp add: Some filter_usb_only_def Let_def)
qed (simp add: filter_usb_only_def usb_listed_def)

lemma announcements_no_usb:
  "announcements False listings known updates = announcements False listings' known updates"
  by (induction updates arbitrary: listings listings' known) (simp_all add: Let_def split_beta)

lemma fold_announcements:
  assumes "list_all (list_all (\<lambda>(serial, state). plain_word serial \<and> plain_word state)) updates"
  shows "am_announced (fold handle_devices_packet (map device_lines updates) m) =
    am_announced m @ announcements (am_usb_only m) (am_listings m) (am_connected_devices m) updates"
  using assms
proof (induction updates arbitrary: m)
  case (Cons ds updates)
  obtain listing rest where l: "next_listing (am_listings m) = (listing, rest)" by force
  have p: "parse_connected_devices (device_lines ds) = map fst (filter (\<lambda>(_, state). state = ''device'') ds)"
    using Cons.prems by (intro parse_device_lines) simp
  let ?shown = "if am_usb_only m then filter_usb_only listing (parse_connected_devices (device_lines ds))
    else parse_connected_devices (device_lines ds)"
  let ?m = "handle_devices_packet (device_lines ds) m"
  have "am_usb_only ?m = am_usb_only m" "am_connected_devices ?m = ?shown"
    "am_announced ?m = am_announced m @ filter (\<lambda>serial. serial \<notin> set (am_connected_devices m)) ?shown"
    "am_listings ?m = (if am_usb_only m then rest else am_listings m)"
    using l by (simp_all add: handle_devices_packet_def Let_def)
  then show ?case
    using Cons.prems Cons.IH [of ?m] announcements_no_usb [of "am_listings m" _ updates rest] l p by (simp add: Let_def filter_usb_only_eq)
qed simp

text \<open>With \<open>usb_only\<close> the devices are among those reported; without a listing, all of them.\<close>

lemma filter_usb_only_subset: "set (filter_usb_only listing serials) \<subseteq> set serials"
  by (auto simp: filter_usb_only_def Let_def split: option.split)

lemma announced_once:
  assumes "serial \<in> set (am_connected_devices m)"
    "am_announced (handle_devices_packet packet m) = am_announced m @ new"
  shows "serial \<notin> set new"
  using assms by (auto simp: handle_devices_packet_def Let_def split: prod.splits)

text \<open>A connection from its request to the end of the stream.\<close>

lemma ascii_device_lines:
  assumes "list_all (\<lambda>(serial, state). plain_word serial \<and> plain_word state) ds"
  shows "ascii (device_lines ds)"
  using assms by (induction ds) (auto simp: device_lines_def plain_word_def list_all_iff)

lemma device_payload_ok:
  assumes "list_all (\<lambda>(serial, state). plain_word serial \<and> plain_word state) ds"
    "length (device_lines ds) \<le> 65532"
  shows "payload_ok (bytes_of_string (device_lines ds))"
    "payload_string (bytes_of_string (device_lines ds)) = device_lines ds"
  using from_utf8_ascii [OF ascii_device_lines [OF assms(1)]] assms(2) by (simp_all add: payload_ok_def)

definition update_bytes :: "(string \<times> string) list \<Rightarrow> byte list" where
  "update_bytes ds = adb_frame (bytes_of_string (device_lines ds))"

definition update_ok :: "(string \<times> string) list \<Rightarrow> bool" where
  "update_ok ds \<longleftrightarrow> list_all (\<lambda>(serial, state). plain_word serial \<and> plain_word state) ds \<and>
     length (device_lines ds) \<le> 65532"

lemma track_announces:
  assumes "mon_buf (am_buf m) []" "list_all update_ok updates" "tx_healthy 22 s"
    "yields (bytes_of_string ''OKAY'' @ concat (map update_bytes updates)) (Inr [] # fin) s"
  shows "\<exists>s' m'. track_devices_on_stream s m = Some (Inl UnexpectedEof, s', m') \<and> mon_buf (am_buf m') [] \<and>
    am_announced m' = am_announced m @
      announcements (am_usb_only m) (am_listings m) (am_connected_devices m) updates"
proof -
  let ?ps = "map (bytes_of_string \<circ> device_lines) updates"
  have l: "length TRACK_DEVICES_REQUEST = 22" by (simp add: TRACK_DEVICES_REQUEST_def)
  obtain s1 where s1: "write_all_blocking TRACK_DEVICES_REQUEST s = (Inr (), s1)" "rx s1 = rx s"
    using write_all_blocking_ok [of TRACK_DEVICES_REQUEST 0 s] assms(3) l by auto
  have y: "yields (bytes_of_string ''OKAY'' @ concat (map update_bytes updates)) (Inr [] # fin) s1"
    using assms(4) s1(2) by (simp add: yields_def)
  obtain s2 buf content data where s2: "consume_okay s1 (am_buf m) = Some (Inr True, s2, buf)"
    "mon_buf buf content" "content @ data = concat (map update_bytes updates)" "yields data (Inr [] # fin) s2"
    by (rule consume_okay_ok [OF assms(1) _ y, of "concat (map update_bytes updates)"]) simp
  have "payload_ok []" by (simp add: payload_ok_def from_utf8_def)
  moreover have "payload_ok (bytes_of_string (device_lines ds))" if "ds \<in> set updates" for ds
    by (rule device_payload_ok) (use assms(2) that in \<open>simp_all add: update_ok_def list_all_iff\<close>)
  ultimately have ok: "list_all payload_ok ([] # ?ps)" by (simp add: list_all_iff)
  have "content @ data = concat (map adb_frame ?ps) @ take 0 (adb_frame [])"
    using s2(3) by (simp add: update_bytes_def [abs_def] comp_def)
  then obtain s3 m' where m': "track_loop s2 (m\<lparr>am_buf := buf\<rparr>) = Some (UnexpectedEof, s3, m')"
    "mon_buf (am_buf m') []"
    "m' = (fold handle_devices_packet (map payload_string ?ps) (m\<lparr>am_buf := buf\<rparr>))\<lparr>am_buf := am_buf m'\<rparr>"
    using track_loop_frames [of "m\<lparr>am_buf := buf\<rparr>" content data ?ps 0 "[]" fin s2] ok s2(2,4) by auto
  have "map payload_string ?ps = map device_lines updates"
    using assms(2) by (simp add: update_ok_def device_payload_ok(2) list_all_iff)
  then have "am_announced m' =
      am_announced (fold handle_devices_packet (map device_lines updates) (m\<lparr>am_buf := buf\<rparr>))"
    by (subst m'(3)) (simp del: map_map)
  also have "\<dots> = am_announced m @
      announcements (am_usb_only m) (am_listings m) (am_connected_devices m) updates"
    using fold_announcements [of updates "m\<lparr>am_buf := buf\<rparr>"] assms(2)
    by (simp add: update_ok_def list_all_iff)
  finally have "am_announced m' = am_announced m @
      announcements (am_usb_only m) (am_listings m) (am_connected_devices m) updates" .
  then show ?thesis using s1 s2(1) m'(1,2) by (simp add: track_devices_on_stream_def)
qed

end
