(* ===== verification/Commands.thy ===== *)
theory Commands
  imports Transport Adb_Monitor
begin

text \<open>
  \<open>commands.rs\<close>, the commands on the device: installing, starting and stopping the client, the tunnel,
  the permissions, and what the program detects of the host. Warnings and messages are left out.
\<close>

definition GNIREHTET_PKG :: string where
  "GNIREHTET_PKG = ''com.genymobile.gnirehtet''"

subsection \<open>The system\<close>

definition nameserver_of_line :: "string \<Rightarrow> string option" where
  "nameserver_of_line line =
     (case strip_prefix (trim line) ''nameserver '' of
        None \<Rightarrow> None
      | Some s \<Rightarrow> (let s' = trim s in if s' \<noteq> [] \<and> s' \<noteq> ''127.0.0.1'' \<and> s' \<noteq> ''::1'' then Some s' else None))"

definition detect_system_dns :: "string list action" where
  "detect_system_dns = look (\<lambda>h.
     case ev_read_file (hs_env h) ''/etc/resolv.conf'' of
       Inl _ \<Rightarrow> [''8.8.8.8'']
     | Inr content \<Rightarrow>
         (let servers = List.map_filter nameserver_of_line (lines content)
          in if servers \<noteq> [] then servers else [''8.8.8.8'']))"

definition mtu_of_word :: "string \<Rightarrow> nat option" where
  "mtu_of_word w =
     (case strip_prefix w ''mtu'' of
        None \<Rightarrow> None
      | Some mtu_str \<Rightarrow> map_option (\<lambda>mtu. max mtu 1280) (parse_unsigned 10 0x10000 (trim mtu_str)))"

fun mtu_of_words :: "string list \<Rightarrow> nat option" where
  "mtu_of_words [] = None"
| "mtu_of_words (w # ws) = (case mtu_of_word w of Some mtu \<Rightarrow> Some mtu | None \<Rightarrow> mtu_of_words ws)"

text \<open>The status of \<open>ip\<close> is not looked at.\<close>

definition detect_mtu :: "nat action" where
  "detect_mtu = do {
     r \<leftarrow> exec ''ip'' [''route'', ''show'', ''default''];
     ret (case r of
         Inl _ \<Rightarrow> 0x4000
       | Inr out \<Rightarrow>
           (case mtu_of_words (split_whitespace (from_utf8_lossy (out_stdout out))) of
              Some mtu \<Rightarrow> mtu
            | None \<Rightarrow> 0x4000))
   }"

subsection \<open>Permissions\<close>

definition grant_runtime_permissions :: "string option \<Rightarrow> nat \<Rightarrow> unit action" where
  "grant_runtime_permissions serial sdk = do {
     (if 23 \<le> sdk
      then for_all [(''android.permission.ACCESS_FINE_LOCATION'', ''FINE_LOCATION''),
          (''android.permission.ACCESS_COARSE_LOCATION'', ''COARSE_LOCATION'')] (\<lambda>(perm, op). do {
        ignoring (exec_adb serial [''shell'', ''pm'', ''grant'', GNIREHTET_PKG, perm]);
        ignoring (exec_adb serial [''shell'', ''appops'', ''set'', ''--uid'', GNIREHTET_PKG, op, ''allow''])
      })
      else skip);
     (if 33 \<le> sdk
      then ignoring (exec_adb serial [''shell'', ''pm'', ''grant'', GNIREHTET_PKG, ''android.permission.POST_NOTIFICATIONS''])
      else skip)
   }"

definition grant_vpn_permission :: "string option \<Rightarrow> nat \<Rightarrow> unit action" where
  "grant_vpn_permission serial sdk =
     (if sdk < 23 then skip
      else ignoring (exec_adb serial [''shell'', ''appops'', ''set'', GNIREHTET_PKG, ''ACTIVATE_VPN'', ''allow'']))"

subsection \<open>Installing and stopping\<close>

definition cmd_uninstall :: "string option \<Rightarrow> unit cmd_result action" where
  "cmd_uninstall serial = exec_adb serial [''uninstall'', GNIREHTET_PKG]"

definition cmd_install :: "string option \<Rightarrow> unit cmd_result action" where
  "cmd_install serial = do {
     apk_path \<leftarrow> get_apk_path;
     adb \<leftarrow> get_adb_path;
     let args = create_adb_args serial [''install'', ''-r'', apk_path];
     r \<leftarrow> exec adb args;
     case r of
       Inl err \<Rightarrow> ret (Inl (process_io_error (cmd_new adb args) err))
     | Inr out \<Rightarrow>
         if success (out_status out) then ret (Inr ())
         else do {
           ignoring (cmd_uninstall serial);
           let retry_args = create_adb_args serial [''install'', apk_path];
           retry \<leftarrow> exec adb retry_args;
           ret (case retry of
               Inl err \<Rightarrow> Inl (process_io_error (cmd_new adb retry_args) err)
             | Inr retry_output \<Rightarrow>
                 if success (out_status retry_output) then Inr ()
                 else Inl (process_status_error (cmd_new adb retry_args) (out_status retry_output)))
         }
   }"

definition cmd_reinstall :: "string option \<Rightarrow> unit cmd_result action" where
  "cmd_reinstall serial = ok_then (cmd_uninstall serial) (\<lambda>_. ok_then (cmd_install serial) (\<lambda>_. ret (Inr ())))"

definition cmd_stop :: "string option \<Rightarrow> unit cmd_result action" where
  "cmd_stop serial = exec_adb serial [''shell'', ''am'', ''start'', ''-a'', ''com.genymobile.gnirehtet.STOP'',
     ''-n'', ''com.genymobile.gnirehtet/.GnirehtetActivity'']"

definition cmd_tunnel :: "string option \<Rightarrow> u16 \<Rightarrow> transport_mode \<Rightarrow> unit cmd_result action" where
  "cmd_tunnel serial port transport =
     (let spec = ''tcp:'' @ show_dec (unat port) in
      case transport of
        Reverse \<Rightarrow> exec_adb serial [''reverse'', ''localabstract:gnirehtet'', spec]
      | Forward \<Rightarrow> do {
          adb \<leftarrow> get_adb_path;
          ignoring (exec adb (create_adb_args serial [''forward'', ''--remove'', spec]));
          exec_adb serial [''forward'', spec, spec]
        })"

text \<open>The listing of \<open>adb devices\<close>, less its first line.\<close>

definition listed_devices :: "byte list \<Rightarrow> string list" where
  "listed_devices stdout = List.map_filter device_of_line (drop 1 (lines (from_utf8_lossy stdout)))"

definition effective_serial :: "string option \<Rightarrow> string option action" where
  "effective_serial serial =
     (case serial of
        Some s \<Rightarrow> ret (Some s)
      | None \<Rightarrow> do {
          adb \<leftarrow> get_adb_path;
          r \<leftarrow> exec adb [''devices''];
          ret (case r of
              Inl _ \<Rightarrow> None
            | Inr out \<Rightarrow>
                if success (out_status out)
                then (case listed_devices (out_stdout out) of [d] \<Rightarrow> Some d | _ \<Rightarrow> None)
                else None)
        })"

subsection \<open>Starting\<close>

text \<open>The arguments of \<open>cmd_start\<close>.\<close>

record start_options =
  so_serial :: "string option"
  so_dns_servers :: "string option"
  so_routes :: "string option"
  so_port :: u16
  so_proxy :: "string option"
  so_proxy_exclusions :: "string option"
  so_mtu :: u16
  so_allow_apps :: "string list"
  so_deny_apps :: "string list"
  so_socks5 :: "string option"
  so_transport :: transport_mode
  so_dummy_wifi_ssid :: "string option"

definition extra :: "string \<Rightarrow> string \<Rightarrow> string option \<Rightarrow> string list" where
  "extra kind key value = (case value of Some v \<Rightarrow> [kind, key, v] | None \<Rightarrow> [])"

text \<open>The command line of the START intent, by the SDK level of the device.\<close>

definition start_args :: "nat \<Rightarrow> start_options \<Rightarrow> string list" where
  "start_args sdk opts =
     (let supports_array_extras = 21 \<le> sdk;
          array_extra = (\<lambda>key value. if supports_array_extras then extra ''--esa'' key value else []);
          apps = (\<lambda>xs. if xs \<noteq> [] then Some (join '','' xs) else None)
      in [''shell'', ''am'', ''start'', ''-a'', ''com.genymobile.gnirehtet.START'',
          ''-n'', ''com.genymobile.gnirehtet/.GnirehtetActivity''] @
         array_extra ''dnsServers'' (so_dns_servers opts) @
         array_extra ''routes'' (so_routes opts) @
         extra ''--es'' ''proxyHostPort'' (so_proxy opts) @
         array_extra ''proxyExclusionList'' (so_proxy_exclusions opts) @
         extra ''--es'' ''socks5Proxy'' (so_socks5 opts) @
         extra ''--es'' ''dummyWifiSsid'' (so_dummy_wifi_ssid opts) @
         [''--ei'', ''mtu'', show_dec (unat (so_mtu opts))] @
         array_extra ''allowApps'' (apps (so_allow_apps opts)) @
         array_extra ''denyApps'' (apps (so_deny_apps opts)))"

definition disable_captive_portal :: "string option \<Rightarrow> nat \<Rightarrow> unit action" where
  "disable_captive_portal serial sdk =
     (if 25 \<le> sdk then ignoring (exec_adb serial [''shell'', ''settings'', ''put'', ''global'', ''captive_portal_mode'', ''0''])
      else if 19 \<le> sdk then
        ignoring (exec_adb serial [''shell'', ''settings'', ''put'', ''global'', ''captive_portal_detection_enabled'', ''0''])
      else skip)"

definition install_if_needed :: "string option \<Rightarrow> unit cmd_result action" where
  "install_if_needed serial =
     ok_then (must_install_client serial) (\<lambda>must_install.
       if must_install
       then ok_then (cmd_install serial) (\<lambda>_. do { sleep_ms 1500; ret (Inr ()) })
       else ret (Inr ()))"

text \<open>What comes before the tunnel: the installation, the SDK level (0 if unknown), the permissions and
  the registration of the serial.\<close>

definition prepare_start :: "start_options \<Rightarrow> nat cmd_result action" where
  "prepare_start opts = do {
     ensure_adb;
     ok_then (install_if_needed (so_serial opts)) (\<lambda>_. do {
       queried \<leftarrow> query_device_sdk (so_serial opts);
       let sdk = (case queried of Some n \<Rightarrow> n | None \<Rightarrow> 0);
       grant_runtime_permissions (so_serial opts) sdk;
       grant_vpn_permission (so_serial opts) sdk;
       serial \<leftarrow> effective_serial (so_serial opts);
       (case serial of Some s \<Rightarrow> register_serial s | None \<Rightarrow> skip);
       ret (Inr sdk)
     })
   }"

definition cmd_start :: "start_options \<Rightarrow> unit cmd_result action" where
  "cmd_start opts =
     ok_then (prepare_start opts) (\<lambda>sdk.
     ok_then (cmd_tunnel (so_serial opts) (so_port opts) (so_transport opts)) (\<lambda>_. do {
       disable_captive_portal (so_serial opts) sdk;
       exec_adb (so_serial opts) (start_args sdk opts)
     }))"

definition cmd_restart :: "string option \<Rightarrow> string option \<Rightarrow> string option \<Rightarrow> u16 \<Rightarrow> transport_preference \<Rightarrow> unit cmd_result action" where
  "cmd_restart serial dns_servers routes port transport_pref = do {
     transport \<leftarrow> transport_resolve transport_pref serial;
     ok_then (cmd_stop serial) (\<lambda>_.
     ok_then (cmd_start \<lparr>so_serial = serial, so_dns_servers = dns_servers, so_routes = routes, so_port = port,
       so_proxy = None, so_proxy_exclusions = None, so_mtu = 0x4000, so_allow_apps = [], so_deny_apps = [],
       so_socks5 = None, so_transport = transport, so_dummy_wifi_ssid = None\<rparr>) (\<lambda>_. ret (Inr ())))
   }"

text \<open>\<open>stop_all_connected_devices\<close>: the devices whose second word is \<open>device\<close>.\<close>

definition stop_all_connected_devices :: "unit action" where
  "stop_all_connected_devices = do {
     adb \<leftarrow> get_adb_path;
     r \<leftarrow> exec adb [''devices''];
     case r of
       Inl _ \<Rightarrow> skip
     | Inr out \<Rightarrow>
         if success (out_status out)
         then for_all (listed_devices (out_stdout out)) (\<lambda>serial. ignoring (cmd_stop (Some serial)))
         else skip
   }"

subsection \<open>The order of a start\<close>

text \<open>The command after the option \<open>-s serial\<close>, and the one that starts the client.\<close>

definition adb_command :: "string list \<Rightarrow> string list" where
  "adb_command args = (case args of a # _ # r \<Rightarrow> if a = ''-s'' then r else args | _ \<Rightarrow> args)"

fun is_start :: "effect \<Rightarrow> bool" where
  "is_start (Exec program args) \<longleftrightarrow>
     take 5 (adb_command args) = [''shell'', ''am'', ''start'', ''-a'', ''com.genymobile.gnirehtet.START'']"
| "is_start _ \<longleftrightarrow> False"

abbreviation startless :: "effect \<Rightarrow> bool" where
  "startless e \<equiv> \<not> is_start e"

lemma adb_command_args [simp]:
  "c \<noteq> ''-s'' \<Longrightarrow> adb_command (create_adb_args serial (c # cs)) = c # cs"
  by (cases serial; cases cs) (simp_all add: adb_command_def create_adb_args_def)

lemma does_grants [does_intros]:
  "does startless (grant_runtime_permissions serial sdk)" "does startless (grant_vpn_permission serial sdk)"
  "does startless (disable_captive_portal serial sdk)"
  unfolding grant_runtime_permissions_def grant_vpn_permission_def disable_captive_portal_def
  by (auto intro!: does_intros simp: GNIREHTET_PKG_def)

lemma does_must_install_client [does_intros]: "does startless (must_install_client serial)"
  unfolding must_install_client_def Let_def by (intro does_intros) simp

lemma does_cmd_install [does_intros]: "does startless (cmd_install serial)" "does startless (cmd_uninstall serial)"
  unfolding cmd_install_def cmd_uninstall_def get_apk_path_def Let_def by (intro does_intros; simp)+

lemma does_install_if_needed [does_intros]: "does startless (install_if_needed serial)"
  unfolding install_if_needed_def by (intro does_intros) simp_all

lemma does_effective_serial: "does startless (effective_serial serial)"
  unfolding effective_serial_def by (intro does_intros) (simp add: adb_command_def)

lemma does_ensure_startless: "does startless ensure_adb"
  by (rule does_ensure_adb) (simp_all add: adb_command_def split: list.split)

lemma does_prepare_start: "does startless (prepare_start opts)"
  unfolding prepare_start_def Let_def
  by (intro does_intros does_ensure_startless does_effective_serial) simp_all

text \<open>The command that makes the tunnel.\<close>

definition tunnel_args :: "u16 \<Rightarrow> transport_mode \<Rightarrow> string list" where
  "tunnel_args port transport =
     (let spec = ''tcp:'' @ show_dec (unat port) in
      case transport of
        Reverse \<Rightarrow> [''reverse'', ''localabstract:gnirehtet'', spec]
      | Forward \<Rightarrow> [''forward'', spec, spec])"

definition runs_well :: "host \<Rightarrow> effect list \<Rightarrow> string \<Rightarrow> string list \<Rightarrow> bool" where
  "runs_well h t program args \<longleftrightarrow>
     (\<exists>out. ev_run (hs_env h) (hs_trace h @ t) program args = Inr out \<and> success (out_status out))"

lemma exec_adb_ok_iff:
  assumes "run_state (exec_adb serial args) h = (r, h')"
  obtains adb where "hs_trace h' = hs_trace h @ [Exec adb (create_adb_args serial args)]" "hs_env h' = hs_env h"
    "r = Inr () \<longleftrightarrow> runs_well h [] adb (create_adb_args serial args)"
  using assms that
  by (auto simp: exec_adb_run Let_def runs_well_def split: sum.splits if_splits)

text \<open>A tunnel that is made has been made by the last command run, which succeeded.\<close>

lemma cmd_tunnel_trace:
  assumes "run_state (cmd_tunnel serial port transport) h = (r, h')"
  obtains pre adb where "hs_env h' = hs_env h"
    "hs_trace h' = hs_trace h @ pre @ [Exec adb (create_adb_args serial (tunnel_args port transport))]"
    "list_all startless pre" "r = Inr () \<longleftrightarrow> runs_well h pre adb (create_adb_args serial (tunnel_args port transport))"
proof (cases transport)
  case Reverse
  then have "run_state (exec_adb serial (tunnel_args port transport)) h = (r, h')"
    using assms by (simp add: cmd_tunnel_def tunnel_args_def Let_def)
  then show ?thesis using that [of "[]"] by (elim exec_adb_ok_iff) simp
next
  case Forward
  let ?spec = "''tcp:'' @ show_dec (unat port)"
  obtain adb0 where a: "run_state get_adb_path h = (adb0, h)"
    by (simp add: get_adb_path_def run_simps)
  let ?rm = "Exec adb0 (create_adb_args serial [''forward'', ''--remove'', ?spec])"
  have "run_state (exec_adb serial (tunnel_args port transport)) (h\<lparr>hs_trace := hs_trace h @ [?rm]\<rparr>) = (r, h')"
    using assms Forward a
    by (simp add: cmd_tunnel_def tunnel_args_def Let_def run_simps exec_def)
  then obtain adb where "hs_trace h' = (hs_trace h @ [?rm]) @ [Exec adb (create_adb_args serial (tunnel_args port transport))]"
    "hs_env h' = hs_env h" "r = Inr () \<longleftrightarrow>
      runs_well (h\<lparr>hs_trace := hs_trace h @ [?rm]\<rparr>) [] adb (create_adb_args serial (tunnel_args port transport))"
    by (rule exec_adb_ok_iff) simp
  then show ?thesis using that [of "[?rm]" adb] by (simp add: runs_well_def)
qed

text \<open>A serial that was given is registered before the tunnel is touched.\<close>

lemma prepare_registers:
  assumes "run_state (prepare_start opts) h = (Inr sdk, h')" "so_serial opts = Some s"
    "hs_trace h' = hs_trace h @ t"
  shows "Registered s \<in> set t"
proof -
  obtain h1 where h1: "run_state ensure_adb h = ((), h1)" by (cases "run_state ensure_adb h") auto
  obtain v h2 where h2: "run_state (install_if_needed (Some s)) h1 = (v, h2)" by force
  obtain q h3 where h3: "run_state (query_device_sdk (Some s)) h2 = (q, h3)" by force
  let ?sdk = "case q of Some n \<Rightarrow> n | None \<Rightarrow> 0"
  obtain h4 where h4: "run_state (grant_runtime_permissions (Some s) ?sdk) h3 = ((), h4)"
    by (cases "run_state (grant_runtime_permissions (Some s) ?sdk) h3") auto
  obtain h5 where h5: "run_state (grant_vpn_permission (Some s) ?sdk) h4 = ((), h5)"
    by (cases "run_state (grant_vpn_permission (Some s) ?sdk) h4") auto
  have h': "hs_trace h' = hs_trace h5 @ [Registered s]"
    using assms(1,2) h1 h2 h3 h4 h5
    by (auto simp: prepare_start_def Let_def run_simps effective_serial_def register_serial_def split: sum.splits)
  have "\<exists>t. hs_trace h5 = hs_trace h @ t"
    using doesD [OF does_ensure_startless h1] doesD [OF does_install_if_needed h2]
      doesD [OF does_query_device_sdk [of startless, simplified] h3]
      doesD [OF does_grants(1) h4] doesD [OF does_grants(2) h5]
    by (metis append.assoc)
  then show ?thesis using h' assms(3) by auto
qed

text \<open>The client is started last, once, and only when the tunnel has been made. \<open>started h opts t ok\<close>:
  the effects \<open>t\<close> on the host \<open>h\<close> end with the command that starts the client, whose success is \<open>ok\<close>, and
  before it comes the command that makes the tunnel, which succeeded.\<close>

definition tunnel_command :: "start_options \<Rightarrow> string list" where
  "tunnel_command opts = create_adb_args (so_serial opts) (tunnel_args (so_port opts) (so_transport opts))"

definition start_command :: "nat \<Rightarrow> start_options \<Rightarrow> string list" where
  "start_command sdk opts = create_adb_args (so_serial opts) (start_args sdk opts)"

definition started :: "host \<Rightarrow> start_options \<Rightarrow> effect list \<Rightarrow> bool \<Rightarrow> bool" where
  "started h opts t ok \<longleftrightarrow> (\<exists>pre post adb adb' sdk.
     t = pre @ Exec adb (tunnel_command opts) # post @ [Exec adb' (start_command sdk opts)] \<and>
     list_all startless (pre @ Exec adb (tunnel_command opts) # post) \<and>
     (\<forall>s. so_serial opts = Some s \<longrightarrow> Registered s \<in> set pre) \<and>
     runs_well h pre adb (tunnel_command opts) \<and>
     (ok \<longleftrightarrow> runs_well h (pre @ Exec adb (tunnel_command opts) # post) adb' (start_command sdk opts)))"

lemma startless_tunnel: "startless (Exec adb (tunnel_command opts))"
  by (cases "so_transport opts") (simp_all add: tunnel_command_def tunnel_args_def Let_def)

lemma cmd_start_order:
  assumes "run_state (cmd_start opts) h = (r, h')"
  shows "\<exists>t. hs_trace h' = hs_trace h @ t \<and> (list_all startless t \<and> r \<noteq> Inr () \<or> started h opts t (r = Inr ()))"
proof -
  obtain p h1 where h1: "run_state (prepare_start opts) h = (p, h1)" by force
  obtain t1 where t1: "hs_env h1 = hs_env h" "hs_trace h1 = hs_trace h @ t1" "list_all startless t1"
    by (rule doesD [OF does_prepare_start h1])
  show ?thesis
  proof (cases p)
    case (Inl e)
    then have "h' = h1" "r = Inl e" using assms h1 by (simp_all add: cmd_start_def run_simps)
    then show ?thesis using t1 by auto
  next
    case p: (Inr sdk)
    obtain q h2 where h2: "run_state (cmd_tunnel (so_serial opts) (so_port opts) (so_transport opts)) h1 = (q, h2)"
      by force
    obtain t2 adb where t2: "hs_env h2 = hs_env h1"
      "hs_trace h2 = hs_trace h1 @ t2 @ [Exec adb (tunnel_command opts)]" "list_all startless t2"
      "q = Inr () \<longleftrightarrow> runs_well h1 t2 adb (tunnel_command opts)"
      unfolding tunnel_command_def by (rule cmd_tunnel_trace [OF h2])
    show ?thesis
    proof (cases q)
      case (Inl e)
      then have "h' = h2" "r = Inl e" using assms h1 h2 p by (simp_all add: cmd_start_def run_simps)
      then show ?thesis using t1 t2 startless_tunnel [of adb opts] by auto
    next
      case (Inr u)
      obtain h3 where h3: "run_state (disable_captive_portal (so_serial opts) sdk) h2 = ((), h3)"
        by (cases "run_state (disable_captive_portal (so_serial opts) sdk) h2") auto
      obtain t3 where t3: "hs_env h3 = hs_env h2" "hs_trace h3 = hs_trace h2 @ t3" "list_all startless t3"
        by (rule doesD [OF does_grants(3) h3])
      have "run_state (exec_adb (so_serial opts) (start_args sdk opts)) h3 = (r, h')"
        using assms h1 h2 h3 p Inr by (simp add: cmd_start_def run_simps)
      then obtain adb' where s: "hs_trace h' = hs_trace h3 @ [Exec adb' (start_command sdk opts)]"
        "r = Inr () \<longleftrightarrow> runs_well h3 [] adb' (start_command sdk opts)"
        unfolding start_command_def by (rule exec_adb_ok_iff)
      let ?pre = "t1 @ t2" and ?tunnel = "Exec adb (tunnel_command opts)"
      have trace: "hs_trace h' = hs_trace h @ ?pre @ ?tunnel # t3 @ [Exec adb' (start_command sdk opts)]"
        using s(1) t1(2) t2(2) t3(2) by simp
      have "runs_well h ?pre adb (tunnel_command opts)"
        using t2(4) Inr t1 by (simp add: runs_well_def)
      moreover have "r = Inr () \<longleftrightarrow> runs_well h (?pre @ ?tunnel # t3) adb' (start_command sdk opts)"
        using s(2) t1 t2 t3 by (simp add: runs_well_def)
      moreover have "\<forall>s. so_serial opts = Some s \<longrightarrow> Registered s \<in> set ?pre"
        using prepare_registers [OF h1 [unfolded p] _ t1(2)] by auto
      moreover have "list_all startless (?pre @ ?tunnel # t3)" using t1(3) t2(3) t3(3) startless_tunnel [of adb opts] by simp
      ultimately have "started h opts (?pre @ ?tunnel # t3 @ [Exec adb' (start_command sdk opts)]) (r = Inr ())"
        unfolding started_def by blast
      then show ?thesis using trace by blast
    qed
  qed
qed

text \<open>To a device below API level 21 no array extra is passed.\<close>

lemma no_array_extras:
  assumes "sdk < 21" "''--esa'' \<notin> set (start_args 0 opts)"
  shows "''--esa'' \<notin> set (start_args sdk opts)"
  using assms by (simp add: start_args_def Let_def)

text \<open>What \<open>ip route\<close> prints about the MTU (two words, \<open>mtu 1400\<close>) is never understood.\<close>

lemma mtu_as_printed: "mtu_of_words [''mtu'', show_dec n] = None"
proof -
  obtain c r d where c: "show_dec n = c # r" "c = digit_char d" "d < 10"
    using show_dec_digits [of n] by (cases "show_dec n") auto
  have "c \<noteq> CHR ''m''"
  proof
    assume "c = CHR ''m''"
    then have "of_char c = (109 :: nat)" by simp
    then show False using digit_char_code [OF c(3)] c(2,3) by simp
  qed
  then have "\<not> starts_with (show_dec n) ''mtu''" using c(1) by simp
  then show ?thesis
    by (simp add: mtu_of_word_def strip_prefix_def trim_def parse_unsigned_def)
qed

end
