(* ===== verification/Wifi.thy ===== *)
theory Wifi
  imports Host
begin

text \<open>
  \<open>wifi.rs\<close> (the Linux build, through \<open>nmcli\<close>): the Wi-Fi interfaces of the host, the open access
  points around it, and the choice of the interface for the hotspot.
\<close>

record wifi_interface =
  wi_name :: string
  wi_connected :: bool
  wi_current_ssid :: "string option"

record open_ap =
  ap_ssid :: string
  ap_signal :: int

definition describe :: "wifi_interface \<Rightarrow> string" where
  "describe i =
     (case (wi_current_ssid i, wi_connected i) of
        (Some ssid, _) \<Rightarrow> wi_name i @ '' (connected to '' @ ssid @ '')''
      | (None, True) \<Rightarrow> wi_name i @ '' (connected)''
      | (None, False) \<Rightarrow> wi_name i @ '' (disconnected)'')"

text \<open>The closure \<open>is_free\<close>: not connected, or to a network of a previous relay.\<close>

definition is_free :: "wifi_interface \<Rightarrow> bool" where
  "is_free i \<longleftrightarrow> \<not> wi_connected i \<or>
     (case wi_current_ssid i of Some ssid \<Rightarrow> starts_with ssid ''gnirehtet-'' | None \<Rightarrow> False)"

definition select_interface_for_hotspot :: "wifi_interface list \<Rightarrow> (wifi_interface \<times> bool) option" where
  "select_interface_for_hotspot interfaces =
     (case interfaces of
        [] \<Rightarrow> None
      | i # _ \<Rightarrow> (case List.find is_free interfaces of Some iface \<Rightarrow> Some (iface, False) | None \<Rightarrow> Some (i, True)))"

text \<open>A line of \<open>nmcli\<close>'s terse format: \<open>DEVICE:TYPE:STATE:CONNECTION\<close>.\<close>

definition parse_nmcli_device_line :: "string \<Rightarrow> wifi_interface option" where
  "parse_nmcli_device_line line =
     (case splitn 4 (CHR '':'') line of
        name # kind # state # r \<Rightarrow>
          (let connection = (case r of c # _ \<Rightarrow> c | [] \<Rightarrow> []) in
           if kind \<noteq> ''wifi'' then None
           else let connected = (state = ''connected'') in
             Some \<lparr>wi_name = name, wi_connected = connected,
               wi_current_ssid = (if connected \<and> connection \<noteq> [] then Some (unescape_colons connection) else None)\<rparr>)
      | _ \<Rightarrow> None)"

definition stdout_text :: "process_output io_result \<Rightarrow> string option" where
  "stdout_text r =
     (case r of
        Inl _ \<Rightarrow> None
      | Inr out \<Rightarrow> if success (out_status out) then Some (from_utf8_lossy (out_stdout out)) else None)"

definition list_wifi_interfaces :: "wifi_interface list action" where
  "list_wifi_interfaces = do {
     r \<leftarrow> exec ''nmcli'' [''-t'', ''-f'', ''DEVICE,TYPE,STATE,CONNECTION'', ''device'', ''status''];
     ret (case stdout_text r of
         None \<Rightarrow> []
       | Some stdout \<Rightarrow> List.map_filter parse_nmcli_device_line (lines stdout))
   }"

text \<open>\<open>SSID:SIGNAL:SECURITY\<close>, split from the right.\<close>

definition nth_field :: "nat \<Rightarrow> string \<Rightarrow> string list \<Rightarrow> string" where
  "nth_field k fallback parts = (if k < length parts then parts ! k else fallback)"

definition parse_nmcli_ap_line :: "string \<Rightarrow> open_ap option" where
  "parse_nmcli_ap_line line =
     (let parts = rsplitn 3 (CHR '':'') line;
          security = nth_field 0 [] parts;
          signal_str = nth_field 1 ''0'' parts;
          ssid_raw = nth_field 2 [] parts;
          is_open = (security = [] \<or> security = ''--'')
      in if ssid_raw = [] \<or> \<not> is_open then None
         else Some \<lparr>ap_ssid = unescape_colons ssid_raw,
           ap_signal = (case parse_i32 signal_str of Some n \<Rightarrow> n | None \<Rightarrow> 0)\<rparr>)"

definition scan_open_aps :: "string \<Rightarrow> open_ap list action" where
  "scan_open_aps interface = do {
     ignoring (exec ''nmcli'' [''device'', ''wifi'', ''rescan'', ''ifname'', interface]);
     sleep_ms 1500;
     r \<leftarrow> exec ''nmcli'' [''-t'', ''-f'', ''SSID,SIGNAL,SECURITY'', ''device'', ''wifi'', ''list'', ''ifname'', interface];
     ret (case stdout_text r of
         None \<Rightarrow> []
       | Some stdout \<Rightarrow>
           sort_key (\<lambda>ap. - ap_signal ap) (List.map_filter parse_nmcli_ap_line (lines stdout)))
   }"

subsection \<open>The choice\<close>

text \<open>The first free interface if there is one; else the first, and then it is destructive.\<close>

lemma select_free:
  assumes "select_interface_for_hotspot interfaces = Some (iface, destructive)"
  shows "iface \<in> set interfaces \<and> (destructive \<longleftrightarrow> (\<forall>i \<in> set interfaces. \<not> is_free i)) \<and>
    (destructive \<longrightarrow> iface = hd interfaces) \<and> (\<not> destructive \<longrightarrow> is_free iface)"
proof -
  obtain i rest where i: "interfaces = i # rest"
    using assms by (cases interfaces) (simp_all add: select_interface_for_hotspot_def)
  show ?thesis
  proof (cases "List.find is_free interfaces")
    case None
    then have "\<forall>i \<in> set interfaces. \<not> is_free i" by (auto simp: find_None_iff)
    with None show ?thesis using assms i by (auto simp: select_interface_for_hotspot_def)
  next
    case (Some j)
    then have "j \<in> set interfaces" "is_free j" by (auto simp: find_Some_iff)
    moreover have "iface = j" "\<not> destructive"
      using assms i Some by (auto simp: select_interface_for_hotspot_def simp del: find.simps)
    ultimately show ?thesis by blast
  qed
qed

lemma select_none_iff: "select_interface_for_hotspot interfaces = None \<longleftrightarrow> interfaces = []"
  by (auto simp: select_interface_for_hotspot_def split: list.splits option.splits)

lemma does_list_wifi_interfaces [does_intros]:
  "P (Exec ''nmcli'' [''-t'', ''-f'', ''DEVICE,TYPE,STATE,CONNECTION'', ''device'', ''status'']) \<Longrightarrow>
   does P list_wifi_interfaces"
  unfolding list_wifi_interfaces_def by (intro does_intros)

lemma does_scan_open_aps [does_intros]:
  "(\<And>args. P (Exec ''nmcli'' ([''device'', ''wifi'', ''rescan''] @ args))) \<Longrightarrow> P (Sleep 1500) \<Longrightarrow>
   (\<And>args. P (Exec ''nmcli'' (''-t'' # args))) \<Longrightarrow> does P (scan_open_aps interface)"
  unfolding scan_open_aps_def by (intro does_intros) (auto dest: meta_spec [of _ "[''ifname'', interface]"])

text \<open>The access points are offered strongest first.\<close>

lemma scan_sorted:
  "sorted_wrt (\<lambda>a b. ap_signal b \<le> ap_signal a) (fst (run_state (scan_open_aps interface) h))"
proof -
  have "sorted_wrt (\<lambda>a b. ap_signal b \<le> ap_signal a) (sort_key (\<lambda>ap. - ap_signal ap) xs)" for xs
    using sorted_sort_key [of "\<lambda>ap. - ap_signal ap" xs] by (simp add: sorted_map)
  then show ?thesis
    by (auto simp: scan_open_aps_def run_simps primitive_defs split: option.split)
qed

text \<open>Reading a line of \<open>nmcli\<close> back: colons of the connection's name are escaped.\<close>

fun escape_colons :: "string \<Rightarrow> string" where
  "escape_colons [] = []"
| "escape_colons (c # s) = (if c = CHR '':'' then [CHR 0x5C, CHR '':''] else [c]) @ escape_colons s"

lemma unescape_escape: "CHR 0x5C \<notin> set s \<Longrightarrow> unescape_colons (escape_colons s) = s"
proof (induction s)
  case (Cons c s)
  have "unescape_colons (c # escape_colons s) = c # unescape_colons (escape_colons s)" if "c \<noteq> CHR 0x5C"
    using that by (cases "escape_colons s") simp_all
  then show ?case using Cons by auto
qed simp

lemma splitn_field:
  assumes "CHR '':'' \<notin> set a"
  shows "splitn (Suc (Suc n)) (CHR '':'') (a @ CHR '':'' # s) = a # splitn (Suc n) (CHR '':'') s"
proof -
  have "takeWhile (\<lambda>c. c \<noteq> CHR '':'') (a @ CHR '':'' # s) = a"
    using assms by (subst takeWhile_append2) auto
  then show ?thesis by (simp add: Let_def)
qed

lemma parse_device_line:
  assumes "CHR '':'' \<notin> set name" "CHR 0x5C \<notin> set ssid" "ssid \<noteq> []"
  shows "parse_nmcli_device_line (name @ CHR '':'' # ''wifi'' @ CHR '':'' # ''connected'' @ CHR '':'' # escape_colons ssid) =
    Some \<lparr>wi_name = name, wi_connected = True, wi_current_ssid = Some ssid\<rparr>"
proof -
  have "escape_colons ssid \<noteq> []" using assms(3) by (cases ssid) auto
  moreover have "splitn 4 (CHR '':'') (name @ CHR '':'' # ''wifi'' @ CHR '':'' # ''connected'' @ CHR '':'' # escape_colons ssid)
      = [name, ''wifi'', ''connected'', escape_colons ssid]"
  proof -
    have n: "(4 :: nat) = Suc (Suc 2)" "(2 :: nat) = Suc (Suc 0)" by simp_all
    have f: "splitn 4 (CHR '':'') (name @ CHR '':'' # s) = name # splitn (Suc 2) (CHR '':'') s"
      "splitn (Suc 2) (CHR '':'') (''wifi'' @ CHR '':'' # s) = ''wifi'' # splitn 2 (CHR '':'') s"
      "splitn 2 (CHR '':'') (''connected'' @ CHR '':'' # s) = [''connected'', s]" for s
      using splitn_field [OF assms(1), of 2] splitn_field [of "''wifi''" 1] splitn_field [of "''connected''" 0]
      unfolding n(1) n(2) One_nat_def by simp_all
    show ?thesis by (simp only: f)
  qed
  ultimately show ?thesis
    by (simp add: parse_nmcli_device_line_def unescape_escape [OF assms(2)])
qed

end
