(* ===== verification/Hotspot.thy ===== *)
theory Hotspot
  imports Wifi
begin

text \<open>
  \<open>hotspot.rs\<close> (the Linux build, module \<open>platform\<close>): the dummy access point that the host creates
  through \<open>nmcli\<close>, and the name it gives it. \<open>Drop\<close> is the operation \<open>hotspot_stop\<close> at the end of the
  owner's scope.
\<close>

record hotspot_config =
  hc_ssid :: "string option"
  hc_password :: "string option"
  hc_interface :: "string option"

record hotspot =
  hp_con_name :: string
  hp_ssid :: string

definition SSID_PREFIX :: string where
  "SSID_PREFIX = ''gnirehtet-''"

definition MAX_COLLISION_ATTEMPTS :: nat where
  "MAX_COLLISION_ATTEMPTS = 8"

definition nmcli :: "string list \<Rightarrow> unit io_result action" where
  "nmcli args = do {
     r \<leftarrow> exec ''nmcli'' args;
     ret (case r of
         Inl _ \<Rightarrow> Inl NotFound
       | Inr out \<Rightarrow> if success (out_status out) then Inr () else Inl OtherError)
   }"

text \<open>\<open>-t\<close> prints \<open>wlan0:wifi\<close>.\<close>

definition wifi_of_line :: "string \<Rightarrow> string option" where
  "wifi_of_line line =
     (let parts = split_on (CHR '':'') [] line in
      if 2 \<le> length parts \<and> parts ! 1 = ''wifi'' then Some (parts ! 0) else None)"

fun first_some :: "('a \<Rightarrow> 'b option) \<Rightarrow> 'a list \<Rightarrow> 'b option" where
  "first_some f [] = None"
| "first_some f (x # xs) = (case f x of Some y \<Rightarrow> Some y | None \<Rightarrow> first_some f xs)"

definition detect_wifi_interface :: "string option action" where
  "detect_wifi_interface = do {
     r \<leftarrow> exec ''nmcli'' [''-t'', ''-f'', ''DEVICE,TYPE'', ''device'', ''status''];
     ret (case stdout_text r of
         None \<Rightarrow> None
       | Some stdout \<Rightarrow> first_some wifi_of_line (lines stdout))
   }"

subsection \<open>The name\<close>

text \<open>\<open>{:05x}\<close>, and FNV-1a on 32 bits.\<close>

definition show_05x :: "nat \<Rightarrow> string" where
  "show_05x n = (let s = show_hex n in replicate (5 - length s) (CHR ''0'') @ s)"

definition fnv1a :: "byte list \<Rightarrow> u32" where
  "fnv1a bytes = fold (\<lambda>byte hash. (hash XOR ucast byte) * 16777619) bytes 2166136261"

definition fnv1a_5hex :: "string \<Rightarrow> string" where
  "fnv1a_5hex input = show_05x (unat (fnv1a (bytes_of_string input) AND 0xFFFFF))"

definition get_hostname :: "string action" where
  "get_hostname = look (\<lambda>h.
     let fallback = (case ev_var (hs_env h) ''HOSTNAME'' of
         Some (Some s) \<Rightarrow> if s \<noteq> [] then s else ''host''
       | _ \<Rightarrow> ''host'') in
     case ev_read_file (hs_env h) ''/etc/hostname'' of
       Inr s \<Rightarrow> if trim s \<noteq> [] then trim s else fallback
     | Inl _ \<Rightarrow> fallback)"

definition scan_nearby_gnirehtet_ssids :: "string \<Rightarrow> string list action" where
  "scan_nearby_gnirehtet_ssids interface = do {
     ignoring (exec ''nmcli'' [''device'', ''wifi'', ''rescan'', ''ifname'', interface]);
     sleep_ms 1500;
     r \<leftarrow> exec ''nmcli'' [''-t'', ''-f'', ''SSID'', ''device'', ''wifi'', ''list'', ''ifname'', interface];
     ret (case stdout_text r of
         None \<Rightarrow> []
       | Some stdout \<Rightarrow>
           filter (\<lambda>s. starts_with s SSID_PREFIX \<and> length s \<le> 20)
             (filter (\<lambda>s. s \<noteq> []) (map trim (lines stdout))))
   }"

fun random_ssid :: "nat \<Rightarrow> string list \<Rightarrow> string io_result action" where
  "random_ssid 0 existing = ret (Inl OtherError)"
| "random_ssid (Suc attempts) existing = do {
     r \<leftarrow> random_u32;
     let candidate = SSID_PREFIX @ show_05x (unat (r AND 0xFFFFF));
     if candidate \<notin> set existing then ret (Inr candidate) else random_ssid attempts existing
   }"

definition generate_unique_ssid :: "string \<Rightarrow> string io_result action" where
  "generate_unique_ssid interface = do {
     existing \<leftarrow> scan_nearby_gnirehtet_ssids interface;
     hostname \<leftarrow> get_hostname;
     let base_ssid = SSID_PREFIX @ fnv1a_5hex hostname;
     if base_ssid \<notin> set existing then ret (Inr base_ssid)
     else random_ssid MAX_COLLISION_ATTEMPTS existing
   }"

subsection \<open>The access point\<close>

text \<open>The body of the loop over the lines \<open>NAME:DEVICE\<close>.\<close>

definition cleanup_profile :: "string \<Rightarrow> unit action" where
  "cleanup_profile line =
     (let parts = splitn 2 (CHR '':'') line;
          name = trim (nth_field 0 [] parts)
      in if \<not> starts_with name ''gnirehtet-dummy-'' then skip
         else do {
           let device = trim (nth_field 1 [] parts);
           (if device \<noteq> [] \<and> device \<noteq> ''--''
            then ignoring (exec ''nmcli'' [''device'', ''disconnect'', device]) else skip);
           ignoring (exec ''nmcli'' [''connection'', ''delete'', name])
         })"

definition cleanup_stale_profiles :: "unit action" where
  "cleanup_stale_profiles = do {
     r \<leftarrow> exec ''nmcli'' [''-t'', ''-f'', ''NAME,DEVICE'', ''connection'', ''show''];
     case stdout_text r of
       None \<Rightarrow> skip
     | Some stdout \<Rightarrow> for_all (lines stdout) cleanup_profile
   }"

definition hotspot_interface :: "hotspot_config \<Rightarrow> string io_result action" where
  "hotspot_interface config =
     (case hc_interface config of
        Some interface \<Rightarrow> ret (Inr interface)
      | None \<Rightarrow> do {
          detected \<leftarrow> detect_wifi_interface;
          ret (case detected of Some interface \<Rightarrow> Inr interface | None \<Rightarrow> Inl NotFound)
        })"

text \<open>The commands that create the profile of the connection, before it is brought up.\<close>

definition hotspot_profile :: "hotspot_config \<Rightarrow> string \<Rightarrow> string \<Rightarrow> string \<Rightarrow> unit io_result action" where
  "hotspot_profile config interface con_name ssid =
     ok_then (nmcli [''connection'', ''add'', ''type'', ''wifi'', ''ifname'', interface,
       ''con-name'', con_name, ''autoconnect'', ''no'', ''ssid'', ssid]) (\<lambda>_.
     ok_then (nmcli [''connection'', ''modify'', con_name, ''802-11-wireless.mode'', ''ap'',
       ''802-11-wireless.band'', ''bg'', ''802-11-wireless.channel'', ''6'']) (\<lambda>_.
     ok_then (nmcli [''connection'', ''modify'', con_name, ''ipv4.method'', ''shared'',
       ''ipv4.addresses'', ''192.168.12.1/24'', ''ipv6.method'', ''disabled'']) (\<lambda>_.
     case hc_password config of
       Some password \<Rightarrow> nmcli [''connection'', ''modify'', con_name,
         ''wifi-sec.key-mgmt'', ''wpa-psk'', ''wifi-sec.psk'', password]
     | None \<Rightarrow> ret (Inr ()))))"

definition hotspot_start :: "hotspot_config \<Rightarrow> hotspot io_result action" where
  "hotspot_start config =
     ok_then (hotspot_interface config) (\<lambda>interface. do {
       cleanup_stale_profiles;
       ok_then (case hc_ssid config of
           Some s \<Rightarrow> ret (Inr s)
         | None \<Rightarrow> generate_unique_ssid interface) (\<lambda>ssid. do {
         con_name \<leftarrow> look (\<lambda>h. ''gnirehtet-dummy-'' @ show_dec (ev_pid (hs_env h)));
         ignoring (nmcli [''connection'', ''delete'', con_name]);
         ok_then (hotspot_profile config interface con_name ssid) (\<lambda>_.
         ok_then (nmcli [''connection'', ''up'', con_name]) (\<lambda>_.
         ret (Inr \<lparr>hp_con_name = con_name, hp_ssid = ssid\<rparr>)))
       })
     })"

definition hotspot_stop :: "hotspot \<Rightarrow> unit io_result action" where
  "hotspot_stop h = do {
     ignoring (nmcli [''connection'', ''down'', hp_con_name h]);
     ignoring (nmcli [''connection'', ''delete'', hp_con_name h]);
     ret (Inr ())
   }"

subsection \<open>Properties of the name\<close>

lemma length_show_base: "2 \<le> b \<Longrightarrow> b \<le> 16 \<Longrightarrow> n < b ^ k \<Longrightarrow> 0 < k \<Longrightarrow> length (show_base b n) \<le> k"
proof (induction k arbitrary: n)
  case (Suc k)
  show ?case
  proof (cases "n < b")
    case True
    then show ?thesis by (simp add: show_base.simps)
  next
    case False
    then have "k \<noteq> 0" using Suc.prems(3) by (intro notI) simp
    moreover have "n div b < b ^ k"
      using Suc.prems(1,3) by (simp add: less_mult_imp_div_less mult.commute)
    ultimately have "length (show_base b (n div b)) \<le> k" using Suc by simp
    then show ?thesis using False by (subst show_base.simps) simp
  qed
qed simp

lemma length_show_05x: "n < 0x100000 \<Longrightarrow> length (show_05x n) = 5"
  using length_show_base [of 16 n 5] by (simp add: show_05x_def show_hex_def Let_def)

lemma mask_20: "unat ((w :: u32) AND 0xFFFFF) < 0x100000"
proof -
  have "(0xFFFFF :: u32) = mask 20" by (simp add: mask_eq_exp_minus_1)
  then have "w AND 0xFFFFF = take_bit 20 w" by (simp add: take_bit_eq_mask)
  then have "unat (w AND 0xFFFFF) = take_bit 20 (unat w)" by (simp add: unsigned_take_bit_eq)
  then show ?thesis using take_bit_nat_less_exp [of 20 "unat w"] by simp
qed

definition own_ssid :: "string \<Rightarrow> bool" where
  "own_ssid s \<longleftrightarrow> starts_with s SSID_PREFIX \<and> length s = 15"

lemma own_ssid_masked: "own_ssid (SSID_PREFIX @ show_05x (unat ((w :: u32) AND 0xFFFFF)))"
  using length_show_05x [OF mask_20 [of w]] by (simp add: own_ssid_def SSID_PREFIX_def)

lemma random_ssid_fresh:
  "run_state (random_ssid n existing) h = (Inr s, h') \<Longrightarrow> own_ssid s \<and> s \<notin> set existing"
  by (induction n arbitrary: h)
    (auto simp: random_u32_def run_simps own_ssid_masked Let_def split: if_splits)

text \<open>A generated name is one that this program recognises, and that no access point in range had.\<close>

lemma generate_unique_ssid_fresh:
  assumes "run_state (generate_unique_ssid interface) h = (Inr s, h')"
    "run_state (scan_nearby_gnirehtet_ssids interface) h = (existing, h1)"
  shows "own_ssid s" "s \<notin> set existing"
  using assms random_ssid_fresh [of MAX_COLLISION_ATTEMPTS existing _ s h']
  by (auto simp: generate_unique_ssid_def get_hostname_def run_simps fnv1a_5hex_def own_ssid_masked Let_def
      split: if_splits)

text \<open>The same host gets the same name unless it is taken.\<close>

lemma generate_unique_ssid_stable:
  assumes "run_state (scan_nearby_gnirehtet_ssids interface) h = (existing, h1)"
    "SSID_PREFIX @ fnv1a_5hex (fst (run_state get_hostname h1)) \<notin> set existing"
  shows "run_state (generate_unique_ssid interface) h =
    (Inr (SSID_PREFIX @ fnv1a_5hex (fst (run_state get_hostname h1))), h1)"
  using assms by (simp add: generate_unique_ssid_def get_hostname_def run_simps Let_def)

subsection \<open>What the hotspot does\<close>

text \<open>Everything goes through \<open>nmcli\<close>.\<close>

definition by_nmcli :: "effect \<Rightarrow> bool" where
  "by_nmcli e \<longleftrightarrow> (case e of Exec program _ \<Rightarrow> program = ''nmcli'' | Sleep _ \<Rightarrow> True | Drew \<Rightarrow> True | _ \<Rightarrow> False)"

lemma by_nmcli_simps [simp]: "by_nmcli (Exec ''nmcli'' args)" "by_nmcli (Sleep n)" "by_nmcli Drew"
  by (simp_all add: by_nmcli_def)

lemma does_nmcli [does_intros]: "P (Exec ''nmcli'' args) \<Longrightarrow> does P (nmcli args)"
  unfolding nmcli_def by (intro does_intros)

lemma does_random_ssid: "does by_nmcli (random_ssid n existing)"
  by (induction n) (auto intro!: does_intros)

lemma does_hotspot_start: "does by_nmcli (hotspot_start config)"
  unfolding hotspot_start_def hotspot_interface_def detect_wifi_interface_def cleanup_stale_profiles_def
    cleanup_profile_def generate_unique_ssid_def scan_nearby_gnirehtet_ssids_def get_hostname_def
    hotspot_profile_def Let_def
  by (intro does_intros does_random_ssid) simp_all

lemma does_hotspot_stop: "does by_nmcli (hotspot_stop hp)"
  unfolding hotspot_stop_def by (intro does_intros) simp_all

end
