(* ===== verification/Dummy_Wifi.thy ===== *)
theory Dummy_Wifi
  imports Commands Hotspot
begin

text \<open>
  \<open>commands.rs\<close>, the dummy Wi-Fi and the commands that run the relay. A question is what is printed
  before the answer is read; other messages are left out. The relay itself, the other threads and the
  end of \<open>select!\<close> are arguments.
\<close>

record dummy_wifi_outcome =
  dw_hotspot :: "hotspot option"
  dw_ssid_for_client :: "string option"

definition outcome_empty :: dummy_wifi_outcome where
  "outcome_empty = \<lparr>dw_hotspot = None, dw_ssid_for_client = None\<rparr>"

definition create_hotspot :: "string option \<Rightarrow> string option \<Rightarrow> dummy_wifi_outcome action" where
  "create_hotspot ssid interface = do {
     r \<leftarrow> hotspot_start \<lparr>hc_ssid = ssid, hc_password = None, hc_interface = interface\<rparr>;
     case r of
       Inr h \<Rightarrow> do {
         sleep_ms 2500;
         ret \<lparr>dw_hotspot = Some h, dw_ssid_for_client = Some (hp_ssid h)\<rparr>
       }
     | Inl _ \<Rightarrow> ret outcome_empty
   }"

subsection \<open>Questions\<close>

definition to_ascii_lowercase :: "string \<Rightarrow> string" where
  "to_ascii_lowercase s =
     map (\<lambda>c. let n = of_char c :: nat in if 65 \<le> n \<and> n \<le> 90 then char_of (n + 32) else c) s"

definition says_yes :: "string io_result \<Rightarrow> bool" where
  "says_yes line =
     (case line of
        Inl _ \<Rightarrow> False
      | Inr l \<Rightarrow> (let answer = to_ascii_lowercase (trim l) in answer = ''y'' \<or> answer = ''yes''))"

definition prompt_default_yes :: "string \<Rightarrow> bool action" where
  "prompt_default_yes question = do {
     eprint_question (question @ '' [Y/n] '');
     line \<leftarrow> read_line;
     ret (case line of Inl _ \<Rightarrow> False | Inr l \<Rightarrow> trim l = [] \<or> says_yes line)
   }"

definition prompt_default_no :: "string \<Rightarrow> bool action" where
  "prompt_default_no question = do {
     eprint_question (question @ '' [y/N] '');
     line \<leftarrow> read_line;
     ret (says_yes line)
   }"

definition is_terminal :: "bool action" where
  "is_terminal = look (\<lambda>h. ev_terminal (hs_env h))"

text \<open>A \<open>usize\<close> has 64 bits.\<close>

definition offer_open_ap :: "open_ap list \<Rightarrow> string option action" where
  "offer_open_ap aps =
     (case aps of
        [] \<Rightarrow> ret None
      | ap # others \<Rightarrow> do {
          terminal \<leftarrow> is_terminal;
          if \<not> terminal then ret (Some (ap_ssid ap))
          else if others = [] then do {
            use \<leftarrow> prompt_default_yes (''Use '' @ CHR 0x27 # ap_ssid ap @ CHR 0x27 # '' as dummy Wi-Fi?'');
            ret (if use then Some (ap_ssid ap) else None)
          }
          else do {
            eprint_question (''Choose [1-'' @ show_dec (length aps) @ '', or 0 to skip]: '');
            line \<leftarrow> read_line;
            ret (case line of
                Inl _ \<Rightarrow> None
              | Inr l \<Rightarrow>
                  (let choice = (case parse_unsigned 10 0x10000000000000000 (trim l) of Some n \<Rightarrow> n | None \<Rightarrow> 0)
                   in if 1 \<le> choice \<and> choice \<le> length aps then Some (ap_ssid (aps ! (choice - 1))) else None))
          }
        })"

subsection \<open>The setup\<close>

text \<open>The access points that can be used as they are: not the interface's own, none of a relay.\<close>

definition reusable_aps :: "wifi_interface \<Rightarrow> open_ap list \<Rightarrow> open_ap list" where
  "reusable_aps iface aps =
     filter (\<lambda>ap. Some (ap_ssid ap) \<noteq> wi_current_ssid iface \<and> \<not> starts_with (ap_ssid ap) ''gnirehtet-'') aps"

definition as_it_is :: "string \<Rightarrow> dummy_wifi_outcome" where
  "as_it_is ssid = \<lparr>dw_hotspot = None, dw_ssid_for_client = Some ssid\<rparr>"

definition take_over_question :: "wifi_interface \<Rightarrow> string" where
  "take_over_question iface =
     ''The relay needs to take over '' @ CHR 0x27 # wi_name iface @ CHR 0x27 # '' (currently connected to '' @
     CHR 0x27 # (case wi_current_ssid iface of Some s \<Rightarrow> s | None \<Rightarrow> ''(unknown SSID)'') @ CHR 0x27 #
     ''). This will disconnect the host from that network. Continue?''"

definition take_over :: "string option \<Rightarrow> bool \<Rightarrow> wifi_interface \<Rightarrow> dummy_wifi_outcome action" where
  "take_over requested_ssid force iface =
     (if force then create_hotspot requested_ssid (Some (wi_name iface))
      else do {
        terminal \<leftarrow> is_terminal;
        if \<not> terminal then ret outcome_empty
        else do {
          confirmed \<leftarrow> prompt_default_no (take_over_question iface);
          if \<not> confirmed then ret outcome_empty
          else create_hotspot requested_ssid (Some (wi_name iface))
        }
      })"

definition setup_destructive :: "string option \<Rightarrow> bool \<Rightarrow> wifi_interface \<Rightarrow> dummy_wifi_outcome action" where
  "setup_destructive requested_ssid force iface = do {
     scanned \<leftarrow> scan_open_aps (wi_name iface);
     let aps = reusable_aps iface scanned;
     case Option.bind requested_ssid (\<lambda>req. List.find (\<lambda>a. ap_ssid a = req) aps) of
       Some ap \<Rightarrow> ret (as_it_is (ap_ssid ap))
     | None \<Rightarrow> do {
         chosen \<leftarrow> offer_open_ap aps;
         case chosen of
           Some ssid \<Rightarrow> ret (as_it_is ssid)
         | None \<Rightarrow> take_over requested_ssid force iface
       }
   }"

definition setup_dummy_wifi :: "string option \<Rightarrow> string option \<Rightarrow> bool \<Rightarrow> dummy_wifi_outcome action" where
  "setup_dummy_wifi requested_ssid requested_interface force =
     (case requested_interface of
        Some name \<Rightarrow> create_hotspot requested_ssid (Some name)
      | None \<Rightarrow> do {
          interfaces \<leftarrow> list_wifi_interfaces;
          case select_interface_for_hotspot interfaces of
            None \<Rightarrow> create_hotspot requested_ssid None
          | Some (iface, destructive) \<Rightarrow>
              if \<not> destructive then create_hotspot requested_ssid (Some (wi_name iface))
              else setup_destructive requested_ssid force iface
        })"

subsection \<open>Running the relay\<close>

text \<open>\<open>if let Some(ref h) = outcome.hotspot && let Err(e) = h.stop()\<close>, and the \<open>Drop\<close> of the outcome.\<close>

definition stop_hotspot :: "dummy_wifi_outcome \<Rightarrow> unit action" where
  "stop_hotspot outcome = (case dw_hotspot outcome of None \<Rightarrow> skip | Some h \<Rightarrow> ignoring (hotspot_stop h))"

definition dummy_wifi :: "bool \<Rightarrow> string option \<Rightarrow> string option \<Rightarrow> bool \<Rightarrow> dummy_wifi_outcome action" where
  "dummy_wifi enabled ssid interface force =
     (if enabled then setup_dummy_wifi ssid interface force else ret outcome_empty)"

text \<open>\<open>serve\<close> is what \<open>Relay::run\<close> and \<open>Relay::run_forward\<close> end with.\<close>

definition cmd_relay ::
    "(u16 \<Rightarrow> transport_mode \<Rightarrow> string option \<Rightarrow> unit io_result) \<Rightarrow> u16 \<Rightarrow> transport_mode \<Rightarrow> string option \<Rightarrow>
     bool \<Rightarrow> string option \<Rightarrow> string option \<Rightarrow> bool \<Rightarrow> unit cmd_result action" where
  "cmd_relay serve port transport serial enabled ssid interface force = do {
     outcome \<leftarrow> dummy_wifi enabled ssid interface force;
     let result = (case serve port transport (case transport of Reverse \<Rightarrow> None | Forward \<Rightarrow> serial) of
         Inl e \<Rightarrow> Inl (Io e) | Inr u \<Rightarrow> Inr u);
     stop_hotspot outcome;
     stop_hotspot outcome;
     ret result
   }"

text \<open>How the \<open>select!\<close> of \<open>cmd_run\<close> ended, and the relay thread by then: \<open>None\<close> if it still runs, else
  what \<open>join\<close> returns (\<open>None\<close>: it panicked).\<close>

record run_end =
  re_interrupted :: bool
  re_relay :: "unit cmd_result option option"

definition exit_code :: "unit cmd_result option option \<Rightarrow> int" where
  "exit_code relay =
     (case relay of
        None \<Rightarrow> 0
      | Some (Some (Inr _)) \<Rightarrow> 0
      | Some (Some (Inl _)) \<Rightarrow> 1
      | Some None \<Rightarrow> 1)"

text \<open>\<open>cmd_run\<close> exits the process: the result is the exit code and what the thread of \<open>async_start\<close> is
  started with. \<open>process::exit\<close> runs no \<open>Drop\<close>. \<open>Runtime::new\<close> is taken to succeed.\<close>

definition cmd_run ::
    "start_options \<Rightarrow> transport_preference \<Rightarrow> bool \<Rightarrow> string option \<Rightarrow> string option \<Rightarrow> bool \<Rightarrow> run_end \<Rightarrow>
     (start_options \<times> int) action" where
  "cmd_run opts transport_pref enabled ssid interface force ended = do {
     set_socks5_proxy (so_socks5 opts);
     transport \<leftarrow> transport_resolve transport_pref (so_serial opts);
     outcome \<leftarrow> dummy_wifi enabled ssid interface force;
     let start = opts\<lparr>so_transport := transport, so_dummy_wifi_ssid := dw_ssid_for_client outcome\<rparr>;
     (if re_interrupted ended then ignoring (cmd_stop (so_serial opts)) else skip);
     stop_hotspot outcome;
     ret (start, exit_code (re_relay ended))
   }"

text \<open>\<open>cmd_autostart\<close>: what each call of the monitor's callback starts.\<close>

definition autostart_options ::
    "string option \<Rightarrow> string option \<Rightarrow> u16 \<Rightarrow> u16 \<Rightarrow> string option \<Rightarrow> string option \<Rightarrow> string \<Rightarrow> start_options" where
  "autostart_options dns_servers routes port mtu socks5 dummy_wifi_ssid serial =
     \<lparr>so_serial = Some serial, so_dns_servers = dns_servers, so_routes = routes, so_port = port,
      so_proxy = None, so_proxy_exclusions = None, so_mtu = mtu, so_allow_apps = [], so_deny_apps = [],
      so_socks5 = socks5, so_transport = Reverse, so_dummy_wifi_ssid = dummy_wifi_ssid\<rparr>"

definition cmd_autostart ::
    "string option \<Rightarrow> string option \<Rightarrow> u16 \<Rightarrow> u16 \<Rightarrow> bool \<Rightarrow> string option \<Rightarrow> string option \<Rightarrow>
     (stream io_result \<times> bool) list \<Rightarrow> byte list option list \<Rightarrow> start_options list option" where
  "cmd_autostart dns_servers routes port mtu allow_wifi socks5 dummy_wifi_ssid connections listings = do {
     (_, m) \<leftarrow> monitor connections (set_usb_only (\<not> allow_wifi) (am_new listings));
     Some (map (autostart_options dns_servers routes port mtu socks5 dummy_wifi_ssid) (am_announced m))
   }"

text \<open>\<open>cmd_autorun\<close> exits with 0 unless the transport is refused; the result is the name given to
  \<open>cmd_autostart\<close>.\<close>

definition cmd_autorun ::
    "transport_preference \<Rightarrow> string option \<Rightarrow> bool \<Rightarrow> string option \<Rightarrow> bool \<Rightarrow> run_end \<Rightarrow> string option cmd_result action" where
  "cmd_autorun transport_pref socks5 enabled ssid force ended = do {
     transport \<leftarrow> transport_resolve transport_pref None;
     if transport = Forward then ret (Inl (Io OtherError))
     else do {
       set_socks5_proxy socks5;
       outcome \<leftarrow> dummy_wifi enabled ssid None force;
       (if re_interrupted ended then stop_all_connected_devices else skip);
       stop_hotspot outcome;
       ret (Inr (dw_ssid_for_client outcome))
     }
   }"

subsection \<open>Consent\<close>

text \<open>Commands that take the interface: anything on connections, and disconnecting a device.\<close>

fun takes_over :: "effect \<Rightarrow> bool" where
  "takes_over (Exec program args) \<longleftrightarrow> program = ''nmcli'' \<and>
     (take 1 args = [''connection''] \<or> take 2 args = [''device'', ''disconnect''])"
| "takes_over _ \<longleftrightarrow> False"

abbreviation harmless :: "effect \<Rightarrow> bool" where
  "harmless e \<equiv> \<not> takes_over e"

lemma does_prompts [does_intros]: "does harmless (prompt_default_yes q)" "does harmless (prompt_default_no q)"
  unfolding prompt_default_yes_def prompt_default_no_def by (intro does_intros; simp)+

lemma does_offer_open_ap [does_intros]: "does harmless (offer_open_ap aps)"
  unfolding offer_open_ap_def is_terminal_def by (intro does_intros) simp_all

lemma does_harmless_scan [does_intros]: "does harmless (scan_open_aps interface)"
  by (rule does_scan_open_aps) simp_all

lemma does_harmless_list [does_intros]: "does harmless list_wifi_interfaces"
  by (rule does_list_wifi_interfaces) simp

lemma does_create_hotspot: "does by_nmcli (create_hotspot ssid interface)"
  unfolding create_hotspot_def by (intro does_intros does_hotspot_start) simp_all

text \<open>The words that mean yes, and what it takes to get from \<open>h\<close> to a state in which the interface may be
  taken: nothing that takes an interface is run, then the question is asked on a terminal, and the line
  that is read is one of these words.\<close>

definition yes_words :: "string list" where
  "yes_words = [''y'', ''Y''] @
     [[a, b, c]. a \<leftarrow> [CHR ''y'', CHR ''Y''], b \<leftarrow> [CHR ''e'', CHR ''E''], c \<leftarrow> [CHR ''s'', CHR ''S'']]"

definition agreed :: "string \<Rightarrow> host \<Rightarrow> host \<Rightarrow> bool" where
  "agreed q h h2 \<longleftrightarrow> ev_terminal (hs_env h) \<and> hs_env h2 = hs_env h \<and>
     (\<exists>pre l. hs_trace h2 = hs_trace h @ pre @ [Asked (q @ '' [y/N] ''), ReadLine] \<and> list_all harmless pre \<and>
       ev_line (hs_env h) (hs_trace h @ pre @ [Asked (q @ '' [y/N] '')]) = Inr l \<and> trim l \<in> set yes_words)"

lemma lower_char_iff:
  assumes "97 \<le> (of_char d :: nat)" "(of_char d :: nat) \<le> 122" "(of_char d :: nat) = of_char u + 32"
  shows "(let n = of_char c :: nat in if 65 \<le> n \<and> n \<le> 90 then char_of (n + 32) else c) = d \<longleftrightarrow> c = d \<or> c = u"
proof -
  define n m k where "n = (of_char c :: nat)" and "m = (of_char d :: nat)" and "k = (of_char u :: nat)"
  have e: "c = d \<longleftrightarrow> n = m" "c = u \<longleftrightarrow> n = k" by (simp_all add: n_def m_def k_def)
  have a: "97 \<le> m" "m \<le> 122" "m = k + 32" using assms by (simp_all add: m_def k_def)
  show ?thesis
  proof (cases "65 \<le> n \<and> n \<le> 90")
    case True
    have "char_of (n + 32) = d \<longleftrightarrow> (of_char (char_of (n + 32) :: char) :: nat) = m"
      unfolding m_def by (rule of_char_eq_iff [symmetric])
    also have "\<dots> \<longleftrightarrow> n + 32 = m" using True by (simp add: of_char_of)
    finally have "char_of (n + 32) = d \<longleftrightarrow> n = k" using a(3) by simp
    moreover have "n \<noteq> m" using True a(1) by linarith
    ultimately show ?thesis using True unfolding e n_def [symmetric] Let_def by simp
  next
    case False
    then have "n \<noteq> k" using a by linarith
    then show ?thesis unfolding n_def [symmetric] Let_def if_not_P [OF False] e by simp
  qed
qed

lemma lower_letter:
  "(let n = of_char c :: nat in if 65 \<le> n \<and> n \<le> 90 then char_of (n + 32) else c) = CHR ''y'' \<longleftrightarrow>
    c = CHR ''y'' \<or> c = CHR ''Y''"
  "(let n = of_char c :: nat in if 65 \<le> n \<and> n \<le> 90 then char_of (n + 32) else c) = CHR ''e'' \<longleftrightarrow>
    c = CHR ''e'' \<or> c = CHR ''E''"
  "(let n = of_char c :: nat in if 65 \<le> n \<and> n \<le> 90 then char_of (n + 32) else c) = CHR ''s'' \<longleftrightarrow>
    c = CHR ''s'' \<or> c = CHR ''S''"
  by (rule lower_char_iff; simp)+

lemma map_eq_short:
  "map f s = [y] \<longleftrightarrow> (\<exists>c. s = [c] \<and> f c = y)"
  "map f s = [x, y, z] \<longleftrightarrow> (\<exists>a b c. s = [a, b, c] \<and> f a = x \<and> f b = y \<and> f c = z)"
  by (auto simp: map_eq_Cons_conv)

lemma lower_word_iff:
  "to_ascii_lowercase s = ''y'' \<longleftrightarrow> (\<exists>c. s = [c] \<and> (c = CHR ''y'' \<or> c = CHR ''Y''))"
  "to_ascii_lowercase s = ''yes'' \<longleftrightarrow> (\<exists>a b c. s = [a, b, c] \<and> (a = CHR ''y'' \<or> a = CHR ''Y'') \<and>
     (b = CHR ''e'' \<or> b = CHR ''E'') \<and> (c = CHR ''s'' \<or> c = CHR ''S''))"
  unfolding to_ascii_lowercase_def map_eq_short lower_letter by (rule refl)+

lemma yes_words_iff:
  "s \<in> set yes_words \<longleftrightarrow> to_ascii_lowercase s = ''y'' \<or> to_ascii_lowercase s = ''yes''"
  unfolding lower_word_iff yes_words_def by auto

lemma says_yes_iff: "says_yes line \<longleftrightarrow> (\<exists>l. line = Inr l \<and> trim l \<in> set yes_words)"
  by (cases line) (simp_all add: says_yes_def Let_def yes_words_iff)


lemma run_prompt_default_no:
  "run_state (prompt_default_no q) h =
     (says_yes (ev_line (hs_env h) (hs_trace h @ [Asked (q @ '' [y/N] '')])),
      h\<lparr>hs_trace := hs_trace h @ [Asked (q @ '' [y/N] ''), ReadLine]\<rparr>)"
  by (simp add: prompt_default_no_def primitive_defs run_simps)

text \<open>Without a yes nothing is taken; with one, the access point is made on the interface of the question.\<close>

lemma take_over_agreed:
  assumes "run_state (take_over requested_ssid False iface) h = (outcome, h')"
  shows "(\<exists>t. hs_trace h' = hs_trace h @ t \<and> list_all harmless t) \<or>
    (\<exists>h2. agreed (take_over_question iface) h h2 \<and>
      run_state (create_hotspot requested_ssid (Some (wi_name iface))) h2 = (outcome, h'))"
proof -
  let ?q = "take_over_question iface"
  let ?line = "ev_line (hs_env h) (hs_trace h @ [Asked (?q @ '' [y/N] '')])"
  let ?h = "h\<lparr>hs_trace := hs_trace h @ [Asked (?q @ '' [y/N] ''), ReadLine]\<rparr>"
  have r: "run_state (take_over requested_ssid False iface) h =
      (if \<not> ev_terminal (hs_env h) then (outcome_empty, h)
       else if \<not> says_yes ?line then (outcome_empty, ?h)
       else run_state (create_hotspot requested_ssid (Some (wi_name iface))) ?h)"
    by (simp add: take_over_def is_terminal_def run_simps run_prompt_default_no)
  show ?thesis
  proof (cases "ev_terminal (hs_env h) \<and> says_yes ?line")
    case True
    then obtain l where "?line = Inr l" "trim l \<in> set yes_words" using says_yes_iff by blast
    then have "agreed ?q h ?h"
      using True unfolding agreed_def by (intro conjI exI [of _ "[]"] exI [of _ l]) simp_all
    then show ?thesis using assms True r by auto
  next
    case False
    then have "h' = h \<or> h' = ?h" using assms r by (auto split: if_splits)
    then show ?thesis by (intro disjI1) auto
  qed
qed

lemma agreed_after:
  assumes "agreed q h1 h2" "hs_env h1 = hs_env h" "hs_trace h1 = hs_trace h @ t0" "list_all harmless t0"
  shows "agreed q h h2"
proof -
  obtain pre l where "hs_trace h2 = hs_trace h1 @ pre @ [Asked (q @ '' [y/N] ''), ReadLine]" "list_all harmless pre"
    "ev_line (hs_env h) ((hs_trace h @ t0) @ pre @ [Asked (q @ '' [y/N] '')]) = Inr l" "trim l \<in> set yes_words"
    using assms by (auto simp: agreed_def)
  then show ?thesis
    using assms unfolding agreed_def by (intro conjI exI [of _ "t0 @ pre"] exI [of _ l]) simp_all
qed

lemma setup_destructive_agreed:
  assumes "run_state (setup_destructive requested_ssid False iface) h = (outcome, h')"
  shows "(\<exists>t. hs_trace h' = hs_trace h @ t \<and> list_all harmless t) \<or>
    (\<exists>h2. agreed (take_over_question iface) h h2 \<and>
      run_state (create_hotspot requested_ssid (Some (wi_name iface))) h2 = (outcome, h'))"
proof -
  obtain scanned h1 where h1: "run_state (scan_open_aps (wi_name iface)) h = (scanned, h1)" by force
  obtain t1 where t1: "hs_env h1 = hs_env h" "hs_trace h1 = hs_trace h @ t1" "list_all harmless t1"
    by (rule doesD [OF does_harmless_scan h1])
  let ?aps = "reusable_aps iface scanned"
  obtain chosen h2 where h2: "run_state (offer_open_ap ?aps) h1 = (chosen, h2)" by force
  obtain t2 where t2: "hs_env h2 = hs_env h1" "hs_trace h2 = hs_trace h1 @ t2" "list_all harmless t2"
    by (rule doesD [OF does_offer_open_ap h2])
  have t12: "hs_env h2 = hs_env h" "hs_trace h2 = hs_trace h @ (t1 @ t2)" "list_all harmless (t1 @ t2)"
    using t1 t2 by simp_all
  consider "h' = h1" | "h' = h2" | "run_state (take_over requested_ssid False iface) h2 = (outcome, h')"
    using assms h1 h2 by (auto simp: setup_destructive_def Let_def split: option.splits)
  then show ?thesis
  proof cases
    case 3
    from take_over_agreed [OF this] show ?thesis
    proof
      assume "\<exists>t. hs_trace h' = hs_trace h2 @ t \<and> list_all harmless t"
      then obtain t where "hs_trace h' = hs_trace h2 @ t" "list_all harmless t" by blast
      then show ?thesis using t12(2,3) by (intro disjI1 exI [of _ "(t1 @ t2) @ t"]) simp
    next
      assume "\<exists>h3. agreed (take_over_question iface) h2 h3 \<and>
        run_state (create_hotspot requested_ssid (Some (wi_name iface))) h3 = (outcome, h')"
      then show ?thesis using agreed_after [OF _ t12] by blast
    qed
  qed (use t1 t2 in auto)
qed

text \<open>A name that is handed to the client without a hotspot is the one of an open access point in range,
  which is neither the interface's own network nor a relay's.\<close>

lemma offer_open_ap_among:
  assumes "run_state (offer_open_ap aps) h = (Some ssid, h')"
  shows "ssid \<in> ap_ssid ` set aps"
proof (cases aps)
  case Nil
  then show ?thesis using assms by (simp add: offer_open_ap_def)
next
  case (Cons ap others)
  have "\<exists>ap \<in> set aps. ssid = ap_ssid ap"
    using assms Cons
    by (auto simp: offer_open_ap_def is_terminal_def prompt_default_yes_def primitive_defs run_simps Let_def
        nth_Cons' split: if_splits sum.splits)
  then show ?thesis by auto
qed

text \<open>The choice of the interface, and what it takes to use one that is connected.\<close>

lemma setup_dummy_wifi_agreed:
  assumes run: "run_state (setup_dummy_wifi requested_ssid None False) h = (outcome, h')"
    and l: "run_state list_wifi_interfaces h = (interfaces, h1)" "interfaces \<noteq> []"
  shows "(\<exists>i \<in> set interfaces. is_free i \<and>
        run_state (create_hotspot requested_ssid (Some (wi_name i))) h1 = (outcome, h')) \<or>
    (\<forall>i \<in> set interfaces. \<not> is_free i) \<and>
      ((\<exists>t. hs_trace h' = hs_trace h @ t \<and> list_all harmless t) \<or>
       (\<exists>h2. agreed (take_over_question (hd interfaces)) h h2 \<and>
         run_state (create_hotspot requested_ssid (Some (wi_name (hd interfaces)))) h2 = (outcome, h')))"
proof -
  obtain iface destructive where s: "select_interface_for_hotspot interfaces = Some (iface, destructive)"
    using l(2) select_none_iff [of interfaces] by (cases "select_interface_for_hotspot interfaces") auto
  note c = select_free [OF s]
  obtain t1 where t1: "hs_env h1 = hs_env h" "hs_trace h1 = hs_trace h @ t1" "list_all harmless t1"
    by (rule doesD [OF does_harmless_list l(1)])
  show ?thesis
  proof (cases destructive)
    case False
    then have "run_state (create_hotspot requested_ssid (Some (wi_name iface))) h1 = (outcome, h')"
      using run l s by (simp add: setup_dummy_wifi_def)
    then show ?thesis using c False by blast
  next
    case True
    then have "run_state (setup_destructive requested_ssid False (hd interfaces)) h1 = (outcome, h')"
      using run l s c by (simp add: setup_dummy_wifi_def)
    from setup_destructive_agreed [OF this] have "(\<exists>t. hs_trace h' = hs_trace h @ t \<and> list_all harmless t) \<or>
       (\<exists>h2. agreed (take_over_question (hd interfaces)) h h2 \<and>
         run_state (create_hotspot requested_ssid (Some (wi_name (hd interfaces)))) h2 = (outcome, h'))"
    proof
      assume "\<exists>t. hs_trace h' = hs_trace h1 @ t \<and> list_all harmless t"
      then show ?thesis using t1(2,3) by auto
    next
      assume "\<exists>h2. agreed (take_over_question (hd interfaces)) h1 h2 \<and>
         run_state (create_hotspot requested_ssid (Some (wi_name (hd interfaces)))) h2 = (outcome, h')"
      then show ?thesis using agreed_after [OF _ t1] by blast
    qed
    then show ?thesis using c True by blast
  qed
qed

lemma is_free_iff:
  "is_free i \<longleftrightarrow> \<not> wi_connected i \<or> (\<exists>rest. wi_current_ssid i = Some (''gnirehtet-'' @ rest))"
  by (auto simp: is_free_def starts_with_iff split: option.split)

end
