(* ===== verification/Cli.thy ===== *)
theory Cli
  imports Dummy_Wifi
begin

text \<open>
  \<open>cli.rs\<close>: the commands of the program and what each calls. The parser is the package \<open>clap\<close> and an
  argument. A command of the relay does not return while it works: what its threads meet is gathered in
  \<open>outside\<close>.
\<close>

text \<open>The fields in the order of the source: serial, DNS servers, routes, port, proxy, proxy exclusions,
  stop on disconnect, MTU, allowed and denied applications, SOCKS5 proxy, transport, and the dummy Wi-Fi
  with its SSID, interface and force; each command has some of them.\<close>

datatype commands =
    Install "string option"
  | Uninstall "string option"
  | Reinstall "string option"
  | Run "string option" "string option" "string option" u16 "string option" "string option" bool u16
      "string list" "string list" "string option" transport_preference bool "string option" "string option" bool
  | Autorun "string option" "string option" u16 bool u16 bool "string option" bool "string option" bool
  | Start "string option" "string option" "string option" u16 "string option" "string option" u16
      "string list" "string list" "string option" transport_preference "string option"
  | Autostart "string option" "string option" u16 u16 bool "string option"
  | Stop "string option"
  | Restart "string option" "string option" "string option" u16 transport_preference
  | Tunnel "string option" u16 transport_preference
  | Relay u16 transport_preference bool "string option" "string option" bool

record outside =
  ou_serve :: "u16 \<Rightarrow> transport_mode \<Rightarrow> string option \<Rightarrow> unit io_result"
  ou_ended :: run_end
  ou_connections :: "(stream io_result \<times> bool) list"
  ou_listings :: "byte list option list"

text \<open>What becomes of a command: it returns, the process exits (with the clients that threads were
  started for), or it monitors.\<close>

datatype executed =
    Returned "unit cmd_result"
  | Exited_process "start_options list" int
  | Monitors "start_options list option"

definition returned :: "unit cmd_result action \<Rightarrow> executed action" where
  "returned m = do { r \<leftarrow> m; ret (Returned r) }"

definition autostarts :: "outside \<Rightarrow> string option \<Rightarrow> string option \<Rightarrow> u16 \<Rightarrow> u16 \<Rightarrow> bool \<Rightarrow> string option \<Rightarrow>
    string option \<Rightarrow> start_options list option" where
  "autostarts w dns routes port mtu allow_wifi socks5 ssid =
     cmd_autostart dns routes port mtu allow_wifi socks5 ssid (ou_connections w) (ou_listings w)"

fun execute :: "outside \<Rightarrow> commands \<Rightarrow> executed action" where
  "execute w (Install serial) = returned (cmd_install serial)"
| "execute w (Uninstall serial) = returned (cmd_uninstall serial)"
| "execute w (Reinstall serial) = returned (cmd_reinstall serial)"
| "execute w (Run serial dns routes port proxy proxy_exclusions stop_on_disconnect mtu allow_app deny_app socks5
      transport with_wifi dummy_wifi_ssid dummy_wifi_interface dummy_wifi_force) = do {
     (start, code) \<leftarrow> cmd_run \<lparr>so_serial = serial, so_dns_servers = dns, so_routes = routes, so_port = port,
       so_proxy = proxy, so_proxy_exclusions = proxy_exclusions, so_mtu = mtu, so_allow_apps = allow_app,
       so_deny_apps = deny_app, so_socks5 = socks5, so_transport = Reverse, so_dummy_wifi_ssid = None\<rparr>
       transport with_wifi dummy_wifi_ssid dummy_wifi_interface dummy_wifi_force (ou_ended w);
     ret (Exited_process [start] code)
   }"
| "execute w (Autorun dns routes port stop_on_disconnect mtu allow_wifi socks5 with_wifi dummy_wifi_ssid
      dummy_wifi_force) = do {
     r \<leftarrow> cmd_autorun PreferAuto socks5 with_wifi dummy_wifi_ssid dummy_wifi_force (ou_ended w);
     ret (case r of
         Inl e \<Rightarrow> Returned (Inl e)
       | Inr ssid \<Rightarrow> Exited_process
           (case autostarts w dns routes port mtu allow_wifi socks5 ssid of Some ss \<Rightarrow> ss | None \<Rightarrow> []) 0)
   }"
| "execute w (Start serial dns routes port proxy proxy_exclusions mtu allow_app deny_app socks5 transport
      dummy_wifi_ssid) = do {
     mode \<leftarrow> transport_resolve transport serial;
     returned (cmd_start \<lparr>so_serial = serial, so_dns_servers = dns, so_routes = routes, so_port = port,
       so_proxy = proxy, so_proxy_exclusions = proxy_exclusions, so_mtu = mtu, so_allow_apps = allow_app,
       so_deny_apps = deny_app, so_socks5 = socks5, so_transport = mode, so_dummy_wifi_ssid = dummy_wifi_ssid\<rparr>)
   }"
| "execute w (Autostart dns routes port mtu allow_wifi socks5) =
     ret (Monitors (autostarts w dns routes port mtu allow_wifi socks5 None))"
| "execute w (Stop serial) = returned (cmd_stop serial)"
| "execute w (Restart serial dns routes port transport) = returned (cmd_restart serial dns routes port transport)"
| "execute w (Tunnel serial port transport) = do {
     mode \<leftarrow> transport_resolve transport serial;
     returned (cmd_tunnel serial port mode)
   }"
| "execute w (Relay port transport with_wifi dummy_wifi_ssid dummy_wifi_interface dummy_wifi_force) = do {
     mode \<leftarrow> transport_resolve transport None;
     returned (cmd_relay (ou_serve w) port mode None with_wifi dummy_wifi_ssid dummy_wifi_interface dummy_wifi_force)
   }"

subsection \<open>\<open>run\<close>\<close>

text \<open>The prompt without arguments: the lines that are read, and what it ends with (\<open>None\<close>: it is still
  asking).\<close>

datatype prompt_end = Gives_up | Exits_prompt | Recommended

fun interactive_prompt :: "string io_result list \<Rightarrow> prompt_end option" where
  "interactive_prompt [] = None"
| "interactive_prompt (input # inputs) =
     (case input of
        Inl _ \<Rightarrow> Some Gives_up
      | Inr l \<Rightarrow>
          (let choice = trim l in
           if choice = ''1'' then Some Exits_prompt
           else if choice = ''2'' then interactive_prompt inputs
           else if choice = [] \<or> choice = ''3'' then Some Recommended
           else interactive_prompt inputs))"

text \<open>The recommended settings.\<close>

definition recommended :: "commands action" where
  "recommended = do {
     dns \<leftarrow> detect_system_dns;
     mtu \<leftarrow> detect_mtu;
     ret (Autorun (Some (join '','' dns)) None 31416 False (of_nat mtu) False None False None False)
   }"

text \<open>The exit code, if the process exits; \<open>parse\<close> is \<open>Cli::parse\<close>, which may exit itself.\<close>

definition code_of :: "int \<Rightarrow> executed \<Rightarrow> int option" where
  "code_of failure e =
     (case e of
        Returned (Inl _) \<Rightarrow> Some failure
      | Returned (Inr _) \<Rightarrow> None
      | Exited_process _ code \<Rightarrow> Some code
      | Monitors _ \<Rightarrow> None)"

definition cli_run ::
    "(string list \<Rightarrow> int + commands) \<Rightarrow> outside \<Rightarrow> string io_result list \<Rightarrow> string list \<Rightarrow> int option action" where
  "cli_run parse w inputs raw =
     (if 1 < length raw \<and> raw ! 1 = ''rt'' then ret (Some 1)
      else if length raw \<le> 1 then
        (case interactive_prompt inputs of
           Some Exits_prompt \<Rightarrow> ret (Some 0)
         | Some Recommended \<Rightarrow> do {
             command \<leftarrow> recommended;
             e \<leftarrow> execute w command;
             ret (case e of Returned (Inr _) \<Rightarrow> Some 0 | _ \<Rightarrow> code_of 1 e)
           }
         | _ \<Rightarrow> ret None)
      else (case parse raw of
          Inl code \<Rightarrow> ret (Some code)
        | Inr command \<Rightarrow> do { e \<leftarrow> execute w command; ret (code_of 3 e) }))"

text \<open>\<open>get_log_file\<close> looks at the arguments after the program, up to the subcommand.\<close>

fun log_file_of :: "string list \<Rightarrow> string option" where
  "log_file_of [] = None"
| "log_file_of (arg # args) =
     (if arg = ''--log-file'' \<and> args \<noteq> [] then Some (hd args)
      else if starts_with arg ''--log-file='' then Some (drop (length ''--log-file='') arg)
      else if \<not> starts_with arg ''-'' then None
      else log_file_of args)"

definition get_log_file :: "string list \<Rightarrow> string option" where
  "get_log_file raw = log_file_of (drop 1 raw)"

subsection \<open>Properties\<close>

text \<open>The option that the parser accepts everywhere (\<open>global = true\<close>) is not seen after the subcommand.\<close>

lemma log_file_after_subcommand:
  assumes "\<not> starts_with subcommand ''-''"
  shows "get_log_file (program # subcommand # args) = None"
proof -
  have "subcommand \<noteq> ''--log-file''" "\<not> starts_with subcommand ''--log-file=''"
    using assms by (auto simp: starts_with_iff)
  then show ?thesis using assms by (simp add: get_log_file_def)
qed

lemma log_file_before_subcommand:
  "get_log_file (program # ''--log-file'' # file # args) = Some file"
  "get_log_file (program # (''--log-file='' @ file) # args) = Some file"
proof -
  show "get_log_file (program # ''--log-file'' # file # args) = Some file"
    by (simp add: get_log_file_def)
  have "\<not> (''--log-file='' @ file = ''--log-file'')" by simp
  then show "get_log_file (program # (''--log-file='' @ file) # args) = Some file"
    by (simp add: get_log_file_def starts_with_append [of "''--log-file=''", simplified])
qed

text \<open>The recommended settings always have an MTU that IPv6 allows.\<close>

lemma mtu_of_words_bounds: "mtu_of_words ws = Some m \<Longrightarrow> 1280 \<le> m"
  by (induction ws) (auto simp: mtu_of_word_def split: option.splits)

lemma detect_mtu_bounds: "1280 \<le> fst (run_state detect_mtu h)"
  by (auto simp: detect_mtu_def exec_def run_simps dest: mtu_of_words_bounds split: sum.split option.split)

text \<open>The monitored devices are always started with the reverse transport.\<close>

lemma autostart_is_reverse:
  "autostarts w dns routes port mtu allow_wifi socks5 ssid = Some ss \<Longrightarrow> \<forall>s \<in> set ss. so_transport s = Reverse"
  by (auto simp: autostarts_def cmd_autostart_def autostart_options_def split: Option.bind_splits)

end
