(* ===== verification/Host_Examples.thy ===== *)
theory Host_Examples
  imports Cli
begin

text \<open>A host for the witnesses: one Wi-Fi interface that is connected, a terminal, every command succeeds.\<close>

definition demo_output :: "string \<Rightarrow> process_output" where
  "demo_output s = \<lparr>out_status = Exited 0, out_stdout = bytes_of_string s, out_stderr = []\<rparr>"

definition demo_listing :: "string list" where
  "demo_listing = [''-t'', ''-f'', ''DEVICE,TYPE,STATE,CONNECTION'', ''device'', ''status'']"

definition demo_environment :: "string \<Rightarrow> environment" where
  "demo_environment answer = \<lparr>
     ev_run = (\<lambda>_ program args. Inr (demo_output
       (if args = demo_listing then ''wlan0:wifi:connected:Home'' else []))),
     ev_line = (\<lambda>_. Inr answer), ev_terminal = True, ev_var = (\<lambda>_. None),
     ev_read_file = (\<lambda>_. Inl NotFound), ev_exists = (\<lambda>_ _. True), ev_file_op = (\<lambda>_ _. Inr ()),
     ev_current_exe = Inl NotFound, ev_temp_dir = ''/tmp'', ev_random = (\<lambda>_. 7), ev_now = (\<lambda>_. 0),
     ev_pid = 42, ev_parse_socket_addr = (\<lambda>_. None)\<rparr>"

definition demo_host :: "string \<Rightarrow> host" where
  "demo_host answer = \<lparr>hs_env = demo_environment answer, hs_trace = [], hs_adb_path = Some ''adb'',
     hs_registry = [], hs_socks5_proxy = None\<rparr>"

definition demo_wlan0 :: wifi_interface where
  "demo_wlan0 = \<lparr>wi_name = ''wlan0'', wi_connected = True, wi_current_ssid = Some ''Home''\<rparr>"

lemma demo_interfaces: "fst (run_state list_wifi_interfaces (demo_host answer)) = [demo_wlan0]"
proof -
  have "from_utf8_lossy (bytes_of_string ''wlan0:wifi:connected:Home'') = ''wlan0:wifi:connected:Home''"
    by (rule from_utf8_lossy_valid [OF from_utf8_ascii]) simp
  moreover have "lines ''wlan0:wifi:connected:Home'' = [''wlan0:wifi:connected:Home'']" by code_simp
  moreover have "parse_nmcli_device_line ''wlan0:wifi:connected:Home'' = Some demo_wlan0"
    unfolding demo_wlan0_def by code_simp
  ultimately show ?thesis
    by (simp add: list_wifi_interfaces_def exec_def run_simps demo_host_def demo_environment_def
        demo_listing_def demo_output_def stdout_text_def List.map_filter_simps)
qed

lemma demo_not_free: "\<not> is_free demo_wlan0"
  by (simp add: is_free_def demo_wlan0_def)

lemma demo_utf8 [simp]: "from_utf8_lossy [] = []" "lines [] = []"
  by (simp_all add: from_utf8_lossy_def lines_def)

lemma demo_listed: "run_state list_wifi_interfaces (demo_host answer) =
    ([demo_wlan0], (demo_host answer)\<lparr>hs_trace := [Exec ''nmcli'' demo_listing]\<rparr>)"
proof -
  have "snd (run_state list_wifi_interfaces (demo_host answer)) = (demo_host answer)\<lparr>hs_trace := [Exec ''nmcli'' demo_listing]\<rparr>"
    by (simp add: list_wifi_interfaces_def exec_def run_simps demo_host_def demo_listing_def)
  then show ?thesis using demo_interfaces by (metis prod.collapse)
qed

text \<open>When the user agrees, the interface is taken.\<close>

lemma demo_takes_over: "\<not> list_all harmless (hs_trace (snd (run_state (setup_dummy_wifi (Some ''net'') None False) (demo_host ''Yes''))))"
proof -
  have y: "says_yes (Inr ''Yes'')" by code_simp
  have o: "run_state (exec p a) h = (ev_run (hs_env h) (hs_trace h) p a, h\<lparr>hs_trace := hs_trace h @ [Exec p a]\<rparr>)" for p a h
    by (simp add: exec_def run_simps)
  have run: "ev_run (demo_environment a) t p args = Inr (demo_output (if args = demo_listing then ''wlan0:wifi:connected:Home'' else []))" for a t p args
    by (simp add: demo_environment_def)
  have env: "hs_env (demo_host a) = demo_environment a" "hs_trace (demo_host a) = []" for a by (simp_all add: demo_host_def)
  have line: "ev_line (demo_environment a) t = Inr a" for a t by (simp add: demo_environment_def)
  have tty: "ev_terminal (demo_environment a)" for a by (simp add: demo_environment_def)
  have sel: "select_interface_for_hotspot [demo_wlan0] = Some (demo_wlan0, True)"
    using demo_not_free by (simp add: select_interface_for_hotspot_def)
  show ?thesis
    by (simp add: setup_dummy_wifi_def run_simps demo_listed sel setup_destructive_def scan_open_aps_def o primitive_defs
      run demo_output_def stdout_text_def demo_listing_def env bytes_of_string_def Let_def reusable_aps_def offer_open_ap_def List.map_filter_simps
      take_over_def is_terminal_def prompt_default_no_def y line tty
      create_hotspot_def hotspot_start_def hotspot_interface_def cleanup_stale_profiles_def nmcli_def hotspot_profile_def split: prod.split)
qed

end
