(* ===== verification/Other_Platforms.thy ===== *)
theory Other_Platforms
  imports Commands Hotspot
begin

text \<open>
  What the builds for Windows and macOS have in the place of the Linux parts: the modules \<open>platform\<close> of
  \<open>hotspot.rs\<close>, the lists of \<open>wifi.rs\<close> and the branches of \<open>detect_system_dns\<close> in \<open>commands.rs\<close>. Nothing of
  the Linux build uses them.
\<close>

subsection \<open>Windows: the hotspot\<close>

datatype hotspot_kind = Netsh | WinRt

record win_hotspot =
  wh_ssid :: string
  wh_kind :: hotspot_kind

definition win_get_hostname :: "string action" where
  "win_get_hostname = look (\<lambda>h.
     case ev_var (hs_env h) ''COMPUTERNAME'' of
       Some (Some s) \<Rightarrow> if s \<noteq> [] then s else ''host''
     | _ \<Rightarrow> ''host'')"

text \<open>Both scripts are three lines and differ in the method called.\<close>

definition winrt_script :: "string \<Rightarrow> string" where
  "winrt_script method = [CHR 0x0A] @
     ''$profile = [Windows.Networking.Connectivity.NetworkInformation,Windows.Networking.Connectivity,ContentType=WindowsRuntime]::GetConnectionProfiles() | Select-Object -First 1'' @ [CHR 0x0A] @
     ''$tether = [Windows.Networking.NetworkOperators.NetworkOperatorTetheringManager,Windows.Networking.NetworkOperators,ContentType=WindowsRuntime]::CreateFromConnectionProfile($profile)'' @ [CHR 0x0A] @
     ''$tether.'' @ method @ ''()'' @ [CHR 0x0A]"

definition WINRT_START_SCRIPT :: string where
  "WINRT_START_SCRIPT = winrt_script ''StartTetheringAsync''"

definition WINRT_STOP_SCRIPT :: string where
  "WINRT_STOP_SCRIPT = winrt_script ''StopTetheringAsync''"

text \<open>\<open>Ok(o) if o.status.success()\<close>.\<close>

definition ran_ok :: "process_output io_result \<Rightarrow> bool" where
  "ran_ok r = (case r of Inr out \<Rightarrow> success (out_status out) | Inl _ \<Rightarrow> False)"

definition try_netsh_start :: "string \<Rightarrow> string \<Rightarrow> bool io_result action" where
  "try_netsh_start ssid key = do {
     set \<leftarrow> exec ''netsh'' [''wlan'', ''set'', ''hostednetwork'', ''mode=allow'', ''ssid='' @ ssid, ''key='' @ key];
     if \<not> ran_ok set then ret (Inr False)
     else do {
       start \<leftarrow> exec ''netsh'' [''wlan'', ''start'', ''hostednetwork''];
       ret (Inr (ran_ok start))
     }
   }"

definition try_winrt_start :: "bool io_result action" where
  "try_winrt_start = do {
     r \<leftarrow> exec ''powershell'' [''-ExecutionPolicy'', ''Bypass'', ''-Command'', WINRT_START_SCRIPT];
     ret (Inr (ran_ok r))
   }"

definition win_ssid :: "hotspot_config \<Rightarrow> string action" where
  "win_ssid config = (case hc_ssid config of
       Some s \<Rightarrow> ret s
     | None \<Rightarrow> do { hostname \<leftarrow> win_get_hostname; ret (SSID_PREFIX @ fnv1a_5hex hostname) })"

definition win_key :: "hotspot_config \<Rightarrow> string" where
  "win_key config = (case hc_password config of Some p \<Rightarrow> p | None \<Rightarrow> ''gnirehtet123'')"

definition win_hotspot_start :: "hotspot_config \<Rightarrow> win_hotspot io_result action" where
  "win_hotspot_start config = do {
     ssid \<leftarrow> win_ssid config;
     ok_then (try_netsh_start ssid (win_key config)) (\<lambda>started.
       if started then ret (Inr \<lparr>wh_ssid = ssid, wh_kind = Netsh\<rparr>)
       else ok_then try_winrt_start (\<lambda>started.
         if started then ret (Inr \<lparr>wh_ssid = ssid, wh_kind = WinRt\<rparr>)
         else ret (Inl OtherError)))
   }"

definition win_hotspot_stop :: "win_hotspot \<Rightarrow> unit io_result action" where
  "win_hotspot_stop hp = do {
     (case wh_kind hp of
        Netsh \<Rightarrow> do {
          ignoring (exec ''netsh'' [''wlan'', ''stop'', ''hostednetwork'']);
          ignoring (exec ''netsh'' [''wlan'', ''set'', ''hostednetwork'', ''mode=disallow''])
        }
      | WinRt \<Rightarrow> ignoring (exec ''powershell'' [''-ExecutionPolicy'', ''Bypass'', ''-Command'', WINRT_STOP_SCRIPT]));
     ret (Inr ())
   }"

subsection \<open>macOS: no hotspot\<close>

definition mac_hotspot_start :: "hotspot_config \<Rightarrow> unit io_result" where
  "mac_hotspot_start _ = Inl Unsupported"

definition mac_hotspot_ssid :: "unit \<Rightarrow> string" where
  "mac_hotspot_ssid _ = []"

definition mac_hotspot_stop :: "unit \<Rightarrow> unit io_result" where
  "mac_hotspot_stop _ = Inr ()"

subsection \<open>Both: no list of interfaces or access points\<close>

definition other_list_wifi_interfaces :: "wifi_interface list" where
  "other_list_wifi_interfaces = []"

definition other_scan_open_aps :: "string \<Rightarrow> open_ap list" where
  "other_scan_open_aps _ = []"

subsection \<open>The name servers\<close>

definition or_default_dns :: "string list \<Rightarrow> string list" where
  "or_default_dns servers = (if servers \<noteq> [] then servers else [''8.8.8.8''])"

text \<open>macOS: \<open>scutil\<close> prints \<open>nameserver[0] : 192.168.1.1\<close>. Neither build looks at the exit status.\<close>

definition mac_nameserver_of_line :: "string \<Rightarrow> string option" where
  "mac_nameserver_of_line line =
     (case strip_prefix (trim line) ''nameserver['' of
        None \<Rightarrow> None
      | Some s \<Rightarrow>
          (let parts = split_on (CHR '']'') [] s in
           if length parts < 2 then None
           else (let s' = trim (parts ! 1) in
             if s' \<noteq> [] \<and> s' \<noteq> ''127.0.0.1'' \<and> s' \<noteq> ''::1'' then Some s' else None)))"

definition mac_detect_system_dns :: "string list action" where
  "mac_detect_system_dns = do {
     r \<leftarrow> exec ''scutil'' [''--dns''];
     ret (case r of
         Inl _ \<Rightarrow> [''8.8.8.8'']
       | Inr out \<Rightarrow> or_default_dns (List.map_filter mac_nameserver_of_line (lines (from_utf8_lossy (out_stdout out)))))
   }"

definition win_detect_system_dns :: "string list action" where
  "win_detect_system_dns = do {
     r \<leftarrow> exec ''powershell'' [''-Command'', ''(Get-DnsClientServerAddress).ServerAddresses''];
     ret (case r of
         Inl _ \<Rightarrow> [''8.8.8.8'']
       | Inr out \<Rightarrow> or_default_dns (filter (\<lambda>s. s \<noteq> [] \<and> s \<noteq> ''127.0.0.1'' \<and> s \<noteq> ''::1'' \<and> s \<noteq> ''0.0.0.0'')
           (split_whitespace (from_utf8_lossy (out_stdout out)))))
   }"

subsection \<open>Properties\<close>

lemmas win_start_defs = win_hotspot_start_def win_ssid_def win_get_hostname_def try_netsh_start_def
  try_winrt_start_def exec_def

text \<open>A hotspot that \<open>netsh\<close> starts needs no more than its two commands, with the name and the key of the
  configuration.\<close>

lemma win_netsh_hotspot:
  assumes "run_state (win_hotspot_start config) h = (Inr hp, h')" "wh_kind hp = Netsh"
  shows "hs_trace h' = hs_trace h @
    [Exec ''netsh'' [''wlan'', ''set'', ''hostednetwork'', ''mode=allow'', ''ssid='' @ wh_ssid hp, ''key='' @ win_key config],
     Exec ''netsh'' [''wlan'', ''start'', ''hostednetwork'']]"
  using assms by (auto simp: win_start_defs run_simps split: if_splits option.splits)

text \<open>The Mobile Hotspot is the last thing tried, and no command names \<open>wh_ssid\<close> to it: the name that the
  device is told is not the one it has.\<close>

lemma win_winrt_hotspot:
  assumes "run_state (win_hotspot_start config) h = (Inr hp, h')" "wh_kind hp = WinRt"
  obtains t where "hs_trace h' = hs_trace h @ t @
    [Exec ''powershell'' [''-ExecutionPolicy'', ''Bypass'', ''-Command'', WINRT_START_SCRIPT]]"
    "\<forall>e \<in> set t. \<exists>args. e = Exec ''netsh'' args"
  using assms by (auto simp: win_start_defs run_simps split: if_splits option.splits)

text \<open>The name is the configured one, or the host's, and is never checked against those in range.\<close>

lemma win_hotspot_name:
  assumes "run_state (win_hotspot_start config) h = (Inr hp, h')"
  shows "wh_ssid hp = (case hc_ssid config of Some s \<Rightarrow> s
    | None \<Rightarrow> SSID_PREFIX @ fnv1a_5hex (fst (run_state win_get_hostname h)))"
    and "hc_ssid config = None \<Longrightarrow> own_ssid (wh_ssid hp)"
  using assms by (auto simp: win_start_defs run_simps fnv1a_5hex_def own_ssid_masked split: if_splits option.splits)

text \<open>What is stopped is what was started.\<close>

lemma win_hotspot_stop_trace:
  "hs_trace (snd (run_state (win_hotspot_stop hp) h)) = hs_trace h @
     (case wh_kind hp of
        Netsh \<Rightarrow> [Exec ''netsh'' [''wlan'', ''stop'', ''hostednetwork''],
          Exec ''netsh'' [''wlan'', ''set'', ''hostednetwork'', ''mode=disallow'']]
      | WinRt \<Rightarrow> [Exec ''powershell'' [''-ExecutionPolicy'', ''Bypass'', ''-Command'', WINRT_STOP_SCRIPT]])"
  by (cases "wh_kind hp") (simp_all add: win_hotspot_stop_def run_simps exec_def)

text \<open>The macOS branch keeps the colon of the line that \<open>scutil\<close> prints: no address is found.\<close>

lemma mac_nameserver_keeps_the_colon:
  "mac_nameserver_of_line ''  nameserver[0] : 192.168.1.1'' = Some '': 192.168.1.1''"
  by code_simp

lemma dns_never_empty:
  "fst (run_state mac_detect_system_dns h) \<noteq> []" "fst (run_state win_detect_system_dns h) \<noteq> []"
  by (auto simp: mac_detect_system_dns_def win_detect_system_dns_def or_default_dns_def exec_def run_simps
      split: sum.split)

end
