(* ===== verification/Logger.thy ===== *)
theory Logger
  imports Host
begin

text \<open>
  \<open>logger.rs\<close>: which messages are written, and where. The time stamp is printed by the package \<open>jiff\<close>
  and an argument. \<open>Level\<close> and \<open>LevelFilter\<close> of the package \<open>log\<close> are one type here (\<open>Off\<close> is not used),
  ordered as documented: \<open>Error\<close> is the least, \<open>Trace\<close> the greatest.
\<close>

datatype log_level = LogError | LogWarn | LogInfo | LogDebug | LogTrace

fun log_rank :: "log_level \<Rightarrow> nat" where
  "log_rank LogError = 1"
| "log_rank LogWarn = 2"
| "log_rank LogInfo = 3"
| "log_rank LogDebug = 4"
| "log_rank LogTrace = 5"

lemma log_rank_inject [simp]: "log_rank l = log_rank l' \<longleftrightarrow> l = l'"
  by (cases l; cases l') simp_all

instantiation log_level :: linorder
begin

definition less_eq_log_level :: "log_level \<Rightarrow> log_level \<Rightarrow> bool" where
  "l \<le> l' \<longleftrightarrow> log_rank l \<le> log_rank l'"

definition less_log_level :: "log_level \<Rightarrow> log_level \<Rightarrow> bool" where
  "l < l' \<longleftrightarrow> log_rank l < log_rank l'"

instance
  by standard (auto simp: less_eq_log_level_def less_log_level_def)

end

text \<open>\<open>Level\<close>'s \<open>Display\<close>.\<close>

fun level_name :: "log_level \<Rightarrow> string" where
  "level_name LogError = ''ERROR''"
| "level_name LogWarn = ''WARN''"
| "level_name LogInfo = ''INFO''"
| "level_name LogDebug = ''DEBUG''"
| "level_name LogTrace = ''TRACE''"

text \<open>\<open>to_lowercase\<close>. The letters outside ASCII that it would turn into ASCII ones give no word that is
  compared with.\<close>

definition ascii_lower :: "string \<Rightarrow> string" where
  "ascii_lower s = map (\<lambda>c. if 0x41 \<le> (of_char c :: nat) \<and> of_char c \<le> (0x5A :: nat)
     then char_of (of_char c + (32 :: nat)) else c) s"

definition level_of_name :: "string \<Rightarrow> log_level" where
  "level_of_name name =
     (let s = ascii_lower name in
      if s = ''trace'' then LogTrace
      else if s = ''debug'' then LogDebug
      else if s = ''warn'' then LogWarn
      else if s = ''error'' then LogError
      else LogInfo)"

definition current_level :: "log_level action" where
  "current_level = look (\<lambda>h. level_of_name
     (case ev_var (hs_env h) ''RUST_LOG'' of Some (Some s) \<Rightarrow> s | _ \<Rightarrow> []))"

datatype log_sink = LogFile | Stderr | Stdout

record log_record =
  lr_level :: log_level
  lr_target :: string
  lr_args :: string

definition log_message :: "string \<Rightarrow> log_record \<Rightarrow> string" where
  "log_message now r = now @ '' '' @ level_name (lr_level r) @ '' '' @ lr_target r @ '': '' @ lr_args r @ [CHR 0x0A]"

text \<open>\<open>log\<close>: what is written to which sink, if anything; \<open>file\<close> says whether \<open>LOG_FILE\<close> is set.\<close>

definition log_write :: "bool \<Rightarrow> string \<Rightarrow> log_record \<Rightarrow> (log_sink \<times> string) option action" where
  "log_write file now r = do {
     level \<leftarrow> current_level;
     ret (if lr_level r \<le> level
       then Some (if file then LogFile else if lr_level r = LogError then Stderr else Stdout, log_message now r)
       else None)
   }"

text \<open>\<open>init\<close>: whether the file is open afterwards, and the level set as the maximum. \<open>set_logger\<close> is
  called once and succeeds.\<close>

definition logger_init :: "string option \<Rightarrow> (bool \<times> log_level) action" where
  "logger_init log_file = do {
     file \<leftarrow> (case log_file of
         None \<Rightarrow> ret False
       | Some path \<Rightarrow> do {
           r \<leftarrow> file_op (OpenAppend path);
           ret (case r of Inr _ \<Rightarrow> True | Inl _ \<Rightarrow> False)
         });
     level \<leftarrow> current_level;
     ret (file, level)
   }"

subsection \<open>Properties\<close>

text \<open>A level that is written is written at every higher setting; an error always is, to the file if
  there is one and never to the standard output.\<close>

lemma log_write_mono:
  assumes "fst (run_state (log_write file now r) h) = Some w"
    "fst (run_state current_level h) \<le> fst (run_state current_level h')"
  shows "fst (run_state (log_write file now r) h') = Some w"
  using assms by (auto simp: log_write_def current_level_def run_simps split: if_splits)

lemma log_error_always:
  "fst (run_state (log_write file now \<lparr>lr_level = LogError, lr_target = t, lr_args = a\<rparr>) h) =
     Some (if file then LogFile else Stderr, now @ '' ERROR '' @ t @ '': '' @ a @ [CHR 0x0A])"
proof -
  have "LogError \<le> l" for l by (cases l) (simp_all add: less_eq_log_level_def)
  then show ?thesis by (simp add: log_write_def current_level_def log_message_def run_simps)
qed

text \<open>What is printed as the level of a message is also its setting.\<close>

lemma level_names_read: "level_of_name (level_name l) = l"
proof -
  have "list_all (\<lambda>l. level_of_name (level_name l) = l) [LogError, LogWarn, LogInfo, LogDebug, LogTrace]"
    by code_simp
  then show ?thesis by (cases l) simp_all
qed

lemma does_logger_init [does_intros]: "(\<And>path. P (OpenAppend path)) \<Longrightarrow> does P (logger_init log_file)"
  unfolding logger_init_def current_level_def by (intro does_intros) simp_all

end
