(* ===== verification/Program.thy ===== *)
theory Program
  imports Cli Logger
begin

text \<open>
  \<open>main.rs\<close>: the program from its start. \<open>parse\<close>, \<open>w\<close> and \<open>inputs\<close> are the arguments of \<open>cli_run\<close>, \<open>raw\<close> is
  \<open>std::env::args\<close>; a result of \<open>None\<close> is a return from \<open>main\<close>.
\<close>

definition main_program ::
    "(string list \<Rightarrow> int + commands) \<Rightarrow> outside \<Rightarrow> string io_result list \<Rightarrow> string list \<Rightarrow> int option action" where
  "main_program parse w inputs raw = do {
     let log_file = get_log_file raw;
     ignoring (logger_init log_file);
     ensure_adb;
     cli_run parse w inputs raw
   }"

text \<open>The command line is looked at with the path of \<open>adb\<close> settled, so that no command looks for it again:
  also a wrong command line, or \<open>--help\<close>, comes after the search and the download.\<close>

lemma main_settles_adb:
  obtains h' where "hs_adb_path h' \<noteq> None" "hs_env h' = hs_env h"
    "run_state (main_program parse w inputs raw) h = run_state (cli_run parse w inputs raw) h'"
    "run_state ensure_adb h' = ((), h')"
proof -
  let ?h1 = "snd (run_state (ignoring (logger_init (get_log_file raw))) h)"
  let ?h2 = "snd (run_state ensure_adb ?h1)"
  have h1: "hs_env ?h1 = hs_env h"
    using does_ignoring [OF does_logger_init [of "\<lambda>_. True"]] by (simp add: does_def)
  have h2: "hs_env ?h2 = hs_env ?h1"
    using does_mono [OF does_ensure_adb, of "\<lambda>_. True"] by (simp add: does_def)
  show thesis
  proof
    show "hs_adb_path ?h2 \<noteq> None" by (rule ensure_adb_settles)
    show "hs_env ?h2 = hs_env h" using h1 h2 by simp
    show "run_state (main_program parse w inputs raw) h = run_state (cli_run parse w inputs raw) ?h2"
      by (simp add: main_program_def run_ignoring split: prod.split)
    show "run_state ensure_adb ?h2 = ((), ?h2)" by (rule ensure_adb_idempotent)
  qed
qed

text \<open>A log file that is named after the subcommand is not opened.\<close>

lemma log_file_ignored:
  assumes "\<not> starts_with subcommand ''-''"
  shows "run_state (logger_init (get_log_file (program # subcommand # args))) h =
    ((False, fst (run_state current_level h)), h)"
  using log_file_after_subcommand [OF assms] by (simp add: logger_init_def current_level_def run_simps)

end
