(* ===== verification/Relay.thy ===== *)
theory Relay
  imports Io Serial_Registry "HOL-Library.Multiset"
begin

text \<open>
  \<open>relay/relay.rs\<close>: the accept loop of the reverse mode and the reconnecting loop of the forward
  mode. \<open>bind\<close>, \<open>accept\<close>, \<open>connect\<close> and the clock are arguments: a loop is given what its successive
  calls return, and when the list is exhausted it is still waiting (no result). A client handed to
  \<open>Client::run_blocking\<close> is the serial it is started with.
\<close>

record relay =
  relay_port :: u16

definition relay_new :: "u16 \<Rightarrow> relay" where
  "relay_new port = \<lparr>relay_port = port\<rparr>"

subsection \<open>Reverse mode\<close>

text \<open>What happens to the listener: \<open>accept\<close> and \<open>into_std\<close> return, at a time of the clock; in
  between, other threads register serials.\<close>

datatype relay_event =
    Registers instant string
  | Accepts instant "unit io_result" "unit io_result"

fun accept_loop ::
    "relay_event list \<Rightarrow> registry \<Rightarrow> string option list \<times> registry \<times> io_error_kind option" where
  "accept_loop [] q = ([], q, None)"
| "accept_loop (Registers now serial # es) q = accept_loop es (register_pending now serial q)"
| "accept_loop (Accepts now accepted into_std # es) q =
     (case accepted of
        Inl e \<Rightarrow> ([], q, Some e)
      | Inr _ \<Rightarrow>
          (let (serial, q') = take_pending now q in
           case into_std of
             Inl e \<Rightarrow> ([], q', Some e)
           | Inr _ \<Rightarrow> (case accept_loop es q' of (clients, q'', e) \<Rightarrow> (serial # clients, q'', e))))"

definition relay_run ::
    "unit io_result \<Rightarrow> relay_event list \<Rightarrow> registry \<Rightarrow> string option list \<times> registry \<times> io_error_kind option" where
  "relay_run bound es q =
     (case bound of Inl e \<Rightarrow> ([], q, Some e) | Inr _ \<Rightarrow> accept_loop es q)"

text \<open>A registration names at most one connection: as multisets, the serials handed out are among
  the ones registered.\<close>

definition registered :: "relay_event list \<Rightarrow> string multiset" where
  "registered es = mset (concat (map (\<lambda>ev. case ev of Registers _ serial \<Rightarrow> [serial] | _ \<Rightarrow> []) es))"

definition handed_out :: "string option list \<Rightarrow> string multiset" where
  "handed_out clients = mset (concat (map (case_option [] (\<lambda>s. [s])) clients))"

abbreviation serials :: "registry \<Rightarrow> string multiset" where
  "serials q \<equiv> mset (map pe_serial q)"

lemma serials_filter: "serials (filter P q) \<subseteq># serials q"
  by (induction q) (auto intro: subset_mset.order_trans)

lemma serials_register: "serials (register_pending now serial q) \<subseteq># serials q + {#serial#}"
proof -
  let ?q = "filter (\<lambda>e. duration_since now (pe_registered_at e) < MATCH_WINDOW) q"
  have "serials (tl ?q) \<subseteq># serials ?q" by (cases ?q) simp_all
  then have "serials (tl ?q) \<subseteq># serials q"
    using serials_filter by (rule subset_mset.order_trans)
  then show ?thesis using serials_filter by (simp add: register_pending_def Let_def)
qed

lemma serials_drop_expired: "serials (drop_expired now q) \<subseteq># serials q"
  by (induction q) (auto intro: subset_mset.order_trans)

lemma serials_take:
  assumes "take_pending now q = (serial, q')"
  shows "handed_out [serial] + serials q' \<subseteq># serials q"
  using assms serials_drop_expired [of now q]
  by (auto simp: take_pending_def handed_out_def split: list.splits)

lemma accept_loop_serials:
  "accept_loop es q = (clients, q', e) \<Longrightarrow>
   handed_out clients + serials q' \<subseteq># serials q + registered es"
proof (induction es q arbitrary: clients q' e rule: accept_loop.induct)
  case (1 q)
  then show ?case by (simp add: handed_out_def)
next
  case (2 now serial es q)
  then have "handed_out clients + serials q' \<subseteq># serials (register_pending now serial q) + registered es"
    by simp
  also have "\<dots> \<subseteq># (serials q + {#serial#}) + registered es"
    by (rule subset_mset.add_right_mono [OF serials_register])
  finally show ?case by (simp add: registered_def)
next
  case (3 now accepted into_std es q)
  obtain serial q1 where t: "take_pending now q = (serial, q1)" by force
  note s = serials_take [OF t]
  have r: "registered (Accepts now accepted into_std # es) = registered es" by (simp add: registered_def)
  show ?case
  proof (cases "accepted = Inr () \<and> into_std = Inr ()")
    case True
    then obtain cs where cs: "accept_loop es q1 = (cs, q', e)" "clients = serial # cs"
      using "3.prems" t by (auto split: prod.splits)
    have "handed_out cs + serials q' \<subseteq># serials q1 + registered es"
      using "3.IH" [of "()" "(serial, q1)" serial q1 "()"] True t cs(1) by simp
    then have "handed_out [serial] + (handed_out cs + serials q') \<subseteq># handed_out [serial] + (serials q1 + registered es)"
      by (rule subset_mset.add_left_mono)
    also have "\<dots> \<subseteq># serials q + registered es"
      using subset_mset.add_right_mono [OF s, of "registered es"] by (simp add: add.assoc)
    finally show ?thesis using cs(2) r by (simp add: handed_out_def add.assoc)
  next
    case False
    have "serials q1 \<subseteq># serials q"
      using s by (rule subset_mset.order_trans [OF mset_subset_eq_add_right])
    then have "clients = []" "serials q' \<subseteq># serials q"
      using False "3.prems" t by (auto split: sum.splits)
    then show ?thesis by (simp add: handed_out_def r subset_mset.add_increasing2)
  qed
qed

subsection \<open>Forward mode\<close>

text \<open>\<open>connect_forward\<close>: an attempt is the result of \<open>TcpStream::connect\<close> and, after a failure, the
  clock. The result, if there is one, comes with the number of waits of 500 ms and the attempts left.\<close>

fun connect_forward ::
    "instant \<Rightarrow> (unit io_result \<times> instant) list \<Rightarrow> nat \<Rightarrow>
     unit io_result option \<times> nat \<times> (unit io_result \<times> instant) list" where
  "connect_forward deadline [] waits = (None, waits, [])"
| "connect_forward deadline ((r, now) # attempts) waits =
     (case r of
        Inr _ \<Rightarrow> (Some (Inr ()), waits, attempts)
      | Inl e \<Rightarrow>
          if deadline \<le> now then (Some (Inl e), waits, attempts)
          else connect_forward deadline attempts (waits + 1))"

definition connect_deadline :: "instant \<Rightarrow> instant" where
  "connect_deadline start = start + from_secs 20"

text \<open>The back-off after a client: its duration and the count of consecutive probes give the delay
  in milliseconds and the next count. \<open>500u64 << shift\<close> is on 64 bits.\<close>

definition saturating_add_u32 :: "u32 \<Rightarrow> u32 \<Rightarrow> u32" where
  "saturating_add_u32 a b = (if unat a + unat b < 0x100000000 then a + b else - 1)"

definition forward_backoff :: "nat \<Rightarrow> u32 \<Rightarrow> u64 \<times> u32" where
  "forward_backoff duration consecutive_probes =
     (if duration < from_millis 500
      then let consecutive_probes' = saturating_add_u32 consecutive_probes 1;
               shift = min consecutive_probes' 3
           in (push_bit (unat shift) 500, consecutive_probes')
      else (500, 0))"

text \<open>A round: when it starts, the attempts to connect, how long the client lives. The loop returns
  the delays it slept and the error that ended it.\<close>

record forward_round =
  fr_start :: instant
  fr_attempts :: "(unit io_result \<times> instant) list"
  fr_duration :: nat

fun run_forward :: "forward_round list \<Rightarrow> u32 \<Rightarrow> u64 list \<times> io_error_kind option" where
  "run_forward [] consecutive_probes = ([], None)"
| "run_forward (r # rs) consecutive_probes =
     (case connect_forward (connect_deadline (fr_start r)) (fr_attempts r) 0 of
        (None, _) \<Rightarrow> ([], None)
      | (Some (Inl e), _) \<Rightarrow> ([], Some e)
      | (Some (Inr _), _) \<Rightarrow>
          (let (delay_ms, consecutive_probes') = forward_backoff (fr_duration r) consecutive_probes;
               (delays, e) = run_forward rs consecutive_probes'
           in (delay_ms # delays, e)))"

text \<open>The specification of the delays: the \<open>k\<close>-th probe in a row waits \<open>500 * 2 ^ min k 3\<close> ms.\<close>

fun backoff_delays :: "nat \<Rightarrow> bool list \<Rightarrow> nat list" where
  "backoff_delays k [] = []"
| "backoff_delays k (probe # ps) =
     (if probe then 500 * 2 ^ min (k + 1) 3 # backoff_delays (k + 1) ps
      else 500 # backoff_delays 0 ps)"

definition connects :: "forward_round \<Rightarrow> bool" where
  "connects r \<longleftrightarrow> (\<exists>w rest. connect_forward (connect_deadline (fr_start r)) (fr_attempts r) 0 = (Some (Inr ()), w, rest))"

lemma saturating_add_u32:
  "unat (saturating_add_u32 a 1) = min (unat a + 1) 0xFFFFFFFF"
proof (cases "unat a + 1 < 0x100000000")
  case True
  then have "unat (a + 1) = unat a + 1" by (simp add: unat_word_ariths)
  with True show ?thesis by (simp add: saturating_add_u32_def)
next
  case False
  then show ?thesis by (simp add: saturating_add_u32_def unsigned_minus_1_eq_mask mask_eq_exp_minus_1)
qed

lemma unat_min_word: "unat (min (a :: 'a :: len word) b) = min (unat a) (unat b)"
  by (simp add: min_def word_le_nat_alt)

lemma backoff_shift:
  assumes "shift \<le> (3 :: u32)"
  shows "unat (push_bit (unat shift) (500 :: u64)) = 500 * 2 ^ unat shift"
proof -
  have "unat shift \<le> 3" using assms by (simp add: word_le_nat_alt)
  then have "unat shift \<in> {0, 1, 2, 3}" by auto
  then show ?thesis by (auto simp: push_bit_eq_mult)
qed

lemma forward_backoff_probe:
  assumes "d < from_millis 500" "forward_backoff d c = (delay, c')"
  shows "unat delay = 500 * 2 ^ min (unat c + 1) 3" "unat c' = min (unat c + 1) 0xFFFFFFFF"
proof -
  have c': "c' = saturating_add_u32 c 1" and delay: "delay = push_bit (unat (min c' 3)) 500"
    using assms by (auto simp: forward_backoff_def Let_def)
  show u: "unat c' = min (unat c + 1) 0xFFFFFFFF" using saturating_add_u32 [of c] c' by simp
  have "min c' 3 \<le> 3" by simp
  from backoff_shift [OF this] show "unat delay = 500 * 2 ^ min (unat c + 1) 3"
    using u by (simp add: delay unat_min_word)
qed

lemma run_forward_delays:
  assumes "list_all connects rs" "min (unat c) 3 = min k 3"
  shows "\<exists>ds. run_forward rs c = (ds, None) \<and>
    map unat ds = backoff_delays k (map (\<lambda>r. fr_duration r < from_millis 500) rs)"
  using assms
proof (induction rs arbitrary: c k)
  case (Cons r rs)
  obtain w rest where r: "connect_forward (connect_deadline (fr_start r)) (fr_attempts r) 0 = (Some (Inr ()), w, rest)"
    using Cons.prems(1) by (auto simp: connects_def)
  obtain delay c' where b: "forward_backoff (fr_duration r) c = (delay, c')" by force
  show ?case
  proof (cases "fr_duration r < from_millis 500")
    case True
    have "min (unat c') 3 = min (k + 1) 3" "unat delay = 500 * 2 ^ min (k + 1) 3"
      using forward_backoff_probe [OF True b] Cons.prems(2) by (auto simp: min_def split: if_splits)
    moreover from Cons.IH [OF _ this(1)] Cons.prems(1) obtain ds where
      "run_forward rs c' = (ds, None)"
      "map unat ds = backoff_delays (k + 1) (map (\<lambda>r. fr_duration r < from_millis 500) rs)"
      by auto
    ultimately show ?thesis using r b True by simp
  next
    case False
    then have d: "delay = 500" "c' = 0" using b by (simp_all add: forward_backoff_def)
    from Cons.IH [of c' 0] Cons.prems(1) d obtain ds where
      "run_forward rs c' = (ds, None)"
      "map unat ds = backoff_delays 0 (map (\<lambda>r. fr_duration r < from_millis 500) rs)"
      by auto
    then show ?thesis using r b d False by simp
  qed
qed simp

end
