(* ===== verification/Tcp_Streaming.thy ===== *)
theory Tcp_Streaming
  imports Tcp_Numbers Std_Io
begin

text \<open>
  The way down: what the network sends to \<open>Tcp_Connection\<close> reaches the client's buffer in consecutive
  segments, none of it lost, repeated or reordered, up to at most one deferred packet.
\<close>

text \<open>A read takes the bytes it returns from the front of what the stream still delivers.\<close>

lemma stream_read_rx_bytes:
  "stream_read n s = (r, s') \<Longrightarrow> rx_bytes s = case_sum (\<lambda>_. []) (\<lambda>bs. bs) r @ rx_bytes s'"
  by (auto simp: stream_read.simps rx_bytes_def split: list.splits sum.splits if_splits)

lemma read_adapter_recv_rx_bytes:
  "read_adapter_recv m n s = (r, s') \<Longrightarrow> rx_bytes s = case_sum (\<lambda>_. []) (\<lambda>bs. bs) r @ rx_bytes s'"
  unfolding read_adapter_recv_def Let_def by (rule stream_read_rx_bytes)

text \<open>Packets that carry \<open>data\<close> in non-empty pieces, numbered from \<open>seq\<close> on without a gap.\<close>

fun segments :: "u32 \<Rightarrow> ip_packet list \<Rightarrow> byte list \<Rightarrow> bool" where
  "segments seq [] data \<longleftrightarrow> data = []"
| "segments seq (p # ps) data \<longleftrightarrow>
     (\<exists>h payload rest. tcp_packet h payload p \<and> receiver_accepts p \<and> tcp_sequence_number h = seq \<and>
        payload \<noteq> [] \<and> data = payload @ rest \<and> segments (seq + of_nat (length payload)) ps rest)"

lemma segments_append:
  "segments seq ps data \<Longrightarrow> segments (seq + of_nat (length data)) ps' data' \<Longrightarrow>
   segments seq (ps @ ps') (data @ data')"
proof (induction ps arbitrary: seq data)
  case (Cons p ps)
  obtain h payload rest where p: "tcp_packet h payload p" "receiver_accepts p" "tcp_sequence_number h = seq"
    "payload \<noteq> []" "data = payload @ rest" "segments (seq + of_nat (length payload)) ps rest"
    using Cons.prems(1) by auto
  have "segments (seq + of_nat (length payload)) (ps @ ps') (rest @ data')"
    using Cons.prems(2) p(5) by (intro Cons.IH [OF p(6)]) (simp add: add.assoc)
  then show ?case using p by auto
qed simp

lemma tcp_reply_segment:
  assumes "tcp_reply pk t flags window payload p"
  shows "payload \<noteq> [] \<Longrightarrow> segments (sequence_number t) [p] payload" "\<exists>h. tcp_packet h payload p"
  using assms by (auto simp: tcp_reply_def tcp_packet_def tcp_data_with_def split: transport_header_data.splits)

text \<open>The bytes in the deferred packet, which has the next sequence number.\<close>

definition deferred :: "tcp_connection \<Rightarrow> byte list \<Rightarrow> bool" where
  "deferred c data \<longleftrightarrow>
     (case tc_packet_for_client_length c of
        None \<Rightarrow> data = []
      | Some n \<Rightarrow> \<exists>p. pk_inflate n (tc_network_to_client c) = Some p \<and>
          segments (sequence_number (tc_tcb c)) [p] data)"

text \<open>From one configuration to another: the segments \<open>ps\<close> with the data, then the control packets \<open>ctl\<close>
  of an end (without data), and what is deferred.\<close>

definition downstream ::
    "ip_packet list \<Rightarrow> ip_packet list \<Rightarrow> byte list \<Rightarrow> byte list \<Rightarrow> tcp_cfg \<Rightarrow> tcp_cfg \<Rightarrow> bool" where
  "downstream ps ctl data held = (\<lambda>(c, b) (c', b').
     sb_content b' = sb_content b @ concat (map ip_raw (ps @ ctl)) \<and>
     segments (sequence_number (tc_tcb c)) ps data \<and>
     rx_bytes (tc_stream c) = data @ held @ rx_bytes (tc_stream c') \<and> deferred c' held \<and>
     list_all (\<lambda>p. \<exists>h. tcp_packet h [] p) ctl \<and>
     (case fin_sequence_number (tc_tcb c') of
        None \<Rightarrow> sequence_number (tc_tcb c') = sequence_number (tc_tcb c) + of_nat (length data) \<and>
          (tc_closed c' \<or> ctl = [])
      | Some fin \<Rightarrow> fin = sequence_number (tc_tcb c) + of_nat (length data) \<and>
          sequence_number (tc_tcb c') = fin + 1 \<and> held = []))"

lemma downstream_trans:
  assumes "downstream ps [] data [] (c, b) (c1, b1)" "fin_sequence_number (tc_tcb c1) = None"
    "downstream ps' ctl data' held (c1, b1) (c', b')"
  shows "downstream (ps @ ps') ctl (data @ data') held (c, b) (c', b')"
  using assms segments_append [of "sequence_number (tc_tcb c)" ps data ps' data']
  by (auto simp: downstream_def add.assoc split: option.splits)

lemma send_empty_downstream:
  assumes "cfg_inv True (c, b)" "flags_ok flags" "send_empty_packet_to_client flags (c, b) = Some (c', b')"
  obtains ctl where "sb_content b' = sb_content b @ concat (map ip_raw ctl)"
    "list_all (\<lambda>p. \<exists>h. tcp_packet h [] p) ctl" "tc_tcb c' = tc_tcb c" "tc_stream c' = tc_stream c"
    "tc_packet_for_client_length c' = None"
proof -
  have "cfg_wf (c, b)" using assms(1) by (simp add: cfg_inv_def)
  then obtain p pk' b2 where
    2: "send_empty_packet_to_client flags (c, b) = Some (c\<lparr>tc_network_to_client := pk'\<rparr>, b2)"
    "tcp_reply (tc_network_to_client c) (tc_tcb c) flags (advertised_window c) [] p" "offered p b b2"
    by (rule send_empty_ok [OF _ assms(2)])
  let ?ctl = "if length (ip_raw p) \<le> sb_remaining b then [p] else []"
  have "sb_content b' = sb_content b @ concat (map ip_raw ?ctl)"
    using 2(1,3) assms(3) by (auto simp: offered_def appended_def)
  moreover have "list_all (\<lambda>p. \<exists>h. tcp_packet h [] p) ?ctl"
    using tcp_reply_segment(2) [OF 2(2)] by simp
  moreover have "tc_packet_for_client_length c = None" using assms(1) by (simp add: cfg_inv_def)
  ultimately show ?thesis using that [of ?ctl] 2(1) assms(3) by auto
qed

text \<open>One round of the loop: nothing, a segment that is sent or deferred, or an end.\<close>

lemma tc_receive_one_downstream:
  assumes wf: "cfg_inv True (c, b)" and fin: "fin_sequence_number (tc_tcb c) = None"
    and run: "tc_receive_one m (c, b) = Some (r, c', b')"
  obtains ps ctl data held where "downstream ps ctl data held (c, b) (c', b')"
    "\<forall>m'. r = Inl m' \<longrightarrow> ctl = [] \<and> held = [] \<and> fin_sequence_number (tc_tcb c') = None"
proof (cases "remaining_client_window (tc_tcb c) = 0")
  case True
  then have "c' = c" "b' = b" "\<exists>x. r = Inr x" using run wf by (auto simp: tc_receive_one_def cfg_inv_def)
  then show ?thesis
    using that [of "[]" "[]" "[]" "[]"] wf fin by (auto simp: downstream_def deferred_def cfg_inv_def)
next
  case False
  have w: "tcp_pk_wf (tc_network_to_client c)" and idle: "tc_packet_for_client_length c = None"
    and wfs: "sb_wf (tc_client_to_network c)" "out_wf b"
    using wf by (simp_all add: cfg_inv_def cfg_wf_def tc_wf_def)
  obtain pk res s' pk' where h: "receive_headers c = Some pk"
    and rd: "packetize_read (tc_stream c) (Some (chunk_limit (tc_tcb c))) pk = Some (res, s', pk')"
    and pk': "tcp_pk_wf pk'"
    and c: "(case res of Inr (Some p) \<Rightarrow> \<exists>bs. chunk_packet c bs p pk' \<and> bs \<noteq> [] \<and>
        length bs \<le> chunk_limit (tc_tcb c) \<and>
        read_adapter_recv (Some (chunk_limit (tc_tcb c))) (MAX_PACKET_LENGTH - pk_payload_index pk)
          (tc_stream c) = (Inr bs, s')
      | Inr None \<Rightarrow> read_adapter_recv (Some (chunk_limit (tc_tcb c)))
          (MAX_PACKET_LENGTH - pk_payload_index pk) (tc_stream c) = (Inr [], s')
      | Inl e \<Rightarrow> read_adapter_recv (Some (chunk_limit (tc_tcb c)))
          (MAX_PACKET_LENGTH - pk_payload_index pk) (tc_stream c) = (Inl e, s'))"
    by (rule packetize_read_ok [OF w refl])
  let ?c = "c\<lparr>tc_network_to_client := pk', tc_stream := s'\<rparr>"
  have c1: "cfg_inv True (?c, b)" using pk' wfs idle by (simp add: cfg_inv_def cfg_wf_def tc_wf_def)
  note unfold = tc_receive_one_def h [unfolded receive_headers_def] rd [unfolded chunk_limit_def]
    idle False Let_def
  note rx = read_adapter_recv_rx_bytes
  consider (block) "res = Inl WouldBlock" | (err) e where "res = Inl e" "e \<noteq> WouldBlock"
    | (eof) "res = Inr None" | (data) p where "res = Inr (Some p)"
    by (metis option.exhaust sum.exhaust)
  then show ?thesis
  proof cases
    case block
    then have "c' = ?c" "b' = b" "r = Inr m" using run by (simp_all add: unfold)
    then show ?thesis
      using that [of "[]" "[]" "[]" "[]"] c fin idle block
      by (auto simp: downstream_def deferred_def dest!: rx)
  next
    case err
    then obtain c2 where run2: "send_empty_packet_to_client FLAG_RST (?c, b) = Some (c2, b')"
      "c' = tc_close c2" "r = Inr True"
      using run by (auto simp: unfold split: Option.bind_splits)
    obtain ctl where "sb_content b' = sb_content b @ concat (map ip_raw ctl)"
      "list_all (\<lambda>p. \<exists>h. tcp_packet h [] p) ctl" "tc_tcb c2 = tc_tcb ?c" "tc_stream c2 = s'"
      "tc_packet_for_client_length c2 = None"
      by (rule send_empty_downstream [OF c1 _ run2(1)]) simp_all
    then show ?thesis
      using that [of "[]" ctl "[]" "[]"] c fin err run2(2,3)
      by (auto simp: downstream_def deferred_def tc_close_def dest!: rx)
  next
    case eof
    then have run2: "tc_eof (?c, b) = Some (c', b')" "r = Inr True"
      using run by (auto simp: unfold split: Option.bind_splits)
    obtain c2 where 2: "send_empty_packet_to_client (FLAG_FIN OR FLAG_ACK)
        (tcb_update (\<lambda>t. t\<lparr>acknowledgement_number := acknowledgement_number t + 1\<rparr>) ?c, b) = Some (c2, b')"
      "c' = tcb_update (\<lambda>t. t\<lparr>fin_sequence_number := Some (sequence_number t),
             sequence_number := sequence_number t + 1, tcb_state := FinWait1\<rparr>) c2"
      using run2(1) by (auto simp: tc_eof_def split: Option.bind_splits)
    obtain ctl where "sb_content b' = sb_content b @ concat (map ip_raw ctl)"
      "list_all (\<lambda>p. \<exists>h. tcp_packet h [] p) ctl" "sequence_number (tc_tcb c2) = sequence_number (tc_tcb c)"
      "tc_stream c2 = s'" "tc_packet_for_client_length c2 = None"
      by (rule send_empty_downstream [OF _ _ 2(1)]) (use pk' wfs idle in \<open>simp_all add: cfg_inv_def cfg_wf_def tc_wf_def\<close>)
    then show ?thesis
      using that [of "[]" ctl "[]" "[]"] c eof run2(2) 2(2)
      by (auto simp: downstream_def deferred_def dest!: rx)
  next
    case data
    then obtain bs where bs: "chunk_packet c bs p pk'" "bs \<noteq> []"
      "read_adapter_recv (Some (chunk_limit (tc_tcb c))) (MAX_PACKET_LENGTH - pk_payload_index pk)
        (tc_stream c) = (Inr bs, s')"
      using c by auto
    have rxb: "rx_bytes (tc_stream c) = bs @ rx_bytes s'" using rx [OF bs(3)] by simp
    have seg: "segments (sequence_number (tc_tcb c)) [p] bs"
      using bs(1,2) tcp_reply_segment(1) unfolding chunk_packet_def by blast
    note one = tc_receive_one_data [OF wf False h rd [unfolded data] bs(1), of m]
    show ?thesis
    proof (cases "length (ip_raw p) \<le> sb_remaining b")
      case True
      then show ?thesis
        using that [of "[p]" "[]" bs "[]"] one(1) run rxb seg fin idle
        by (auto simp: downstream_def deferred_def after_read_def appended_def)
    next
      case False
      then show ?thesis
        using that [of "[]" "[]" "[]" bs] one(2) run rxb seg fin bs(1)
        by (auto simp: downstream_def deferred_def after_read_def chunk_packet_def)
    qed
  qed
qed

lemma tc_receive_loop_downstream:
  assumes "cfg_inv True (c, b)" "fin_sequence_number (tc_tcb c) = None"
    "tc_receive_loop n m (c, b) = Some (m', c', b')"
  shows "\<exists>ps ctl data held. downstream ps ctl data held (c, b) (c', b')"
  using assms
proof (induction n arbitrary: m c b)
  case 0
  then have "downstream [] [] [] [] (c, b) (c', b')"
    by (auto simp: downstream_def deferred_def cfg_inv_def)
  then show ?case by blast
next
  case (Suc n)
  then obtain r c1 b1 where 1: "tc_receive_one m (c, b) = Some (r, c1, b1)"
    by (auto split: Option.bind_splits)
  obtain ps ctl data held where d: "downstream ps ctl data held (c, b) (c1, b1)"
    "\<forall>m'. r = Inl m' \<longrightarrow> ctl = [] \<and> held = [] \<and> fin_sequence_number (tc_tcb c1) = None"
    by (rule tc_receive_one_downstream [OF Suc.prems(1,2) 1])
  show ?case
  proof (cases r)
    case (Inl m1)
    have e: "ctl = []" "held = []" "fin_sequence_number (tc_tcb c1) = None" using d(2) Inl by simp_all
    have i: "cfg_inv True (c1, b1)" using tc_receive_one_ok [OF Suc.prems(1), of m] 1 Inl by simp
    have "tc_receive_loop n m1 (c1, b1) = Some (m', c', b')" using Suc.prems(3) 1 Inl by simp
    from Suc.IH [OF i e(3) this] obtain ps' ctl' data' held'
      where "downstream ps' ctl' data' held' (c1, b1) (c', b')" by blast
    from downstream_trans [OF d(1) [unfolded e(1,2)] e(3) this] show ?thesis by blast
  next
    case (Inr m1)
    then show ?thesis using Suc.prems(3) 1 d(1) by auto
  qed
qed

end
