(* ===== verification/Spec2Isabelle.thy ===== *)
theory Spec2Isabelle
  imports Binary Client_Session Dns_Cache Examples Host_Examples Other_Platforms Program Relay Tcp_Streaming
begin

text \<open>
  A model of gnirehtet's relay and command line program (\<open>src/relay-rust/src\<close>, below just the file
  names), and what is proved of it.

  \<^bold>\<open>The program.\<close> An Android device sends the IP packets of its applications over \<open>adb\<close> to the relay on
  the host, which turns them into sockets: a user-space NAT. One \<open>Client\<close> (\<open>relay/client.rs\<close>) serves one
  device. It cuts the device's byte stream into packets (\<open>ByteBuffer\<close>, \<open>IpPacketBuffer\<close>), hands each to
  its \<open>Router\<close>, which keeps a table of connections by 5-tuple, creates them on demand and answers ICMP
  itself; a \<open>TcpConnection\<close> speaks TCP with the device and a stream socket with the network (through a
  SOCKS5 proxy if one is set), a \<open>UdpConnection\<close> forwards datagrams. Both build what they answer with a
  \<open>Packetizer\<close> and put whole packets into one \<open>StreamBuffer\<close> of the client, from which the main loop
  writes to the device. \<open>relay/relay.rs\<close> accepts the devices (or connects to one), and
  \<open>relay/serial_registry.rs\<close> tells which device a connection belongs to. Around it, the command line
  (\<open>cli.rs\<close>, \<open>commands.rs\<close>) installs, starts and stops the client on the device with \<open>adb\<close>
  (\<open>adb.rs\<close>, \<open>transport.rs\<close>), follows the devices that come and go (\<open>adb_monitor.rs\<close>) and can open a
  Wi-Fi access point for them (\<open>wifi.rs\<close>, \<open>hotspot.rs\<close>).

  \<^bold>\<open>Conventions.\<close> Integers that can wrap are words of their width; \<open>usize\<close> and durations are \<open>nat\<close>. The
  result \<open>None\<close> of a function of the relay is a panic (a slice out of range, a failed \<open>assert!\<close>), an
  \<open>io_result\<close> is \<open>Inl\<close> the kind of the error or \<open>Inr\<close> the value. State is passed and returned: a
  connection with the shared buffer is a pair (\<open>tcp_cfg\<close>, \<open>rt_cfg\<close>), so what the source mutates through
  \<open>Rc<RefCell<..>>\<close> is threaded in the order of its calls. A socket is a record \<open>stream\<close> of scripts: what
  its future reads and writes will meet. The clock, the random numbers and the ways to open sockets are
  the record \<open>world\<close>; what a main loop iteration meets is the record \<open>tick\<close>. For the command line, a
  command is an \<open>action\<close> of the library's state monad over \<open>host\<close>: the trace of what was done (processes
  run, questions asked, sleeps) and an \<open>environment\<close> that answers as a function of the trace. A theorem
  for all streams, worlds and environments is one for all behaviours of what is outside.

  \<^bold>\<open>Which theory models what.\<close>

  \<^item> \<open>Prelude\<close>: bytes, big-endian fields, slices, the lemma collections \<open>slice_simps\<close>, \<open>wf_intros\<close>,
    \<open>frame_simps\<close>. \<open>Io\<close>: sockets and \<open>relay/datagram.rs\<close>. \<open>Std_Fmt\<close>, \<open>Std_Text\<close>, \<open>Std_Io\<close>, \<open>Std_Time\<close>:
    what the sources use of Rust's library (numbers as text and back, UTF-8, lines and words,
    \<open>read_exact\<close> and \<open>write_all\<close>, durations).
  \<^item> \<open>Byte_Buffer\<close>, \<open>Stream_Buffer\<close>, \<open>Datagram_Buffer\<close>: the three buffers of those names, each with its
    invariant and its content as a list. Their contracts are the locales \<open>byte_fifo\<close>, \<open>byte_pipe\<close> and
    \<open>datagram_queue\<close>, interpreted on the code's operations.
  \<^item> \<open>Checksum\<close>: the Internet checksum as the sources compute it, equal to RFC 1071's. \<open>Ip_Header\<close>
    (\<open>ipv4_header.rs\<close>, \<open>ipv6_header.rs\<close>, \<open>ip_header.rs\<close>), \<open>Transport_Header\<close> (\<open>udp_header.rs\<close>,
    \<open>tcp_header.rs\<close>, \<open>transport_header.rs\<close>): parsing, the accessors that keep a parsed header and its bytes
    in step (locale \<open>bound_field\<close>, interpreted once for each field), checksums. \<open>Ip_Packet\<close>
    (\<open>ipv4_packet.rs\<close>, \<open>ip_packet.rs\<close>), \<open>Packetizer\<close>, \<open>Ip_Packet_Buffer\<close>: packets, building and cutting them;
    \<open>Framing\<close> states which bytes are a packet and gives the contract of the cutting as the locale
    \<open>frame_source\<close>. \<open>Binary\<close>: the dump of a packet.
  \<^item> \<open>Connection\<close> (\<open>connection.rs\<close>, \<open>net.rs\<close>, the buffer side of \<open>client.rs\<close>), \<open>Tcp_Connection\<close>,
    \<open>Udp_Connection\<close>, \<open>Socks5\<close> (\<open>create_stream\<close> of \<open>tcp_connection.rs\<close>), \<open>Icmp\<close> (\<open>icmp_handler.rs\<close>): one
    definition per method. \<open>Tcp_Invariants\<close>: every handler and poll keeps the invariant \<open>cfg_inv\<close> and adds
    only whole, valid packets. \<open>Tcp_States\<close>: the edges of the state machine, an order on the states.
    \<open>Tcp_Numbers\<close>: sequence numbers, the stream of the client, the window. \<open>Tcp_Streaming\<close>: the stream of
    the network.
  \<^item> \<open>Router\<close> (\<open>router.rs\<close>) with its invariant, \<open>Routing\<close>: its behaviour (polling, isolation of flows, the
    first packet of a flow). \<open>Client\<close> (\<open>client.rs\<close>), \<open>Client_Loop\<close>: the guarantees of an iteration of the main loop,
    \<open>Client_Session\<close>: those of a whole session, from the identifier on.
  \<^item> \<open>Serial_Registry\<close>, \<open>Relay\<close> (\<open>relay.rs\<close>), \<open>Dns_Cache\<close>.
  \<^item> \<open>Host\<close>: the environment, the actions, and the rules \<open>does_intros\<close> that show that all an action does has
    a property. \<open>Execution_Error\<close>, \<open>Adb\<close>, \<open>Transport\<close>, \<open>Adb_Monitor\<close>, \<open>Wifi\<close>, \<open>Hotspot\<close>: the files of those
    names. \<open>Commands\<close>: \<open>commands.rs\<close> up to \<open>cmd_restart\<close> as far as it drives the device; \<open>Dummy_Wifi\<close>: its
    Wi-Fi setup and the commands that run the relay; \<open>Cli\<close>: \<open>cli.rs\<close>; \<open>Logger\<close>: \<open>logger.rs\<close>; \<open>Program\<close>:
    \<open>main.rs\<close>. \<open>Other_Platforms\<close>: what the builds for Windows and macOS have in their place.
  \<^item> \<open>Examples\<close>, \<open>Host_Examples\<close>: the concrete packets, connections, clients and hosts at which the
    properties are applied.

  \<^bold>\<open>What is shown.\<close> Of the data path: buffers lose, repeat and reorder nothing (C1; the datagram buffer
  as long as it does not fill up exactly, C15). For a device that sends well-formed packets (headers of
  the right lengths; bytes that start no packet may lie between), in reads that fit behind an unfinished
  packet, and UDP sockets that deliver no datagram above 65467 bytes: the packets routed do not depend on
  how the bytes arrive, and the main loop returns and does not panic, in an iteration and through a whole
  session; while no packet is deferred it sends whole valid packets only. Under the same conditions on a
  packet and on the sockets routing and polling are safe, and a poll drops the connections that ended and
  keeps the others. TCP takes only its edges; until a side ends its stream it delivers a prefix of the
  client's stream to the network; it turns the network's stream into gapless segments for the client,
  within the client's window when no packet was deferred. Packets are built with the right endpoints and
  lengths, and computing their checksums writes the checksum fields only; flows do not disturb each other
  and their first packet is not lost; SOCKS5, ICMP, and QUIC refusal answer as they should. Of the programs
  around it: the registry is a bounded queue, forward mode backs off, the DNS cache answers with what was
  asked under the same name in the last minute, devices are announced once (over USB only as far as \<open>adb\<close>
  can tell), a start is ordered, and, unless the command line names or forces it, a connected Wi-Fi
  interface of the host is only taken with consent. Where the code does
  not do what it means to do, the theorem states what it does: an IPv4 packet of
  length zero and of a protocol that is not routed keeps the reading loop going for ever, a truncated TCP
  packet panics the client's thread, a segment after the end of the network's stream is dropped, a
  deferred packet is counted wrongly and can be overwritten, an exactly filled datagram buffer looks empty, a SOCKS5 reply with a name loses a byte,
  a long read is truncated, a polled UDP flow never expires. Further lemmas of the theories (a wrapped
  buffer is drained with zeros, a TCP header of less than 20 bytes panics, the start of a client, the extraction of \<open>adb\<close>, the name servers on
  macOS, the log levels) are library facts beside them.

  \<^bold>\<open>Bounds and fuel.\<close> Three loops of the relay can fail to end and have fuel or are partial functions:
  \<open>feed_loop\<close> (its results do not depend on the fuel once there is more than packets in the buffer, which
  C2, C3 and C4 state as their bound), the blocking writes and reads of the client, and the reads of the
  ADB monitor (\<open>None\<close> when they do not end; totality is proved on streams that give the data).
  \<open>MAX_PACKETS_PER_POLL\<close> and the 16-bit arithmetic of the headers are the source's. Streams have finite
  scripts, after which they answer \<open>WouldBlock\<close>.

  \<^bold>\<open>Not modelled.\<close> \<open>relay/ipv4_packet_buffer.rs\<close> is in no module of the crate and does not compile
  against it. Log messages are output only and left out of the other theories; \<open>Logger\<close> says which are
  written where, with the printed time as an argument, and leaves \<open>flush\<close> out. \<open>lib.rs\<close> and
  \<open>relay/close_listener.rs\<close> only pass calls on. Tokio, threads, sockets, \<open>clap\<close>, \<open>adb\<close>, \<open>nmcli\<close>, the file
  system and the user are the arguments named above. The command line is modelled in its Linux build; of
  the other builds only the parts of \<open>Other_Platforms\<close> differ in more than a path, a permission or
  the text of an error. The
  threads of a run interleave with it only through \<open>adb\<close>, so a command returns the clients that its
  threads are to start. The tests in the sources and the Android application are not part of the model.
\<close>

text \<open>C1: no byte between a client and its connections is lost, duplicated or reordered. Whatever
  the interleaving of offers to a \<open>StreamBuffer\<close> (refused when they do not fit) and drains into a
  socket, the bytes the socket has accepted followed by the buffer's contents are exactly the
  accepted offers in order, and no operation panics.\<close>
theorem stream_buffer_conserves:
  assumes "sb_wf b"
  shows "\<exists>b' s' acc. pipe_run sb_read_from sb_remaining sb_write_to ops (b, s, []) = Some (b', s', acc) \<and>
    sb_wf b' \<and> sent_bytes s' @ sb_content b' = sent_bytes s @ sb_content b @ acc"
  using sbq.pipe_run_conserves [OF assms, of ops s "[]"] by simp

theorem stream_buffer_conserves_witness:
  "\<exists>b' s' acc. pipe_run sb_read_from sb_remaining sb_write_to
      [Offer [1, 2], Drain, Offer [3, 4], Drain] (sb_new 3, \<lparr>rx = [], tx = [Inr 1, Inr 5], sent = []\<rparr>, [])
      = Some (b', s', acc) \<and> sb_wf b' \<and>
    sent_bytes s' @ sb_content b' = sent_bytes \<lparr>rx = [], tx = [Inr 1, Inr 5], sent = []\<rparr> @ sb_content (sb_new 3) @ acc"
  by (rule stream_buffer_conserves) simp

text \<open>C2: an iteration of the client's main loop returns without a panic and keeps the client's invariant
  (\<open>cl_ok\<close>), under two conditions. What the device sends completes, together with what is pending,
  well-formed packets and bytes that start no packet, and fits the read buffer (\<open>device_sends\<close>): other
  bytes can hang or panic the loop (C26, C27) or be lost (C33). And no socket that a UDP flow opens
  delivers a datagram above 65467 bytes (\<open>short_world\<close>). If moreover no packet is deferred and the shared
  buffer is empty at its start (C30 shows why the first), and the iteration does not end the loop, then
  what the device has been sent, followed by what is pending for it, grows by whole packets only, each
  well-formed and with checksums a receiver accepts (UDP over IPv6 excepted), and the shared buffer is
  empty again.\<close>
theorem run_iteration_delivers:
  assumes "cl_ok k (rs_client rs)" "device_sends fuel rs" "\<forall>n. short_world (tk_feed tk n)"
  shows "\<exists>fl rs'. run_iteration fuel tk rs = Some (Some (fl, rs')) \<and> cl_ok False (rs_client rs') \<and>
    (k \<and> drained (rs_client rs) \<and> fl \<noteq> Break \<longrightarrow> drained (rs_client rs') \<and>
      (\<exists>ps. list_all (\<lambda>p. packet_wf p \<and> (receiver_accepts p \<or> udp_over_ipv6 p)) ps \<and>
        sent_bytes (rs_stream rs') @ rs_pending_outgoing rs' =
        sent_bytes (rs_stream rs) @ rs_pending_outgoing rs @ concat (map ip_raw ps)))"
proof -
  obtain fl rs' where r: "run_iteration fuel tk rs = Some (Some (fl, rs'))" "cl_ok False (rs_client rs')"
    "undisturbed k rs \<Longrightarrow> drained (rs_client rs) \<Longrightarrow> delivers rs (fl, rs')"
    using run_iteration_ok [OF assms(1,2)] assms(3) by blast
  have "delivers rs (fl, rs')" if "k" "drained (rs_client rs)"
    using r(3) that by (simp add: undisturbed_def)
  then show ?thesis using r(1,2) by (auto simp: delivers_def sound_packet_def [abs_def])
qed

theorem run_iteration_delivers_witness:
  "\<exists>fl rs'. run_iteration 2 demo_tick (demo_state demo_syn_bytes) = Some (Some (fl, rs')) \<and>
    cl_ok False (rs_client rs') \<and>
    (True \<and> drained (rs_client (demo_state demo_syn_bytes)) \<and> fl \<noteq> Break \<longrightarrow> drained (rs_client rs') \<and>
      (\<exists>ps. list_all (\<lambda>p. packet_wf p \<and> (receiver_accepts p \<or> udp_over_ipv6 p)) ps \<and>
        sent_bytes (rs_stream rs') @ rs_pending_outgoing rs' =
        sent_bytes (rs_stream (demo_state demo_syn_bytes)) @
        rs_pending_outgoing (demo_state demo_syn_bytes) @ concat (map ip_raw ps)))"
proof (rule run_iteration_delivers)
  have "\<exists>items tail. demo_syn_bytes = items_bytes items @ tail \<and> list_all item_ok items \<and>
      partial tail \<and> length items < 2"
    by (rule exI [of _ "[Frame demo_syn_bytes]"], rule exI [of _ "[]"]) simp
  then show "device_sends 2 (demo_state demo_syn_bytes)"
    by (auto simp: device_sends_def demo_state_def stream_read.simps MAX_PACKET_LENGTH_def)
qed (simp_all add: demo_state_def demo_tick_def)

text \<open>C3: a session, end to end. A client that has started goes through any number of iterations of its
  main loop without a panic, and each returns, whatever errors the device's socket answers with, if two
  conditions hold. What the device sends is a stream of well-formed packets of at most \<open>m\<close> bytes (and
  bytes that start no packet), possibly with the start of one more, cut into reads in any way such that
  each fits the read buffer behind the largest unfinished packet. And no socket that a UDP flow opens
  delivers a datagram above 65467 bytes (\<open>short_world\<close>). If moreover no iteration begins with a deferred
  packet (\<open>calm\<close>), what the device has received by then is a prefix of the identifier of the client
  followed by whole, well-formed packets with checksums it accepts (UDP over IPv6 excepted).\<close>
theorem client_session:
  assumes "run_start i serial now s = Some (Inr rs)"
    and "rx_bytes s = items_bytes items @ tail" "list_all item_ok items" "partial tail" "length items < fuel"
    and "list_all (\<lambda>p. length p \<le> m) (items_frames items)" "length tail < m"
      "\<forall>c. Inr c \<in> set (rx s) \<longrightarrow> m + length c \<le> MAX_PACKET_LENGTH + 1"
    and "\<forall>tk \<in> set tks. \<forall>n. short_world (tk_feed tk n)"
  shows "\<exists>fl rs'. run_loop fuel tks rs = Some (Some (fl, rs')) \<and> cl_ok False (rs_client rs') \<and>
    (calm fuel tks rs \<longrightarrow>
      (\<exists>ps. list_all (\<lambda>p. packet_wf p \<and> (receiver_accepts p \<or> udp_over_ipv6 p)) ps \<and>
        prefix (sent_bytes (rs_stream rs')) (sent_bytes s @ bytes_of_u32 i @ concat (map ip_raw ps))))"
  using session_ok [OF assms(1-7), of tks] assms(8,9) by (simp add: sound_packet_def [abs_def])

theorem client_session_witness:
  "\<exists>rs fl rs' ps. run_start 7 None 0 demo_device = Some (Inr rs) \<and>
    run_loop 2 [demo_tick] rs = Some (Some (fl, rs')) \<and> cl_ok False (rs_client rs') \<and>
    list_all (\<lambda>p. packet_wf p \<and> (receiver_accepts p \<or> udp_over_ipv6 p)) ps \<and>
    prefix (sent_bytes (rs_stream rs')) (bytes_of_u32 7 @ concat (map ip_raw ps))"
proof -
  obtain rs where rs: "run_start 7 None 0 demo_device = Some (Inr rs)" "cl_ok True (rs_client rs)"
    by (rule run_start_ok [of demo_device]) (simp_all add: tx_waits_def tx_accepts_def demo_device_def)
  have c: "calm 2 [demo_tick] rs"
    using rs(2) cl_ok_undeferred by (auto split: option.split flow.split)
  have "\<exists>fl rs'. run_loop 2 [demo_tick] rs = Some (Some (fl, rs')) \<and> cl_ok False (rs_client rs') \<and>
    (calm 2 [demo_tick] rs \<longrightarrow>
      (\<exists>ps. list_all (\<lambda>p. packet_wf p \<and> (receiver_accepts p \<or> udp_over_ipv6 p)) ps \<and>
        prefix (sent_bytes (rs_stream rs'))
          (sent_bytes demo_device @ bytes_of_u32 7 @ concat (map ip_raw ps))))"
  proof (rule client_session [OF rs(1), where items = "[Frame demo_syn_bytes]" and tail = "[]" and m = 40])
    show "rx_bytes demo_device = items_bytes [Frame demo_syn_bytes] @ []"
      by (simp add: rx_bytes_def demo_device_def)
  qed (auto simp: demo_device_def demo_tick_def partial_def MAX_PACKET_LENGTH_def)
  then show ?thesis using rs(1) c by (auto simp: demo_device_def)
qed

text \<open>C4: the packets of a client do not depend on how its bytes are cut into reads, as long as each read
  fits the buffer behind the largest unfinished packet (a longer one is truncated, C33). Feeding any
  sequence of such non-empty chunks of a stream of well-formed packets (and bytes that start no packet)
  routes exactly the stream's packets, in order, and keeps the unfinished one; no socket that a UDP flow
  opens may deliver a datagram above 65467 bytes (\<open>short_world\<close>).\<close>
theorem feeding_is_chunk_independent:
  assumes "cl_ok k cl" "pb_content (cl_client_to_network cl) = []" "[] \<notin> set chunks" "chunks \<noteq> []"
    and "concat chunks = items_bytes items @ tail" "list_all item_ok items" "partial tail"
    and "list_all (\<lambda>p. length p \<le> m) (items_frames items)" "length tail < m"
    and "\<forall>c \<in> set chunks. m + length c \<le> MAX_PACKET_LENGTH + 1"
    and "length items < fuel" "\<forall>n. short_world (ws n)"
  shows "\<exists>ps cl'. feed_all fuel ws 0 chunks cl = Some (Some (length ps, cl')) \<and>
    map ip_raw ps = items_frames items \<and> pb_content (cl_client_to_network cl') = tail \<and>
    route_all ws 0 ps (cl_router cl, cl_network_to_client cl) =
      Some (cl_router cl', cl_network_to_client cl')"
  using feed_all_ok [of k cl chunks items tail fuel m ws 0] assms by fastforce

theorem feeding_is_chunk_independent_witness:
  "\<exists>ps cl'. feed_all 4 (\<lambda>_. demo_world) 0 [take 7 demo_syn_bytes, drop 7 demo_syn_bytes @ [0], demo_datagram_bytes]
      demo_client = Some (Some (length ps, cl')) \<and>
    map ip_raw ps = items_frames [Frame demo_syn_bytes, Junk 0, Frame demo_datagram_bytes] \<and>
    pb_content (cl_client_to_network cl') = [] \<and>
    route_all (\<lambda>_. demo_world) 0 ps (cl_router demo_client, cl_network_to_client demo_client) =
      Some (cl_router cl', cl_network_to_client cl')"
proof (rule feeding_is_chunk_independent [where k = True and m = 41])
  show "concat [take 7 demo_syn_bytes, drop 7 demo_syn_bytes @ [0], demo_datagram_bytes] =
      items_bytes [Frame demo_syn_bytes, Junk 0, Frame demo_datagram_bytes] @ []" by simp
qed (simp_all add: MAX_PACKET_LENGTH_def demo_lengths(6) [symmetric])

text \<open>C5: routing a packet with well-formed headers never panics, whatever the operating system answers.
  \<open>routable\<close>: the header lengths lie inside the packet, that of TCP is at least 20, the transport is the
  one the IP header names (a TCP header that says less panics, \<open>short_tcp_header_panics\<close>). The router keeps
  its invariant (distinct identifiers, each of the protocol of its connection, every connection
  well-formed), and appends to the client's buffer only whole packets that are well-formed and that a
  receiver accepts (UDP over IPv6 excepted).\<close>
theorem routing_is_safe:
  assumes "rt_ok rt" "out_wf b" "routable p"
  shows "\<exists>rt' b' ps. rt_send_to_network w p (rt, b) = Some (rt', b') \<and> rt_ok rt' \<and> out_wf b' \<and>
    list_all (\<lambda>p. packet_wf p \<and> (receiver_accepts p \<or> udp_over_ipv6 p)) ps \<and>
    sb_content b' = sb_content b @ concat (map ip_raw ps)"
proof -
  obtain rt' b' where "rt_send_to_network w p (rt, b) = Some (rt', b')" "rt_ok rt'" "out_wf b'" "queues b b'"
    by (rule rt_send_to_network_ok [OF assms])
  then show ?thesis by (auto simp: queues_def sound_packet_def [abs_def])
qed

theorem routing_is_safe_witness:
  "\<exists>rt' b' ps. rt_send_to_network demo_world demo_quic (rt_set_buffer rt_new, demo_out) = Some (rt', b') \<and>
    rt_ok rt' \<and> out_wf b' \<and> list_all (\<lambda>p. packet_wf p \<and> (receiver_accepts p \<or> udp_over_ipv6 p)) ps \<and>
    sb_content b' = sb_content demo_out @ concat (map ip_raw ps)"
  by (rule routing_is_safe) (simp_all add: rt_ok_def rt_set_buffer_def rt_new_def)

text \<open>C6: polling all connections never panics and keeps the invariant, provided that no datagram the
  network has for a UDP connection is too long for a packet. The connections are polled one after
  the other, each once, on the client's buffer as the one before left it (\<open>bs\<close>). One that is closed,
  or fails, leaves the table and is remembered as closed now; any other stays, as its poll left it,
  and what is remembered of it does not change. No identifier appears that was not there.\<close>
theorem polling_is_safe:
  assumes "rt_ok rt" "all_entries (\<lambda>_. cn_deliverable) (rt_connections rt)" "out_wf b"
  shows "\<exists>rt' b' bs. rt_poll_connections w (rt, b) = Some (rt', b') \<and> rt_ok rt' \<and> out_wf b' \<and>
    length bs = Suc (length (rt_connections rt)) \<and> bs ! 0 = b \<and> bs ! length (rt_connections rt) = b' \<and>
    (\<forall>i < length (rt_connections rt). case rt_connections rt ! i of (cid, connection) \<Rightarrow>
      \<exists>r c'. cn_poll (w_now w) (connection, bs ! i) = Some (r, c', bs ! Suc i) \<and>
        (if (case r of Inr _ \<Rightarrow> cn_is_closed c' | Inl e \<Rightarrow> e \<noteq> WouldBlock)
         then map_of (rt_connections rt') cid = None \<and>
           map_of (rt_recently_closed rt') cid = Some (w_later w)
         else map_of (rt_connections rt') cid = Some c' \<and>
           map_of (rt_recently_closed rt') cid = map_of (rt_recently_closed rt) cid)) \<and>
    (\<forall>cid. map_of (rt_connections rt) cid = None \<longrightarrow> map_of (rt_connections rt') cid = None \<and>
      map_of (rt_recently_closed rt') cid = map_of (rt_recently_closed rt) cid)"
proof -
  obtain rt' b' where "rt_poll_connections w (rt, b) = Some (rt', b')" "rt_ok rt'" "out_wf b'"
    by (rule rt_poll_ok [OF assms, of w])
  moreover have "distinct (map fst (rt_connections rt))" using assms(1) by (simp add: rt_ok_def)
  note rt_poll_steps [OF calculation(1) this, unfolded poll_closes_def]
  ultimately show ?thesis by blast
qed

text \<open>Two connections: the open one stays, the closed one leaves and is remembered.\<close>
theorem polling_is_safe_witness:
  "\<exists>rt' b'. rt_poll_connections demo_world (demo_open_and_closed, demo_out) = Some (rt', b') \<and>
    map_of (rt_connections rt') demo_cid = Some (CTcp demo_tcp) \<and>
    map_of (rt_connections rt') demo_cid2 = None \<and>
    map_of (rt_recently_closed rt') demo_cid2 = Some (w_later demo_world)"
proof -
  have n: "length (rt_connections demo_open_and_closed) = 2"
    "rt_connections demo_open_and_closed ! 0 = (demo_cid, CTcp demo_tcp)"
    "rt_connections demo_open_and_closed ! 1 = (demo_cid2, CTcp (demo_tcp\<lparr>tc_closed := True\<rparr>))"
    by (simp_all add: demo_open_and_closed_def)
  obtain rt' b' bs where r: "rt_poll_connections demo_world (demo_open_and_closed, demo_out) = Some (rt', b')"
    and each: "\<forall>i < 2. case rt_connections demo_open_and_closed ! i of (cid, connection) \<Rightarrow>
      \<exists>r c'. cn_poll (w_now demo_world) (connection, bs ! i) = Some (r, c', bs ! Suc i) \<and>
        (if (case r of Inr _ \<Rightarrow> cn_is_closed c' | Inl e \<Rightarrow> e \<noteq> WouldBlock)
         then map_of (rt_connections rt') cid = None \<and>
           map_of (rt_recently_closed rt') cid = Some (w_later demo_world)
         else map_of (rt_connections rt') cid = Some c' \<and>
           map_of (rt_recently_closed rt') cid = map_of (rt_recently_closed demo_open_and_closed) cid)"
    using polling_is_safe [OF demo_open_and_closed_ok demo_out_ok(1), of demo_world, unfolded n(1)] by blast
  from each [THEN spec, of 0] each [THEN spec, of 1] have
    "map_of (rt_connections rt') demo_cid = Some (CTcp demo_tcp)"
    "map_of (rt_connections rt') demo_cid2 = None"
    "map_of (rt_recently_closed rt') demo_cid2 = Some (w_later demo_world)"
    by (auto simp only: n demo_polls prod.case) (auto)
  with r show ?thesis by blast
qed

text \<open>C7: the relay's TCP delivers a prefix of the client's stream. In any run of packets that carry
  pieces of the stream \<open>D\<close> (in any order, repeated, lost or overlapping), of polls and of changes of
  the two ends, what was sent to the network followed by what waits for it is a prefix of \<open>D\<close> (shorter
  than 4 GiB), and the acknowledgement number tells its length, as long as neither side has ended its
  stream (\<open>quiet\<close>): once the network has, this fails (C28).\<close>
theorem tcp_delivers_a_prefix:
  assumes "tcp_run D isn start cfg" "cfg_wf start" "tcb_state (tc_tcb (fst start)) = SynSent"
    "delivered (fst start) = []" "acknowledgement_number (tc_tcb (fst start)) = isn + 1"
    "length D < 4294967296" "quiet (fst cfg)"
  shows "\<exists>n. n \<le> length D \<and> delivered (fst cfg) = take n D \<and>
    acknowledgement_number (tc_tcb (fst cfg)) = isn + 1 + of_nat n"
proof -
  have "prefix_inv D isn (fst start)"
    using assms(2-5) by (auto simp: prefix_inv_def cfg_wf_def intro!: exI [of _ 0])
  then show ?thesis using tcp_run_inv [OF assms(1,2) _ assms(6)] assms(7) by (simp add: prefix_inv_def)
qed

text \<open>A connection whose socket becomes writable: the poll that sends the SYN+ACK, the client's ACK with a
  byte behind it (only the ACK counts), the same segment again, whose byte is taken.\<close>
theorem tcp_delivers_a_prefix_witness:
  "\<exists>cfg. tcp_run [7, 8] 1 (demo_connecting, demo_out) cfg \<and> tcb_state (tc_tcb (fst cfg)) = Established \<and>
    delivered (fst cfg) = [7] \<and> acknowledgement_number (tc_tcb (fst cfg)) = 3 \<and>
    (\<exists>n. n \<le> length [7 :: byte, 8] \<and> delivered (fst cfg) = take n [7, 8] \<and>
      acknowledgement_number (tc_tcb (fst cfg)) = 1 + 1 + of_nat n)"
proof -
  obtain cfg where run: "tcp_run [7, 8] 1 (demo_connecting, demo_out) cfg" "quiet (fst cfg)"
    "tcb_state (tc_tcb (fst cfg)) = Established" "delivered (fst cfg) = [7]"
    "acknowledgement_number (tc_tcb (fst cfg)) = 3"
    by (rule demo_run)
  have "\<exists>n. n \<le> length [7 :: byte, 8] \<and> delivered (fst cfg) = take n [7, 8] \<and>
      acknowledgement_number (tc_tcb (fst cfg)) = 1 + 1 + of_nat n"
    by (rule tcp_delivers_a_prefix [OF run(1) _ _ _ _ _ run(2)])
      (simp_all add: demo_connecting_facts)
  with run show ?thesis by (intro exI [of _ cfg] conjI) assumption+
qed

text \<open>C8: what the network sends reaches the client's buffer whole and in order. A receive turns the bytes
  it takes from the network into consecutive segments, numbered from the connection's sequence number
  without a gap and each with a checksum its receiver accepts; what did not fit is in the deferred
  packet, under the next number; the rest is still to be read. Only the end of the stream (then the FIN
  has the number after the data) or an error adds a packet, and that one carries no data.\<close>
theorem network_bytes_reach_the_client:
  assumes "cfg_inv True (c, b)" "fin_sequence_number (tc_tcb c) = None"
    "tc_process_receive (c, b) = Some (r, c', b')"
  shows "\<exists>ps ctl data held.
    sb_content b' = sb_content b @ concat (map ip_raw (ps @ ctl)) \<and>
    segments (sequence_number (tc_tcb c)) ps data \<and> deferred c' held \<and>
    rx_bytes (tc_stream c) = data @ held @ rx_bytes (tc_stream c') \<and>
    list_all (\<lambda>p. \<exists>h. tcp_packet h [] p) ctl \<and>
    (case fin_sequence_number (tc_tcb c') of
       None \<Rightarrow> sequence_number (tc_tcb c') = sequence_number (tc_tcb c) + of_nat (length data) \<and>
         (tc_closed c' \<or> ctl = [])
     | Some fin \<Rightarrow> fin = sequence_number (tc_tcb c) + of_nat (length data) \<and>
         sequence_number (tc_tcb c') = fin + 1 \<and> held = [])"
proof -
  obtain m' where "tc_receive_loop MAX_PACKETS_PER_POLL False (c, b) = Some (m', c', b')"
    using assms(3) by (auto simp: tc_process_receive_def split: Option.bind_splits)
  from tc_receive_loop_downstream [OF assms(1,2) this] show ?thesis
    unfolding downstream_def prod.case by blast
qed

theorem network_bytes_reach_the_client_witness:
  "\<exists>r c' b' ps ctl data held. tc_process_receive (demo_downloading, demo_out) = Some (r, c', b') \<and>
    segments 1001 ps data \<and> deferred c' held \<and> [7, 8, 9] = data @ held @ rx_bytes (tc_stream c')"
proof -
  have i: "cfg_inv True (demo_downloading, demo_out)" "fin_sequence_number (tc_tcb demo_downloading) = None"
    using demo_tcp_ok(1) by (simp_all add: cfg_inv_def cfg_wf_def tc_wf_def demo_downloading_def tcb_new_def)
  obtain m c' b' where "tc_receive_loop MAX_PACKETS_PER_POLL False (demo_downloading, demo_out) = Some (m, c', b')"
    using tc_receive_loop_ok [OF i(1), of MAX_PACKETS_PER_POLL False]
    by (auto simp: result_ok_def split: option.splits)
  then have run: "tc_process_receive (demo_downloading, demo_out) =
      Some (if m then Inr () else Inl WouldBlock, c', b')"
    by (simp add: tc_process_receive_def)
  have "rx_bytes (tc_stream demo_downloading) = [7, 8, 9]" "sequence_number (tc_tcb demo_downloading) = 1001"
    by (simp_all add: demo_downloading_def rx_bytes_def)
  with run network_bytes_reach_the_client [OF i run] show ?thesis by auto
qed

text \<open>C9: the TCP state machine only takes its edges (Init, SynSent, SynReceived, Established, then the
  two ways of closing), in packets as in polls, and these only lead forward, so that it changes its state
  at most five times; a closed connection stays closed and the identifier never changes.\<close>
theorem tcp_takes_edges:
  assumes "handle_packet random p (c, b) = Some (c', b') \<or> tcp_poll (c, b) = Some (r, c', b')"
  shows "tcp_edge\<^sup>*\<^sup>* (tcb_state (tc_tcb c)) (tcb_state (tc_tcb c')) \<and>
    (tcb_state (tc_tcb c) = tcb_state (tc_tcb c') \<or>
      tcp_rank (tcb_state (tc_tcb c)) < tcp_rank (tcb_state (tc_tcb c'))) \<and> tcp_rank (tcb_state (tc_tcb c')) \<le> 5 \<and>
    (tc_closed c \<longrightarrow> tc_closed c') \<and> tc_id c' = tc_id c"
proof -
  have "evolves c c'"
    using assms handle_packet_evolves [of random p c b c' b'] tcp_poll_evolves [of c b r c' b'] by blast
  then show ?thesis
    using tcp_state_less [of "tcb_state (tc_tcb c)" "tcb_state (tc_tcb c')"] tcp_rank_le
    by (simp add: evolves_def less_eq_tcp_state_def)
qed

theorem tcp_takes_edges_witness:
  "tcb_state (tc_tcb demo_tcp) = Init \<and> tcb_state (tc_tcb demo_syn_sent) = SynSent \<and>
    tcp_edge\<^sup>*\<^sup>* Init SynSent \<and> tcp_rank Init < tcp_rank SynSent \<and> tc_id demo_syn_sent = tc_id demo_tcp"
proof -
  have "handle_packet 1000 demo_syn (demo_tcp, demo_out) = Some (demo_syn_sent, demo_out)"
    using handle_syn [OF demo_syn_packet(1) _ demo_syn_packet(2), of demo_tcp 1000 demo_out]
    by (simp add: demo_syn_sent_def tcb_new_def demo_syn_header_def)
  from tcp_takes_edges [OF disjI1 [OF this]] show ?thesis
    by (simp add: demo_syn_sent_def tcb_new_def)
qed

text \<open>C10: the three steps of the handshake. The client's SYN records its sequence number and waits; the
  first poll in which the socket is writable answers with a SYN+ACK that acknowledges it; the client's
  ACK establishes the connection.\<close>
theorem handshake:
  assumes "cfg_wf (c, b)" "tc_tcb c = tcb_new" "\<not> tc_closed c" "tc_packet_for_client_length c = None"
    and "sb_content (tc_client_to_network c) = []" "stream_write [] (tc_stream c) = (Inr n, s')"
    and "tcp_packet h payload p" "is_syn h"
    and "tcp_packet h' payload' p'" "tcp_sequence_number h' = tcp_sequence_number h + 1"
    and "is_ack h'" "\<not> is_syn h'" "\<not> is_rst h'" "\<not> is_fin h'"
  shows "\<exists>c1 c2 b2 q c3. handle_packet random p (c, b) = Some (c1, b) \<and>
    tcb_state (tc_tcb c1) = SynSent \<and> sequence_number (tc_tcb c1) = random \<and>
    acknowledgement_number (tc_tcb c1) = tcp_sequence_number h + 1 \<and>
    tcp_poll (c1, b) = Some (Inr (), c2, b2) \<and> tcb_state (tc_tcb c2) = SynReceived \<and> offered q b b2 \<and>
    tcp_reply (tc_network_to_client c1) (tc_tcb c1) (FLAG_SYN OR FLAG_ACK) (advertised_window c1) [] q \<and>
    handle_packet random' p' (c2, b2) = Some (c3, b2) \<and> tcb_state (tc_tcb c3) = Established \<and>
    sequence_number (tc_tcb c3) = random + 1"
proof -
  let ?c = "tcb_update (\<lambda>t. t\<lparr>acknowledgement_number := tcp_sequence_number h + 1,
      syn_sequence_number := tcp_sequence_number h, sequence_number := random,
      client_window := tcp_window h, tcb_state := SynSent\<rparr>) c"
  have st: "tcb_state (tc_tcb c) = Init" using assms(2) by (simp add: tcb_new_def)
  have 1: "handle_packet random p (c, b) = Some (?c, b)" by (rule handle_syn [OF assms(7) st assms(8)])
  have inv: "cfg_inv True (?c, b)" and e: "sb_is_empty (tc_client_to_network ?c)"
    using assms(1,4,5) sb_is_empty_content by (auto simp: cfg_inv_def cfg_wf_def tc_wf_def)
  have s: "tcb_state (tc_tcb ?c) = SynSent" "\<not> tc_closed ?c" "stream_write [] (tc_stream ?c) = (Inr n, s')"
    using assms(3,6) by simp_all
  obtain q pk' b2 where 2: "tcp_poll (?c, b) = Some (Inr (), tcb_update (\<lambda>t. t\<lparr>tcb_state := SynReceived,
       sequence_number := sequence_number t + 1\<rparr>) ?c\<lparr>tc_network_to_client := pk', tc_stream := s'\<rparr>, b2)"
    "tcp_reply (tc_network_to_client ?c) (tc_tcb ?c) (FLAG_SYN OR FLAG_ACK) (advertised_window ?c) [] q"
    "offered q b b2"
    by (rule poll_connect [OF inv s(1,2) e s(3)])
  let ?c2 = "tcb_update (\<lambda>t. t\<lparr>tcb_state := SynReceived,
      sequence_number := sequence_number t + 1\<rparr>) ?c\<lparr>tc_network_to_client := pk', tc_stream := s'\<rparr>"
  have 3: "handle_packet random' p' (?c2, b2) =
      Some (tcb_update (\<lambda>t. t\<lparr>client_window := tcp_window h',
        their_acknowledgement_number := tcp_acknowledgement_number h', tcb_state := Established\<rparr>) ?c2, b2)"
    by (rule handle_handshake_ack [OF assms(9) _ _ _ assms(11-14)]) (simp_all add: assms(2,10) tcb_new_def)
  show ?thesis
    by (intro exI conjI, rule 1, simp, simp, simp, rule 2(1), simp, rule 2(3), rule 2(2), rule 3) simp_all
qed

theorem handshake_witness:
  "\<exists>c1 c2 b2 q c3. handle_packet 1000 demo_syn (demo_tcp\<lparr>tc_stream := \<lparr>rx = [], tx = [Inr 0], sent = []\<rparr>\<rparr>, demo_out) =
      Some (c1, demo_out) \<and>
    tcb_state (tc_tcb c1) = SynSent \<and> sequence_number (tc_tcb c1) = 1000 \<and>
    acknowledgement_number (tc_tcb c1) = tcp_sequence_number demo_syn_header + 1 \<and>
    tcp_poll (c1, demo_out) = Some (Inr (), c2, b2) \<and> tcb_state (tc_tcb c2) = SynReceived \<and>
    offered q demo_out b2 \<and>
    tcp_reply (tc_network_to_client c1) (tc_tcb c1) (FLAG_SYN OR FLAG_ACK) (advertised_window c1) [] q \<and>
    handle_packet 0 demo_ack (c2, b2) = Some (c3, b2) \<and> tcb_state (tc_tcb c3) = Established \<and>
    sequence_number (tc_tcb c3) = 1000 + 1"
  by (rule handshake [OF _ _ _ _ _ _ demo_syn_packet(1,2) demo_ack_packet(1)])
    (use demo_tcp_ok(1) in \<open>simp_all add: cfg_wf_def tc_wf_def stream_write.simps demo_syn_header_def
      demo_ack_packet(2-)\<close>)

text \<open>C11: a packetizer turns every payload that fits into a packet for the device: the headers of its
  flow, the payload behind them, the length in the header, and checksums a receiver accepts (UDP over
  IPv6 excepted); it stays well-formed and can be used again.\<close>
theorem packetizer_builds:
  assumes "pk_wf pk" "pk_payload_index pk + length bs < MAX_PACKET_LENGTH"
  shows "\<exists>p pk'. (do { pk1 \<leftarrow> pk_store_payload bs pk; pk_build (of_nat (length bs)) pk1 }) = Some (p, pk') \<and>
    pk_wf pk' \<and> packet_wf p \<and> ip_payload p = Some (Some bs) \<and>
    hd_source (fst (ip_headers_data p)) = hd_source (pk_ip pk) \<and>
    hd_destination (fst (ip_headers_data p)) = hd_destination (pk_ip pk) \<and>
    unat (ip_length p) = pk_payload_index pk + length bs \<and>
    (receiver_accepts p \<or> hd_is_v6 (pk_ip pk) \<and> td_is_udp (pk_transport pk))"
proof -
  obtain p pk' where p: "(do { pk1 \<leftarrow> pk_store_payload bs pk; pk_build (of_nat (length bs)) pk1 }) = Some (p, pk')"
    "built pk bs p" "pk_wf pk'"
    by (rule pk_store_and_build_ok [OF assms])
  then show ?thesis using packet_wf_length [of p] by (auto simp: built_def same_flow_def)
qed

theorem packetizer_builds_witness:
  "\<exists>p pk'. (do { pk1 \<leftarrow> pk_store_payload [1, 2, 3] (tc_network_to_client demo_tcp);
      pk_build (of_nat (length [1, 2, 3 :: byte])) pk1 }) = Some (p, pk') \<and>
    pk_wf pk' \<and> packet_wf p \<and> ip_payload p = Some (Some [1, 2, 3]) \<and>
    hd_source (fst (ip_headers_data p)) = hd_source (pk_ip (tc_network_to_client demo_tcp)) \<and>
    hd_destination (fst (ip_headers_data p)) = hd_destination (pk_ip (tc_network_to_client demo_tcp)) \<and>
    unat (ip_length p) = pk_payload_index (tc_network_to_client demo_tcp) + length [1, 2, 3 :: byte] \<and>
    (receiver_accepts p \<or> hd_is_v6 (pk_ip (tc_network_to_client demo_tcp)) \<and>
      td_is_udp (pk_transport (tc_network_to_client demo_tcp)))"
proof (rule packetizer_builds)
  show "pk_wf (tc_network_to_client demo_tcp)"
    using demo_tcp_ok(1) by (simp add: tc_wf_def tcp_pk_wf_def)
  from pk_wf_bounds(2) [OF this] show "pk_payload_index (tc_network_to_client demo_tcp) +
      length [1, 2, 3 :: byte] < MAX_PACKET_LENGTH"
    by (simp add: MAX_PACKET_LENGTH_def)
qed

text \<open>C12: a new packetizer answers: its packets go from the reference packet's destination to its
  source, address and port.\<close>
theorem packetizer_swaps_endpoints:
  assumes "packet_wf p" "snd (ip_headers_data p) = Some td" "ip_headers p = Some (ih, Some th)"
  shows "\<exists>pk. packetizer_new ih th = Some pk \<and> pk_wf pk \<and>
    hd_source (pk_ip pk) = hd_destination (fst (ip_headers_data p)) \<and>
    hd_destination (pk_ip pk) = hd_source (fst (ip_headers_data p)) \<and>
    td_source_port (pk_transport pk) = td_destination_port td \<and>
    td_destination_port (pk_transport pk) = td_source_port td"
proof -
  obtain ih' raw where r: "ip_headers p = Some (ih', Some (td_bind raw td))" "ih_bound ih'"
    "ih_data_clone ih' = fst (ip_headers_data p)" "length (ih_raw ih') = unat (ih_header_length ih')"
    "20 \<le> length (ih_raw ih')" "transport_header_ok td raw"
    by (rule ip_headers_ok [OF assms(1,2)])
  then have e: "ih' = ih" "th = td_bind raw td" using assms(3) by simp_all
  have "transport_header_ok (t_data_clone th) (t_raw th)" using r(6) e by simp
  then obtain pk where "packetizer_new ih' th = Some pk" "pk_wf pk" "hd_source (pk_ip pk) = ih_destination ih'"
    "hd_destination (pk_ip pk) = ih_source ih'" "td_source_port (pk_transport pk) = t_destination_port th"
    "td_destination_port (pk_transport pk) = t_source_port th"
    by (rule packetizer_new_ok [OF r(2,4,5)])
  then show ?thesis
    using r(3) e by (simp add: ih_destination_def ih_source_def t_destination_port_def t_source_port_def)
qed

theorem packetizer_swaps_endpoints_witness:
  "\<exists>pk. packetizer_new (fst (the (ip_headers demo_syn))) (the (snd (the (ip_headers demo_syn)))) = Some pk \<and>
    pk_wf pk \<and>
    hd_source (pk_ip pk) = hd_destination (fst (ip_headers_data demo_syn)) \<and>
    hd_destination (pk_ip pk) = hd_source (fst (ip_headers_data demo_syn)) \<and>
    td_source_port (pk_transport pk) = td_destination_port (TdTcp demo_syn_header) \<and>
    td_destination_port (pk_transport pk) = td_source_port (TdTcp demo_syn_header)"
proof (rule packetizer_swaps_endpoints)
  obtain ih th where "ip_headers demo_syn = Some (ih, Some th)"
    using ip_headers_ok [OF demo_packet_ok(3) demo_syn_facts(1)] by metis
  then show "ip_headers demo_syn = Some (fst (the (ip_headers demo_syn)), Some (the (snd (the (ip_headers demo_syn)))))"
    by simp
qed simp_all

text \<open>C13: the checksums of a packet. The result passes the receiver's check: the ones' complement sum
  over the IP header, and over the pseudo header and the TCP segment, is all ones (UDP over IPv4
  sends the zero that means none; UDP over IPv6 excepted). Nothing else is written: every byte
  outside the two of each checksum field (10 and 11 of an IPv4 header, 16 and 17 of a TCP header,
  6 and 7 of a UDP header) is the byte it was.\<close>
theorem checksums_verify:
  assumes "packet_wf p"
  shows "\<exists>p'. ip_compute_checksums p = Some p' \<and> packet_wf p' \<and> ip_headers_data p' = ip_headers_data p \<and>
    ip_payload p' = ip_payload p \<and> (receiver_accepts p' \<or> udp_over_ipv6 p) \<and>
    length (ip_raw p') = length (ip_raw p) \<and>
    (\<forall>i < length (ip_raw p). i \<in> checksum_bytes p \<or> ip_raw p' ! i = ip_raw p ! i)"
proof -
  obtain p' where p': "ip_compute_checksums p = Some p'" "checksummed p p'"
    by (rule compute_checksums_ok [OF assms])
  then show ?thesis
    using compute_checksums_length [OF assms] compute_checksums_only [OF assms p'(1)]
    by (intro exI [of _ p']) (auto simp: checksummed_def)
qed

theorem checksums_verify_witness:
  "\<exists>p'. ip_compute_checksums demo_syn = Some p' \<and> packet_wf p' \<and>
    checksum_bytes demo_syn = {10, 11, 36, 37} \<and> receiver_accepts p' \<and>
    (\<forall>i < 40. i \<in> {10, 11, 36, 37} \<or> ip_raw p' ! i = ip_raw demo_syn ! i)"
proof -
  have "packet_wf demo_syn" by simp
  moreover have "checksum_bytes demo_syn = {10, 11, 36, 37}" "length (ip_raw demo_syn) = 40"
    "\<not> udp_over_ipv6 demo_syn"
    by (code_simp, code_simp, code_simp)
  ultimately show ?thesis using checksums_verify [of demo_syn] by auto
qed

text \<open>C14: the IPv4 header checksum is the one RFC 1071 defines over the header with its checksum field
  at zero, and only that field changes.\<close>
theorem ipv4_checksum_is_rfc1071:
  assumes "ipv4_bound h" "20 \<le> unat (v4_header_length (h4_data h))"
    "unat (v4_header_length (h4_data h)) \<le> length (h4_raw h)"
  shows "\<exists>h'. ipv4_update_checksum h = Some h' \<and> h4_data h' = h4_data h \<and>
    ipv4_checksum h' = Some (rfc1071_checksum
      ((take (unat (v4_header_length (h4_data h))) (h4_raw h))[10 := 0, 11 := 0]))"
  using ipv4_update_checksum_ok [OF assms(1) refl assms(2,3)] by blast

theorem ipv4_checksum_is_rfc1071_witness:
  "\<exists>h'. ipv4_update_checksum (ipv4_bind (take 20 demo_syn_bytes) (the (ipv4_parse demo_syn_bytes))) = Some h' \<and>
    h4_data h' = h4_data (ipv4_bind (take 20 demo_syn_bytes) (the (ipv4_parse demo_syn_bytes))) \<and>
    ipv4_checksum h' = Some (rfc1071_checksum ((take (unat (v4_header_length (h4_data (ipv4_bind
      (take 20 demo_syn_bytes) (the (ipv4_parse demo_syn_bytes)))))) (h4_raw (ipv4_bind
      (take 20 demo_syn_bytes) (the (ipv4_parse demo_syn_bytes)))))[10 := 0, 11 := 0]))"
  by (rule ipv4_checksum_is_rfc1071) (code_simp+)



text \<open>C16: a poll of a connection past its handshake keeps the relay within the client's window: if what is in
  flight fits the window the client announced, and no packet is deferred, it still fits after the poll,
  whatever the network and the client's buffer do and whatever the wrap-around of the sequence numbers
  (one number more for the relay's FIN). The flush of a deferred packet is another matter: it counts
  the packet's headers as data (C29).\<close>
theorem tcp_respects_the_window:
  assumes "cfg_inv True (c, b)" "tcb_state (tc_tcb c) \<notin> {Init, SynSent}"
    "fin_sequence_number (tc_tcb c) = None"
    "unat (sequence_number (tc_tcb c) - their_acknowledgement_number (tc_tcb c)) \<le> unat (client_window (tc_tcb c))"
  shows "\<exists>r c' b'. tcp_poll (c, b) = Some (r, c', b') \<and> client_window (tc_tcb c') = client_window (tc_tcb c) \<and>
    unat (sequence_number (tc_tcb c') - their_acknowledgement_number (tc_tcb c')) \<le>
      unat (client_window (tc_tcb c')) + (if fin_sequence_number (tc_tcb c') = None then 0 else 1)"
proof -
  obtain r c' b' where p: "tcp_poll (c, b) = Some (r, c', b')"
    by (rule tcp_poll_total [of c b]) (use assms(1) in \<open>simp_all add: cfg_inv_def\<close>)
  have "window_ok (tc_tcb c') \<and> client_window (tc_tcb c') = client_window (tc_tcb c)"
    using tcp_poll_window [OF assms(1,3) _ assms(2) p] assms(4) by (simp add: in_flight_def)
  with p show ?thesis by (auto simp: in_flight_def window_ok_def split: option.splits)
qed

text \<open>An established connection, with nothing in flight, to which the network has sent three bytes and its
  end.\<close>
theorem tcp_respects_the_window_witness:
  "\<exists>r c' b'. tcp_poll (demo_downloading, demo_out) = Some (r, c', b') \<and> client_window (tc_tcb c') = 65535 \<and>
    unat (sequence_number (tc_tcb c') - their_acknowledgement_number (tc_tcb c')) \<le>
      65535 + (if fin_sequence_number (tc_tcb c') = None then 0 else 1)"
proof -
  have i: "cfg_inv True (demo_downloading, demo_out)" "fin_sequence_number (tc_tcb demo_downloading) = None"
    using demo_tcp_ok(1) by (simp_all add: cfg_inv_def cfg_wf_def tc_wf_def demo_downloading_def tcb_new_def)
  have w: "client_window (tc_tcb demo_downloading) = 65535" "tcb_state (tc_tcb demo_downloading) \<notin> {Init, SynSent}"
    "unat (sequence_number (tc_tcb demo_downloading) - their_acknowledgement_number (tc_tcb demo_downloading))
      \<le> unat (client_window (tc_tcb demo_downloading))"
    by (simp_all add: demo_downloading_def)
  obtain r c' b' where "tcp_poll (demo_downloading, demo_out) = Some (r, c', b')"
    "client_window (tc_tcb c') = client_window (tc_tcb demo_downloading)"
    "unat (sequence_number (tc_tcb c') - their_acknowledgement_number (tc_tcb c')) \<le>
      unat (client_window (tc_tcb c')) + (if fin_sequence_number (tc_tcb c') = None then 0 else 1)"
    using tcp_respects_the_window [OF i(1) w(2) i(2) w(3)] by blast
  then show ?thesis unfolding w(1) by (intro exI [of _ r] exI [of _ c'] exI [of _ b']) simp
qed

text \<open>C17: flows are kept apart: a packet changes no connection but the one of its own flow, and a packet
  of no flow changes none.\<close>
theorem flows_are_isolated:
  assumes "flow_id p (rt_client_label rt) \<noteq> Some cid'" "rt_send_to_network w p (rt, b) = Some (rt', b')"
  shows "map_of (rt_connections rt') cid' = map_of (rt_connections rt) cid'"
  using rt_send_other_flows [of p rt _ cid' w b rt' b'] rt_send_no_flow [of p rt w b rt' b'] assms
  by (cases "flow_id p (rt_client_label rt)") auto

text \<open>The SYN of a new flow opens its connection; the one of another port is as it was.\<close>
theorem flows_are_isolated_witness:
  "\<exists>rt' c. rt_send_to_network demo_world demo_syn
      (rt_set_buffer (rt_new\<lparr>rt_connections := [(demo_cid2, CTcp demo_tcp)]\<rparr>), demo_out) = Some (rt', demo_out) \<and>
    map_of (rt_connections rt') demo_cid = Some (CTcp c) \<and> tcb_state (tc_tcb c) = SynSent \<and>
    map_of (rt_connections rt') demo_cid2 = Some (CTcp demo_tcp)"
proof -
  let ?rt = "rt_set_buffer (rt_new\<lparr>rt_connections := [(demo_cid2, CTcp demo_tcp)]\<rparr>)"
  have f: "flow_id demo_syn (rt_client_label ?rt) = Some demo_cid"
    by (simp add: rt_set_buffer_def rt_new_def demo_flow)
  have s: "create_stream (w_tcp_connect demo_world) (w_set_options demo_world) (w_socks5_proxy demo_world) demo_cid
      = Inr demo_stream"
    by (simp add: create_stream_def demo_world_def split: unit.split)
  obtain rt' c where r: "rt_send_to_network demo_world demo_syn (?rt, demo_out) = Some (rt', demo_out)"
    "map_of (rt_connections rt') demo_cid = Some (CTcp c)" "tcb_state (tc_tcb c) = SynSent"
    by (rule rt_first_syn [OF demo_packet_ok(4) f demo_syn_facts(1) demo_syn_packet(2) _ _ _ s, of demo_out])
      (use demo_cid_fields(3) [symmetric] in \<open>auto simp: rt_set_buffer_def rt_new_def rt_purge_def\<close>)
  moreover have "map_of (rt_connections rt') demo_cid2 = map_of (rt_connections ?rt) demo_cid2"
    by (rule flows_are_isolated [OF _ r(1)]) (use f demo_cid_fields(3) [symmetric] in auto)
  ultimately show ?thesis by (simp add: rt_set_buffer_def)
qed

text \<open>C18: a packet of a flow closed less than two seconds ago is absorbed: no connection is made and no
  answer sent; from two seconds on the flow is forgotten.\<close>
theorem recently_closed_flows:
  assumes "flow_id p (rt_client_label rt) = Some cid" "map_of (rt_recently_closed rt) cid = Some t"
    "distinct (map fst (rt_recently_closed rt))"
  shows "if w_now w < t + from_secs 2
    then rt_send_to_network w p (rt, b) = Some (rt_purge (w_now w) rt, b) \<and>
      rt_connections (rt_purge (w_now w) rt) = rt_connections rt
    else cid \<notin> fst ` set (rt_recently_closed (rt_purge (w_now w) rt))"
  using rt_absorbs(1,2) [OF assms(1,2)] rt_forgets [OF assms(3,2)] by simp

theorem recently_closed_flows_witness:
  "if w_now demo_world < 0 + from_secs 2
    then rt_send_to_network demo_world demo_syn (rt_new\<lparr>rt_recently_closed := [(demo_cid, 0)]\<rparr>, demo_out) =
        Some (rt_purge (w_now demo_world) (rt_new\<lparr>rt_recently_closed := [(demo_cid, 0)]\<rparr>), demo_out) \<and>
      rt_connections (rt_purge (w_now demo_world) (rt_new\<lparr>rt_recently_closed := [(demo_cid, 0)]\<rparr>)) =
        rt_connections (rt_new\<lparr>rt_recently_closed := [(demo_cid, 0)]\<rparr>)
    else demo_cid \<notin> fst ` set (rt_recently_closed
      (rt_purge (w_now demo_world) (rt_new\<lparr>rt_recently_closed := [(demo_cid, 0)]\<rparr>)))"
  by (rule recently_closed_flows) (simp_all add: rt_new_def demo_flow)

text \<open>C19: a SYN of a new flow opens a TCP connection to the flow's destination (the forwarding address
  rewritten to the host's loopback), which waits for the socket; nothing is answered yet.\<close>
theorem first_syn_connects:
  assumes "routable p" "flow_id p (rt_client_label rt) = Some cid"
    and "snd (ip_headers_data p) = Some (TdTcp h)" "is_syn h" "map_of (rt_connections rt) cid = None"
    and "cid \<notin> fst ` set (rt_recently_closed (rt_purge (w_now w) rt))" "rt_has_buffer rt"
    and "w_socks5_proxy w = None" "w_tcp_connect w (ci_rewritten_destination cid) = Inr s" "w_set_options w s = Inr ()"
  shows "\<exists>rt' c. rt_send_to_network w p (rt, b) = Some (rt', b) \<and>
    map_of (rt_connections rt') cid = Some (CTcp c) \<and> tc_stream c = s \<and>
    tcb_state (tc_tcb c) = SynSent \<and> acknowledgement_number (tc_tcb c) = tcp_sequence_number h + 1"
proof -
  have "create_stream (w_tcp_connect w) (w_set_options w) (w_socks5_proxy w) cid = Inr s"
    using assms(8-10) by (simp add: create_stream_def split: unit.split)
  from rt_first_syn [OF assms(1-7) this, of b] show ?thesis by metis
qed

theorem first_syn_connects_witness:
  "\<exists>rt' c. rt_send_to_network demo_world demo_syn (rt_set_buffer rt_new, demo_out) = Some (rt', demo_out) \<and>
    map_of (rt_connections rt') demo_cid = Some (CTcp c) \<and> tc_stream c = demo_stream \<and>
    tcb_state (tc_tcb c) = SynSent \<and> acknowledgement_number (tc_tcb c) = tcp_sequence_number demo_syn_header + 1"
  by (rule first_syn_connects [OF demo_packet_ok(4) _ demo_syn_facts(1)])
    (simp_all add: rt_set_buffer_def rt_new_def demo_flow demo_world_def rt_purge_def)

text \<open>C20: the first datagram of a UDP flow is not lost: a socket is opened for the flow's destination and
  the datagram is queued for it.\<close>
theorem first_datagram_is_queued:
  assumes "routable p" "flow_id p (rt_client_label rt) = Some cid"
    and "snd (ip_headers_data p) = Some (TdUdp h)" "ip_payload p = Some (Some payload)"
    and "map_of (rt_connections rt) cid = None"
    and "cid \<notin> fst ` set (rt_recently_closed (rt_purge (w_now w) rt))" "rt_has_buffer rt"
    and "udp_create_socket (w_udp_open w) cid = Inr s"
  shows "\<exists>rt' c. rt_send_to_network w p (rt, b) = Some (rt', b) \<and>
    map_of (rt_connections rt') cid = Some (CUdp c) \<and> uc_socket c = s \<and>
    db_repr (uc_client_to_network c) [payload] \<and> \<not> uc_closed c"
  using rt_first_datagram [OF assms, of b] unfolding uc_holds_def by metis

theorem first_datagram_is_queued_witness:
  "\<exists>rt' c. rt_send_to_network demo_world demo_datagram (rt_set_buffer rt_new, demo_out) = Some (rt', demo_out) \<and>
    map_of (rt_connections rt') (ci_from_headers (fst (ip_headers_data demo_datagram))
      (the (snd (ip_headers_data demo_datagram))) []) = Some (CUdp c) \<and> uc_socket c = demo_stream \<and>
    db_repr (uc_client_to_network c) [[1, 2, 3, 4]] \<and> \<not> uc_closed c"
proof (rule first_datagram_is_queued)
  show h: "snd (ip_headers_data demo_datagram) = Some (TdUdp \<lparr>udp_source_port = 12345, udp_destination_port = 53\<rparr>)"
    and "ip_payload demo_datagram = Some (Some [1, 2, 3, 4])"
    unfolding demo_datagram_def frame_packet_def by code_simp+
  have "\<not> is_icmp_echo_request demo_datagram" "\<not> rt_is_quic demo_datagram" "ip_is_valid demo_datagram"
    unfolding demo_datagram_def frame_packet_def by code_simp+
  then show "flow_id demo_datagram (rt_client_label (rt_set_buffer rt_new)) = Some (ci_from_headers
      (fst (ip_headers_data demo_datagram)) (the (snd (ip_headers_data demo_datagram))) [])"
    using h by (simp add: flow_id_def rt_set_buffer_def rt_new_def)
qed (simp_all add: rt_set_buffer_def rt_new_def rt_purge_def udp_create_socket_def demo_world_def)

text \<open>C21: an ICMP echo request is answered by the relay itself. The reply has the request's length, its
  addresses swapped, type 0, the same identifier, sequence number and data, and both checksums verify;
  anything else that looks like a request is not answered, and the function never panics.\<close>
theorem echo_reply_correct:
  "\<exists>reply. build_echo_reply request = Some reply \<and> (reply = None \<longleftrightarrow> \<not> is_echo_request request) \<and>
    (\<forall>r. reply = Some r \<longrightarrow>
      (let ihl = unat (request ! 0 AND 0x0F) * 4; n = unat (u16_of_bytes (request ! 2) (request ! 3)) in
       length r = n \<and> take 4 (drop 12 r) = take 4 (drop 16 request) \<and>
       take 4 (drop 16 r) = take 4 (drop 12 request) \<and> r ! ihl = 0 \<and>
       drop (ihl + 4) r = drop (ihl + 4) (take n request) \<and>
       oc_norm (words_sum (take ihl r)) = 65535 \<and> oc_norm (words_sum (drop ihl r)) = 65535))"
proof (cases "is_echo_request request")
  case False
  then show ?thesis by (simp add: build_echo_reply_ok)
next
  case True
  then have l: "20 \<le> unat (request ! 0 AND 0x0F) * 4"
    "unat (request ! 0 AND 0x0F) * 4 + 8 \<le> unat (u16_of_bytes (request ! 2) (request ! 3))"
    "unat (u16_of_bytes (request ! 2) (request ! 3)) \<le> length request"
    by (simp_all add: is_echo_request_def Let_def)
  show ?thesis using True echo_reply_facts [OF l] by (simp add: build_echo_reply_ok Let_def)
qed

theorem echo_reply_correct_witness:
  "\<exists>reply. build_echo_reply demo_ping_bytes = Some reply \<and>
    (reply = None \<longleftrightarrow> \<not> is_echo_request demo_ping_bytes) \<and>
    (\<forall>r. reply = Some r \<longrightarrow>
      (let ihl = unat (demo_ping_bytes ! 0 AND 0x0F) * 4;
           n = unat (u16_of_bytes (demo_ping_bytes ! 2) (demo_ping_bytes ! 3)) in
       length r = n \<and> take 4 (drop 12 r) = take 4 (drop 16 demo_ping_bytes) \<and>
       take 4 (drop 16 r) = take 4 (drop 12 demo_ping_bytes) \<and> r ! ihl = 0 \<and>
       drop (ihl + 4) r = drop (ihl + 4) (take n demo_ping_bytes) \<and>
       oc_norm (words_sum (take ihl r)) = 65535 \<and> oc_norm (words_sum (drop ihl r)) = 65535))"
  by (rule echo_reply_correct)

text \<open>C22: a QUIC packet over IPv4 is answered with an ICMP port unreachable, so that the application falls
  back to TCP: it comes from the packet's destination, quotes its header and first eight bytes, has
  checksums that verify, and changes no connection. It is dropped when the buffer is full.\<close>
theorem quic_is_refused:
  assumes "rt_is_quic (PkV4 q)" "\<not> is_icmp_echo_request (PkV4 q)" "packet_wf (PkV4 q)" "sb_wf b"
  shows "\<exists>r b'. rt_send_to_network w (PkV4 q) (rt, b) = Some (rt, b') \<and>
    (if length r \<le> sb_remaining b then sb_content b' = sb_content b @ r else b' = b) \<and>
    ipv4_parse r = Some \<lparr>v4_version = 4, v4_header_length = 20, v4_total_length = of_nat (length r),
      v4_protocol = Icmp, v4_source = v4_destination (p4_ip q), v4_destination = v4_source (p4_ip q)\<rparr> \<and>
    take 2 (drop 20 r) = [3, 3] \<and> drop 28 r = take (unat (v4_header_length (p4_ip q)) + 8) (p4_raw q) \<and>
    oc_norm (words_sum (take 20 r)) = 65535 \<and> oc_norm (words_sum (drop 20 r)) = 65535"
proof -
  let ?r = "port_unreachable (v4_source (p4_ip q)) (v4_destination (p4_ip q))
    (unat (v4_header_length (p4_ip q))) (p4_raw q)"
  have hl: "unat (v4_header_length (p4_ip q)) \<le> length (p4_raw q)" "unat (v4_header_length (p4_ip q)) < 256"
    using assms(3) by (simp_all add: Let_def)
  obtain b' where "rt_send_to_network w (PkV4 q) (rt, b) = Some (rt, b')"
    "if length ?r \<le> sb_remaining b then sb_content b' = sb_content b @ ?r else b' = b"
    using rt_quic [OF assms(1,2) refl assms(3,4), of w rt] by blast
  then show ?thesis using port_unreachable_facts [OF hl] by blast
qed

theorem quic_is_refused_witness:
  "\<exists>q. PkV4 q = demo_quic \<and> (\<exists>r b'. rt_send_to_network demo_world (PkV4 q) (rt_new, demo_out) = Some (rt_new, b') \<and>
    (if length r \<le> sb_remaining demo_out then sb_content b' = sb_content demo_out @ r else b' = demo_out) \<and>
    ipv4_parse r = Some \<lparr>v4_version = 4, v4_header_length = 20, v4_total_length = of_nat (length r),
      v4_protocol = Icmp, v4_source = v4_destination (p4_ip q), v4_destination = v4_source (p4_ip q)\<rparr> \<and>
    take 2 (drop 20 r) = [3, 3] \<and> drop 28 r = take (unat (v4_header_length (p4_ip q)) + 8) (p4_raw q) \<and>
    oc_norm (words_sum (take 20 r)) = 65535 \<and> oc_norm (words_sum (drop 20 r)) = 65535)"
proof -
  have f: "rt_is_quic demo_quic" "\<not> is_icmp_echo_request demo_quic"
    unfolding demo_quic_def frame_packet_def by code_simp+
  have "\<exists>q. demo_quic = PkV4 q" unfolding demo_quic_def frame_packet_def by (rule exI) code_simp
  then obtain q where q: "demo_quic = PkV4 q" by blast
  show ?thesis
    using quic_is_refused [of q demo_out demo_world rt_new] f demo_packet_ok(11) demo_out_ok(2) unfolding q by blast
qed

text \<open>C23: a SOCKS5 request names its destination: the bytes the relay sends parse, by RFC 1928, to the
  address and port it was asked for.\<close>
theorem socks5_request_names_destination:
  assumes "\<forall>ip. fst destination = IpV6 ip \<longrightarrow> length ip = 16"
  shows "socks5_request_destination (build_socks5_connect_request destination) = Some destination"
  using socks5_request_roundtrip assms by blast

theorem socks5_request_names_destination_witness:
  "socks5_request_destination (build_socks5_connect_request (IpV4 0x08080808, 443)) = Some (IpV4 0x08080808, 443)"
  by (rule socks5_request_names_destination) simp

text \<open>C24: with a proxy that accepts and replies with an IP address, the handshake succeeds, sends the
  greeting and the request and nothing else, and leaves the stream at the first byte of the tunnel,
  however the bytes are split; a proxy that refuses the method is sent nothing more.\<close>
theorem socks5_handshake_correct:
  assumes "rx_healthy s" "tx_healthy (3 + length (build_socks5_connect_request destination)) s"
  shows "(\<forall>reply rest. rx_bytes s = [0x05, 0x00] @ reply @ rest \<and> socks5_accepts_ip reply \<longrightarrow>
      (\<exists>s'. socks5_handshake destination s = (Inr (), s') \<and> rx_bytes s' = rest \<and>
        sent_bytes s' = sent_bytes s @ [0x05, 0x01, 0x00] @ build_socks5_connect_request destination)) \<and>
    (\<forall>v m rest. rx_bytes s = [v, m] @ rest \<and> [v, m] \<noteq> [0x05, 0x00] \<longrightarrow>
      (\<exists>s'. socks5_handshake destination s = (Inl OtherError, s') \<and>
        sent_bytes s' = sent_bytes s @ [0x05, 0x01, 0x00]))"
  using socks5_handshake_reads [OF assms(1) _ socks5_accepts_ip_reads, of _ _ destination 0]
    socks5_method_refused [OF assms(1), of _ _ _ "length (build_socks5_connect_request destination)" destination]
    assms(2) by auto

theorem socks5_handshake_correct_witness:
  "\<exists>s'. socks5_handshake (IpV4 0x08080808, 443)
      \<lparr>rx = [Inr [5, 0, 5], Inr [0, 0, 1, 1, 2, 3, 4, 0, 80, 77]], tx = replicate 20 (Inr 100), sent = []\<rparr>
      = (Inr (), s') \<and> rx_bytes s' = [77] \<and>
    sent_bytes s' = [0x05, 0x01, 0x00] @ [0x05, 0x01, 0x00, 0x01, 8, 8, 8, 8, 1, 187]"
proof -
  let ?s = "\<lparr>rx = [Inr [5, 0, 5], Inr [0, 0, 1, 1, 2, 3, 4, 0, 80, 77]], tx = replicate 20 (Inr 100), sent = []\<rparr>"
  have healthy: "rx_healthy ?s" "tx_healthy (3 + length (build_socks5_connect_request (IpV4 0x08080808, 443))) ?s"
    by (simp_all add: rx_healthy_def tx_healthy_def bytes_of_u32_def bytes_of_u16_def)
  have accepts: "socks5_accepts_ip [5, 0, 0, 1, 1, 2, 3, 4, 0, 80]"
    unfolding socks5_accepts_ip_def by (intro exI [of _ 0] exI [of _ "[1, 2, 3, 4]"] exI [of _ "[0, 80]"]) simp
  have request: "build_socks5_connect_request (IpV4 0x08080808, 443) = [0x05, 0x01, 0x00, 0x01, 8, 8, 8, 8, 1, 187]"
    by code_simp
  have all: "rx_bytes ?s = [0x05, 0x00] @ [5, 0, 0, 1, 1, 2, 3, 4, 0, 80] @ [77]"
    by (simp add: rx_bytes_def)
  from socks5_handshake_correct [OF healthy, THEN conjunct1, rule_format, OF conjI, OF all accepts]
  show ?thesis
    unfolding request by simp
qed

text \<open>C25: the parser takes exactly the frames: on the bytes of a packet whose header fits, followed by
  anything, it returns that packet and no more; it panics on an IPv4 packet shorter than its
  header.\<close>
theorem parse_takes_the_frame:
  assumes "device_frame p"
  shows "\<exists>pkt. ip_packet_parse (p @ rest) = Some (Some pkt) \<and> ip_raw pkt = p \<and> packet_wf pkt \<and>
    unat (ip_length pkt) = length p"
  using device_frame_parses [OF assms, of rest] packet_wf_length by metis

theorem parse_takes_the_frame_witness:
  "\<exists>pkt. ip_packet_parse (demo_syn_bytes @ [1, 2]) = Some (Some pkt) \<and> ip_raw pkt = demo_syn_bytes \<and>
    packet_wf pkt \<and> unat (ip_length pkt) = length demo_syn_bytes"
  by (rule parse_takes_the_frame) simp

text \<open>C26: an IPv4 packet with a header of 20 bytes that says its total length is zero, of a protocol other
  than ICMP, TCP and UDP, is never consumed: the loop of \<open>feed_device_data\<close> does not end, whatever the
  fuel.\<close>
theorem zero_length_packet_hangs:
  assumes "pb_ok (cl_client_to_network cl)" "pb_content (cl_client_to_network cl) = h @ rest" "zero_length h"
  shows "feed_loop fuel ws n cl = None"
  by (rule zero_length_livelock [OF assms])

theorem zero_length_packet_hangs_witness:
  "feed_loop 1000 (\<lambda>_. demo_world) 0 (demo_client\<lparr>cl_client_to_network := \<lparr>pb_buf =
      \<lparr>bb_buf = (0x45 # replicate 19 0) @ replicate 65516 0, bb_head = 20\<rparr>\<rparr>\<rparr>) = None"
  by (rule zero_length_packet_hangs [where h = "0x45 # replicate 19 0" and rest = "[]"])
    (simp_all add: pb_ok_def pb_wf_def bb_wf_def bb_capacity_def MAX_PACKET_LENGTH_def pb_content_def
      bb_content_def zero_length_def ipv4_protocol_of_byte_def take_Cons' nth_Cons')

text \<open>C27: an IPv4 packet from the device that announces TCP and ends before the 16th byte of the TCP
  header, with a right total length, panics the client that reads it: the length of the IP packet is
  checked, the length of what follows its header is not. No other client and no connection is needed,
  and no network behaviour avoids it.\<close>
theorem truncated_segment_panics:
  assumes "pb_ok (cl_client_to_network (rs_client rs))" "pb_content (cl_client_to_network (rs_client rs)) = []"
    and "truncated_segment p" "rx (rs_stream rs) = Inr p # r"
    and "\<not> cl_closed (rs_client rs)" "\<not> cl_signalled (rs_client rs)"
  shows "run_iteration (Suc fuel) tk rs = Some None"
  by (rule truncated_segment_stops [OF assms])

theorem truncated_segment_panics_witness:
  "length demo_header_bytes = 20 \<and> run_iteration 1 demo_tick (demo_state demo_header_bytes) = Some None"
proof -
  have "pb_ok (cl_client_to_network demo_client)" using demo_client_ok by (simp add: cl_ok_def)
  then have "run_iteration (Suc 0) demo_tick (demo_state demo_header_bytes) = Some None"
    by (intro truncated_segment_panics [where p = demo_header_bytes and r = "[]"])
      (simp_all add: demo_state_def truncated_segment_def demo_header_bytes_def u16_of_bytes_def
        ipv4_protocol_of_byte_def)
  then show ?thesis by (simp add: demo_header_bytes_def)
qed

text \<open>C28: after the network ended its stream, the client's next in-order segment is lost: \<open>eof\<close> adds one
  to the acknowledgement number, so a segment at the number the client was last told is taken for an
  old one. It is answered with an empty ACK and nothing of it is delivered.\<close>
theorem segment_after_eof_is_dropped:
  assumes "tc_eof (c, b) = Some (c1, b1)" "tcp_packet h payload p" "\<not> is_syn h"
    and "tcp_sequence_number h = acknowledgement_number (tc_tcb c)"
    and "handle_packet random p (c1, b2) = Some (c2, b3)"
  shows "tc_tcb c2 = tc_tcb c1 \<and> delivered c2 = delivered c \<and>
    acknowledgement_number (tc_tcb c1) = acknowledgement_number (tc_tcb c) + 1"
  using half_closed_segment_dropped [OF assms] tc_eof_numbers [OF assms(1)] by simp

theorem segment_after_eof_is_dropped_witness:
  "\<exists>c1 b1 c2 b2. tc_eof (demo_syn_sent, demo_out) = Some (c1, b1) \<and>
    handle_packet 0 demo_ack (c1, b1) = Some (c2, b2) \<and> tc_tcb c2 = tc_tcb c1 \<and>
    delivered c2 = delivered demo_syn_sent \<and>
    acknowledgement_number (tc_tcb c1) = acknowledgement_number (tc_tcb demo_syn_sent) + 1"
proof -
  have inv: "cfg_inv True (demo_syn_sent, demo_out)"
    using demo_tcp_ok(1) by (simp add: cfg_inv_def cfg_wf_def tc_wf_def demo_syn_sent_def)
  then obtain c1 b1 where 1: "tc_eof (demo_syn_sent, demo_out) = Some (c1, b1)" "cfg_inv True (c1, b1)"
    using tc_eof_step [OF inv] by (auto simp: step_ok_def split: option.splits)
  obtain c2 b2 where 2: "handle_packet 0 demo_ack (c1, b1) = Some (c2, b2)"
    using handle_packet_step [OF 1(2) demo_ack_packet(1), of 0] by (auto simp: step_ok_def split: option.splits)
  show ?thesis
    using segment_after_eof_is_dropped [OF 1(1) demo_ack_packet(1) _ _ 2] 1(1) 2
    by (auto simp: demo_syn_sent_def)
qed

text \<open>C29: a deferred packet that is flushed advances the sequence number by the whole packet, its headers
  included, and not by its payload.\<close>
theorem deferred_packet_overcounts:
  assumes "pk_inflate len (tc_network_to_client c) = Some p" "unat (ip_length p) = length (ip_raw p)"
    and "length (ip_raw p) \<le> sb_remaining b" "sb_wf b" "tc_packet_for_client_length c = Some len"
  shows "\<exists>c' b'. flush_pending_packet (c, b) = Some (Inr (), c', b') \<and>
    sequence_number (tc_tcb c') = sequence_number (tc_tcb c) + ucast len \<and>
    sb_content b' = sb_content b @ ip_raw p"
  using deferred_flush_sequence [OF assms] by metis

theorem deferred_packet_overcounts_witness:
  "\<exists>n p c' b'. flush_pending_packet (demo_tcp\<lparr>tc_network_to_client := demo_built,
      tc_packet_for_client_length := Some n\<rparr>, demo_out) = Some (Inr (), c', b') \<and>
    sequence_number (tc_tcb c') = sequence_number (tc_tcb demo_tcp) + ucast n \<and>
    sb_content b' = sb_content demo_out @ ip_raw p"
proof -
  obtain n p where p: "pk_inflate n demo_built = Some p" "unat n = length (ip_raw p)"
    "unat (ip_length p) = length (ip_raw p)"
    by (rule demo_built_packet)
  have "length (ip_raw p) \<le> sb_remaining demo_out" using unat_u16_less [of n] p(2) by simp
  then show ?thesis
    using deferred_packet_overcounts [of n "demo_tcp\<lparr>tc_network_to_client := demo_built,
      tc_packet_for_client_length := Some n\<rparr>" p demo_out] p by auto
qed

text \<open>C30: a deferred packet does not survive an answer to the client in the meantime: the answer is built
  in the same buffer, and what is left under the deferred length has a header that says the answer's
  length.\<close>
theorem deferred_packet_is_clobbered:
  assumes "cfg_wf (c, b)" "unat n \<le> MAX_PACKET_LENGTH"
    and "send_empty_packet_to_client FLAG_ACK (c, b) = Some (c', b')"
  shows "\<exists>q. pk_inflate n (tc_network_to_client c') = Some q \<and> length (ip_raw q) = unat n \<and>
    unat (ip_length q) = pk_payload_index (tc_network_to_client c)"
  using clobbered_deferred_packet [OF assms(1) _ assms(2,3)] flags_ok_simps(1) by metis

theorem deferred_packet_is_clobbered_witness:
  "\<exists>c' b' q. send_empty_packet_to_client FLAG_ACK (demo_tcp, demo_out) = Some (c', b') \<and>
    pk_inflate 60000 (tc_network_to_client c') = Some q \<and> length (ip_raw q) = unat (60000 :: u16) \<and>
    unat (ip_length q) = pk_payload_index (tc_network_to_client demo_tcp)"
proof -
  have "cfg_wf (demo_tcp, demo_out)" using demo_tcp_ok(1) by (simp add: cfg_wf_def)
  moreover from send_empty_ok [OF this flags_ok_simps(1)] obtain c' b' where
    "send_empty_packet_to_client FLAG_ACK (demo_tcp, demo_out) = Some (c', b')" by blast
  ultimately show ?thesis
    using deferred_packet_is_clobbered [of demo_tcp demo_out 60000 c' b'] by (auto simp: MAX_PACKET_LENGTH_def)
qed

text \<open>C31: a datagram that fills a \<open>DatagramBuffer\<close> to the end of its circular part while the tail is at
  the start makes the buffer look empty: it is accepted, and everything in the buffer is lost.\<close>
theorem full_datagram_buffer_looks_empty:
  assumes "db_geometry b" "db_tail b = 0" "db_circular_length b \<le> db_head b + 2 + length d"
    and "length d < 65536" "db_has_enough_space_for (length d) b"
  shows "\<exists>b'. db_read_from d b = Some (Inr (), b') \<and> db_is_empty b'"
  using db_read_from_stored [OF assms(1,4,5)] db_stored_collision(1) [OF assms(1-3)] by auto

theorem full_datagram_buffer_looks_empty_witness:
  "\<exists>b'. db_read_from [1, 2, 3] (db_new 4) = Some (Inr (), b') \<and> db_is_empty b'"
  by (rule full_datagram_buffer_looks_empty)
    (simp_all add: db_geometry_def db_new_def db_has_enough_space_for_def MAX_BLOCK_LENGTH_def HEADER_LENGTH_def)

text \<open>C32: with a proxy that replies with a domain name, the handshake swallows the first byte of the
  tunnel.\<close>
theorem socks5_domain_reply_loses_a_byte:
  assumes "rx_healthy s" "rx_bytes s = [0x05, 0x00] @ reply @ b # rest" "socks5_accepts_domain reply"
    and "tx_healthy (3 + length (build_socks5_connect_request destination)) s"
  shows "\<exists>s'. socks5_handshake destination s = (Inr (), s') \<and> rx_bytes s' = rest"
  using socks5_domain_reply_swallows [OF assms(1-3), of destination 0] assms(4) by simp

theorem socks5_domain_reply_loses_a_byte_witness:
  "\<exists>s'. socks5_handshake (IpV4 0x08080808, 443) \<lparr>rx = [Inr [5, 0, 5, 0, 0, 3, 1, 97, 0, 80, 77, 78]],
      tx = replicate 20 (Inr 100), sent = []\<rparr> = (Inr (), s') \<and> rx_bytes s' = [78]"
proof (rule socks5_domain_reply_loses_a_byte)
  show "socks5_accepts_domain [5, 0, 0, 3, 1, 97, 0, 80]"
    unfolding socks5_accepts_domain_def
    by (rule exI [of _ 0], rule exI [of _ 1], rule exI [of _ "[97]"], rule exI [of _ "[0, 80]"]) simp
qed (simp_all add: rx_healthy_def rx_bytes_def tx_healthy_def bytes_of_u32_def bytes_of_u16_def)

text \<open>C33: a read from the device that is longer than the room behind a partial packet loses its end: it is
  as if the bytes beyond had not been sent.\<close>
theorem long_read_is_truncated:
  assumes "pb_ok (cl_client_to_network cl)"
    and "n = MAX_PACKET_LENGTH - length (pb_content (cl_client_to_network cl))" "n < length data"
  shows "feed_device_data fuel ws data cl = feed_device_data fuel ws (take n data) cl"
  by (rule feed_overflow [OF assms])

text \<open>Of a read of 65536 bytes behind the first ten bytes of a SYN only 65526 count: the SYN is routed, the
  zeros behind it are skipped, and nothing is left of the next packet, whose first ten bytes came last.\<close>
theorem long_read_is_truncated_witness:
  "\<exists>cl cl'. cl_ok True cl \<and> pb_content (cl_client_to_network cl) = take 10 demo_syn_bytes \<and>
    length demo_long_read = 65536 \<and> drop 65526 demo_long_read = take 10 demo_syn_bytes \<and>
    feed_device_data 65498 (\<lambda>_. demo_world) demo_long_read cl = Some (Some (1, cl')) \<and>
    pb_content (cl_client_to_network cl') = []"
proof -
  obtain cl where cl: "cl_ok True cl" "pb_content (cl_client_to_network cl) = take 10 demo_syn_bytes"
    by (rule demo_half_fed)
  obtain cl' where cl': "feed_device_data 65498 (\<lambda>_. demo_world) (take 65526 demo_long_read) cl = Some (Some (1, cl'))"
    "pb_content (cl_client_to_network cl') = []"
    using demo_truncated_read [OF cl] by blast
  have "feed_device_data 65498 (\<lambda>_. demo_world) demo_long_read cl =
      feed_device_data 65498 (\<lambda>_. demo_world) (take 65526 demo_long_read) cl"
    by (rule long_read_is_truncated)
      (use cl in \<open>simp_all add: cl_ok_def demo_long_read_cut(1) MAX_PACKET_LENGTH_def\<close>)
  with cl cl' show ?thesis
    by (intro exI [of _ cl] exI [of _ cl']) (simp add: demo_long_read_cut(1) demo_long_read_def)
qed

text \<open>C34: a UDP connection never expires while the router polls it: a poll of an open connection resets
  its idle clock, whether a datagram was moved or not, so the five minutes never pass.\<close>
theorem polled_udp_never_expires:
  assumes "uc_wf c" "uc_deliverable c" "\<not> uc_closed c" "sb_wf b" "later < now + from_secs 301"
  shows "\<exists>r c' b'. udp_poll now (c, b) = Some (r, c', b') \<and> \<not> uc_is_expired later c'"
proof -
  obtain ds where "uc_holds c ds" using assms(1) by (auto simp: uc_wf_def)
  from udp_poll_ok [OF assms(1,2) this assms(4,3), of now] obtain r c' b' where
    "udp_poll now (c, b) = Some (r, c', b')" "uc_idle_since c' = now" by metis
  then show ?thesis using udp_polled_never_expires [OF _ assms(5)] by blast
qed

theorem polled_udp_never_expires_witness:
  "\<exists>r c' b'. udp_poll 5 (demo_udp, demo_out) = Some (r, c', b') \<and> \<not> uc_is_expired 100 c'"
  by (rule polled_udp_never_expires) (simp_all add: from_secs_def)

text \<open>C35: the registry is a queue of at most eight serials of which only those registered in the last
  30 seconds count: registering appends (and forgets the oldest of eight), a connection takes the oldest
  or none, and the queue stays bounded and ordered.\<close>
theorem pending_serials_refine:
  assumes "registry_ok now q"
  shows "live now (register_pending now serial q) =
      drop (length (live now q) - 7) (live now q) @ [\<lparr>pe_serial = serial, pe_registered_at = now\<rparr>] \<and>
    take_pending now q = (case live now q of [] \<Rightarrow> (None, []) | e # r \<Rightarrow> (Some (pe_serial e), r)) \<and>
    registry_ok now (register_pending now serial q) \<and> registry_ok now (snd (take_pending now q))"
  using live_register [OF assms] take_pending_live [OF assms] register_pending_ok [OF assms]
    take_pending_ok [OF assms] by blast

theorem pending_serials_refine_witness:
  "live 5 (register_pending 5 ''A'' [\<lparr>pe_serial = ''B'', pe_registered_at = 3\<rparr>]) =
    [\<lparr>pe_serial = ''B'', pe_registered_at = 3\<rparr>, \<lparr>pe_serial = ''A'', pe_registered_at = 5\<rparr>] \<and>
   take_pending 5 [\<lparr>pe_serial = ''B'', pe_registered_at = 3\<rparr>] = (Some ''B'', [])"
proof -
  have ok: "registry_ok 5 [\<lparr>pe_serial = ''B'', pe_registered_at = 3\<rparr>]"
    by (simp add: registry_ok_def MAX_PENDING_def)
  have l: "live 5 [\<lparr>pe_serial = ''B'', pe_registered_at = 3\<rparr>] = [\<lparr>pe_serial = ''B'', pe_registered_at = 3\<rparr>]"
    by (simp add: live_def MATCH_WINDOW_def from_secs_def)
  show ?thesis
    using pending_serials_refine [OF ok, of "''A''"] by (simp add: l)
qed

text \<open>C36: while every connect of the forward mode succeeds, the loop goes on, and the k-th client in a row
  that lives less than 500 ms is followed by a wait of \<open>500 * 2 ^ min k 3\<close> milliseconds (1, 2, 4, 4, ...
  seconds, however long it lasts), any other client by 500 ms.\<close>
theorem forward_retries_back_off:
  assumes "list_all connects rs"
  shows "\<exists>ds. run_forward rs 0 = (ds, None) \<and>
    map unat ds = backoff_delays 0 (map (\<lambda>r. fr_duration r < from_millis 500) rs)"
  by (rule run_forward_delays [OF assms]) simp

theorem forward_retries_back_off_witness:
  "\<exists>ds. run_forward (map (\<lambda>d. \<lparr>fr_start = 0, fr_attempts = [(Inl ConnectionRefused, 1), (Inr (), 2)], fr_duration = d\<rparr>)
      [1, 1, 1, 1, 500000000, 1]) 0 = (ds, None) \<and>
    map unat ds = [1000, 2000, 4000, 4000, 500, 1000]"
  using forward_retries_back_off
    [of "map (\<lambda>d. \<lparr>fr_start = 0, fr_attempts = [(Inl ConnectionRefused, 1), (Inr (), 2)], fr_duration = d\<rparr>)
      [1, 1, 1, 1, 500000000, 1]"]
  by (simp add: connects_def connect_deadline_def from_secs_def from_millis_def)

text \<open>C37: whatever the queries and the upstream's behaviour, a query is answered with the upstream's answer
  to it, or with what the upstream answered, less than 60 seconds before, to an earlier query whose
  question has the same name. The name is read off the bytes: the labels behind the header of 12 bytes,
  each in lower case (\<open>lower\<close>), joined by dots.\<close>
theorem dns_answers:
  assumes "i < length rounds" "dns_run lower rounds dns_new ! i = Some a"
    "rounds ! i = (datagram, now, later, up)"
  shows "upstream_answer up = Some a \<or>
    (\<exists>j < i. \<exists>datagram' now' later' up' labels labels'. rounds ! j = (datagram', now', later', up') \<and>
      asks_for (take 512 datagram) labels \<and> asks_for (take 512 datagram') labels' \<and>
      join ''.'' (map (\<lambda>l. lower (from_utf8_lossy l)) labels) = join ''.'' (map (\<lambda>l. lower (from_utf8_lossy l)) labels') \<and>
      upstream_answer up' = Some a \<and> now < later' + from_secs 60)"
proof -
  consider "upstream_answer up = Some a"
    | name e j where "extract_dns_name lower (take 512 datagram) = Some name" "ce_response e = a"
      "now < ce_expires_at e" "j < i" "stores lower (rounds ! j) name e"
    using dns_run_answers [OF assms] by (auto simp: dns_new_def)
  then show ?thesis
  proof cases
    case 2
    obtain datagram' now' later' up' where j: "rounds ! j = (datagram', now', later', up')" by (cases "rounds ! j") auto
    then have s: "extract_dns_name lower (take 512 datagram') = Some name" "upstream_answer up' = Some a"
      "now < later' + from_secs 60"
      using 2 by (auto simp: stores_def CACHE_TTL_SECONDS_def)
    obtain labels where l: "asks_for (take 512 datagram) labels" "name = dotted lower labels"
      by (rule extract_dns_name_asks [OF 2(1)])
    obtain labels' where l': "asks_for (take 512 datagram') labels'" "name = dotted lower labels'"
      by (rule extract_dns_name_asks [OF s(1)])
    show ?thesis using 2(4) j s(2,3) l l' unfolding dotted_def by blast
  qed simp
qed

theorem dns_answers_witness:
  "\<exists>j < 1. \<exists>datagram' now' later' up' labels labels'.
      [(replicate 12 0 @ encode_name [''a''], 0, 1, \<lparr>up_send = Inr (), up_recv = Inr [7]\<rparr>),
       (replicate 12 0 @ encode_name [''a''], 5, 6, \<lparr>up_send = Inr (), up_recv = Inl TimedOut\<rparr>)] ! j
      = (datagram', now', later', up') \<and>
    asks_for (take 512 (replicate 12 0 @ encode_name [''a''])) labels \<and> asks_for (take 512 datagram') labels' \<and>
    join ''.'' (map from_utf8_lossy labels) = join ''.'' (map from_utf8_lossy labels') \<and>
    upstream_answer up' = Some [7]"
proof -
  let ?q = "replicate 12 0 @ encode_name [''a'']"
  let ?r = "[(?q, 0, 1, \<lparr>up_send = Inr (), up_recv = Inr [7]\<rparr>),
    (?q, 5, 6, \<lparr>up_send = Inr (), up_recv = Inl TimedOut\<rparr>)]"
  have n: "extract_dns_name (\<lambda>s. s) ?q = Some ''a''"
    using extract_dns_name_encoded [of "replicate 12 0" "[''a'']" "\<lambda>s. s" "[]"] by (simp add: label_ok_def)
  have l: "length ?q \<le> 512" by (simp add: encode_name_def)
  have run: "dns_run (\<lambda>s. s) ?r dns_new ! 1 = Some [7]"
    using cached_answer_keeps_id [OF n n l l, of "[7]" 5 1 0] by (simp add: from_secs_def)
  have "\<not> upstream_answer \<lparr>up_send = Inr (), up_recv = Inl TimedOut\<rparr> = Some [7]"
    by (simp add: upstream_answer_def)
  then show ?thesis
    using dns_answers [of 1 ?r "\<lambda>s. s" "[7]" ?q 5 6 "\<lparr>up_send = Inr (), up_recv = Inl TimedOut\<rparr>", OF _ run]
    by fastforce
qed

text \<open>C38: a monitor whose buffer is empty, from the daemon's greeting to the end of its stream, however the
  bytes are cut into reads, calls back once for each device that a list shows and the list before did
  not, in order. A list shows the devices with the state \<open>device\<close>; with \<open>usb_only\<close> only those that the
  \<open>adb devices -l\<close> taken with it has in a line without \<open>tcp:\<close> (\<open>usb_listed\<close>), unless that command failed: then
  all of them, on USB or not. At the end the stream's end is an error, and nothing is left in the buffer.\<close>
theorem adb_devices_are_announced:
  assumes "mon_buf (am_buf m) []" "list_all update_ok updates" "tx_healthy 22 s"
    "rx s = map Inr chunks @ [Inr []]" "[] \<notin> set chunks"
    "concat chunks = bytes_of_string ''OKAY'' @ concat (map update_bytes updates)"
  shows "\<exists>s' m'. track_devices_on_stream s m = Some (Inl UnexpectedEof, s', m') \<and> mon_buf (am_buf m') [] \<and>
    am_announced m' = am_announced m @
      announcements (am_usb_only m) (am_listings m) (am_connected_devices m) updates"
  by (rule track_announces [OF assms(1-3)]) (use assms(4-) in \<open>auto simp: yields_def\<close>)

theorem adb_devices_are_announced_witness:
  "\<exists>s' m'. track_devices_on_stream
      \<lparr>rx = [Inr (bytes_of_string ''OK''), Inr (bytes_of_string (''AY0009A'' @ CHR 0x09 # ''devi'')),
          Inr (bytes_of_string (''ce'' @ CHR 0x0A # ''0012A'' @ CHR 0x09 # ''device'' @ CHR 0x0A # ''B'' @
            CHR 0x09 # ''device'' @ [CHR 0x0A])), Inr []],
        tx = replicate 22 (Inr 1), sent = []\<rparr>
      (am_new [Some (bytes_of_string ''A device tcp:9''), Some (bytes_of_string ''A device usb:1'')])
      = Some (Inl UnexpectedEof, s', m') \<and> mon_buf (am_buf m') [] \<and> am_announced m' = [''A'']"
proof -
  let ?cs = "[bytes_of_string ''OK'', bytes_of_string (''AY0009A'' @ CHR 0x09 # ''devi''),
    bytes_of_string (''ce'' @ CHR 0x0A # ''0012A'' @ CHR 0x09 # ''device'' @ CHR 0x0A # ''B'' @
      CHR 0x09 # ''device'' @ [CHR 0x0A])]"
  let ?us = "[[(''A'', ''device'')], [(''A'', ''device''), (''B'', ''device'')]]"
  let ?s = "\<lparr>rx = map Inr ?cs @ [Inr []], tx = replicate 22 (Inr 1), sent = []\<rparr>"
  let ?ls = "[Some (bytes_of_string ''A device tcp:9''), Some (bytes_of_string ''A device usb:1'')]"
  have m: "mon_buf (am_buf (am_new ?ls)) []"
    by (simp add: mon_buf_def am_new_def)
  have us: "list_all update_ok ?us"
    by (simp add: update_ok_def plain_word_def device_lines_def)
  have tx: "tx_healthy 22 ?s" by (simp add: tx_healthy_def)
  have cs: "concat ?cs = bytes_of_string ''OKAY'' @ concat (map update_bytes ?us)" "[] \<notin> set ?cs"
    by code_simp+
  have a: "announcements True ?ls [] ?us = [''A'']" by code_simp
  have new: "am_announced (am_new ?ls) = []" "am_connected_devices (am_new ?ls) = []"
    "am_usb_only (am_new ?ls) = True" "am_listings (am_new ?ls) = ?ls"
    by (simp_all add: am_new_def)
  from adb_devices_are_announced [OF m us tx _ cs(2,1)] show ?thesis
    unfolding new a by simp
qed

text \<open>C39: whatever \<open>adb\<close> answers, a start runs the command that starts the client at most once and as its
  very last one, and only after the command that makes the tunnel has succeeded; a serial that was given
  is registered before; and the start reports success exactly when that last command did. Otherwise the
  client is not started and an error is returned.\<close>
theorem start_is_ordered:
  "\<exists>t. hs_trace (snd (run_state (cmd_start opts) h)) = hs_trace h @ t \<and>
    (if fst (run_state (cmd_start opts) h) = Inr () then started h opts t True
     else list_all startless t \<or> started h opts t False)"
proof -
  obtain r h' where r: "run_state (cmd_start opts) h = (r, h')" by force
  show ?thesis using cmd_start_order [OF r] unfolding r by (cases "r = Inr ()") auto
qed



end
